(* ===== verification/Prelude.thy ===== *)
theory Prelude
  imports Complex_Main "HOL-Library.Code_Target_Numeral"
begin

text \<open>
  Shared vocabulary of the development: Python exceptions as values, the
  result type of a function that may raise, the clock readings, and the
  generic lemmas on lists and integers that the component theories use.

  A Python exception is a constructor of \<open>exn\<close> (its message is dropped), and a
  function that may raise returns \<open>'a res\<close>, \<open>Inl\<close> for the exception. Clock
  readings and durations are exact rationals: the rounding of the
  floating-point additions on \<open>time.monotonic()\<close> readings is not modelled.
\<close>

unbundle bit_operations_syntax

section \<open>Exceptions and results\<close>

datatype exn =
    ProtocolError
  | R60VConnectionError
  | ValueError
  | TypeError
  | OverflowError
  | IndexError
  | KeyError
  | AttributeError
  | AssertionError
  | OSError
  | TimeoutError
  | IncompleteReadError
  | CancelledError
  | QueueFull
  | RuntimeError
  | UpdateFailed
  | ClientError

type_synonym 'a res = "exn + 'a"

type_synonym time = rat

definition bind_res :: "'a res \<Rightarrow> ('a \<Rightarrow> 'b res) \<Rightarrow> 'b res" where
  "bind_res m f = (case m of Inl e \<Rightarrow> Inl e | Inr x \<Rightarrow> f x)"

primrec map_res :: "('a \<Rightarrow> 'b res) \<Rightarrow> 'a list \<Rightarrow> 'b list res" where
  "map_res f [] = Inr []"
| "map_res f (x # xs) = bind_res (f x) (\<lambda>y. bind_res (map_res f xs) (\<lambda>ys. Inr (y # ys)))"

named_theorems res_simps "evaluation of results and their binds"
named_theorems codec_simps "round trips of the byte and digit codecs"
named_theorems frame_simps "what an operation leaves unchanged"

lemma bind_res_Inl [simp, res_simps]: "bind_res (Inl e) f = Inl e"
  by (simp add: bind_res_def)

lemma bind_res_Inr [simp, res_simps]: "bind_res (Inr x) f = f x"
  by (simp add: bind_res_def)

lemma bind_res_eq_Inr:
  "bind_res m f = Inr y \<longleftrightarrow> (\<exists>x. m = Inr x \<and> f x = Inr y)"
  by (simp add: bind_res_def split: sum.split)

lemma bind_res_eq_Inl:
  "bind_res m f = Inl e \<longleftrightarrow> m = Inl e \<or> (\<exists>x. m = Inr x \<and> f x = Inl e)"
  by (simp add: bind_res_def split: sum.split)

lemma map_res_all_Inr:
  "(\<And>x. x \<in> set xs \<Longrightarrow> f x = Inr (g x)) \<Longrightarrow> map_res f xs = Inr (map g xs)"
  by (induction xs) auto

lemma map_res_length: "map_res f xs = Inr ys \<Longrightarrow> length ys = length xs"
  by (induction xs arbitrary: ys) (auto simp: bind_res_eq_Inr)

lemma map_res_Inl:
  "map_res f xs = Inl e \<Longrightarrow> \<exists>x \<in> set xs. f x = Inl e"
  by (induction xs) (auto simp: bind_res_eq_Inl)

lemma map_res_set:
  "map_res f xs = Inr ys \<Longrightarrow> y \<in> set ys \<Longrightarrow> \<exists>x \<in> set xs. f x = Inr y"
  by (induction xs arbitrary: ys) (auto simp: bind_res_eq_Inr)

section \<open>Bytes\<close>

definition is_byte :: "int \<Rightarrow> bool" where
  "is_byte b \<longleftrightarrow> 0 \<le> b \<and> b \<le> 255"

lemma and_255 [codec_simps]: "(b :: int) AND 255 = b mod 256"
proof -
  have "b AND 255 = b AND mask 8" by (simp add: mask_eq_exp_minus_1)
  also have "\<dots> = take_bit 8 b" by (simp add: take_bit_eq_mask)
  finally show ?thesis by (simp add: take_bit_eq_mod)
qed

lemma and_255_byte [simp, codec_simps]: "is_byte b \<Longrightarrow> b AND 255 = b"
  by (simp add: and_255 is_byte_def)

lemma is_byte_and [simp]: "is_byte (b AND 255)"
  by (simp add: and_255 is_byte_def)

section \<open>Lists\<close>

lemma list_eq_take4:
  "length xs \<ge> 4 \<Longrightarrow> xs = xs ! 0 # xs ! 1 # xs ! 2 # xs ! 3 # drop 4 xs"
  by (cases xs; cases "tl xs"; cases "tl (tl xs)"; cases "tl (tl (tl xs))") auto

lemma nth_list_update_other: "i \<noteq> j \<Longrightarrow> xs[i := x] ! j = xs ! j"
  by simp

text \<open>Consecutive item assignments \<open>xs[i] = y0; xs[i + 1] = y1; \<dots>\<close>, all in range.\<close>

fun write_at :: "'a list \<Rightarrow> nat \<Rightarrow> 'a list \<Rightarrow> 'a list" where
  "write_at xs i [] = xs"
| "write_at xs i (y # ys) = write_at (xs[i := y]) (Suc i) ys"

lemma length_write_at [simp]: "length (write_at xs i ys) = length xs"
  by (induction xs i ys rule: write_at.induct) auto

lemma nth_write_at:
  "j < length xs \<Longrightarrow>
     write_at xs i ys ! j = (if i \<le> j \<and> j < i + length ys then ys ! (j - i) else xs ! j)"
proof (induction xs i ys rule: write_at.induct)
  case (2 xs i y ys)
  have "j - i = Suc (j - Suc i)" if "Suc i \<le> j" using that by simp
  with 2 show ?case by (auto simp: nth_list_update nth_Cons' not_le le_Suc_eq)
qed auto

end
