(* ===== verification/PyStr.thy ===== *)
theory PyStr
  imports Prelude
begin

text \<open>
  What the program uses of Python's \<open>str\<close> and \<open>bytes\<close>. Both are lists of
  \<open>char\<close>: a byte is a \<open>char\<close>, and a string holds ASCII characters or the
  replacement character U+FFFD, which decoding puts in place of a byte that is
  not ASCII and which is written \<open>CHR 0xFF\<close> here. Strings with other code
  points are outside the model. The functions are \<open>str.strip\<close>, \<open>str.split\<close>,
  \<open>str.upper\<close>, \<open>int(s, base)\<close> and the integer formats \<open>f"{n:04X}"\<close>, \<open>f"{n:02d}"\<close>,
  \<open>str(n)\<close>, each as CPython computes it.
\<close>

section \<open>Characters and encodings\<close>

definition code :: "char \<Rightarrow> nat" where
  "code c = of_char c"

definition repl_char :: char where
  "repl_char = CHR 0xFF"

text \<open>\<open>bytes.decode("ascii", "replace")\<close> and \<open>str.encode()\<close> (UTF-8), the latter as
  byte values.\<close>

definition decode_ascii :: "string \<Rightarrow> string" where
  "decode_ascii bs = map (\<lambda>c. if code c < 128 then c else repl_char) bs"

definition utf8 :: "string \<Rightarrow> nat list" where
  "utf8 s = concat (map (\<lambda>c. if code c < 128 then [code c] else [0xEF, 0xBF, 0xBD]) s)"

definition ascii :: "string \<Rightarrow> bool" where
  "ascii s \<longleftrightarrow> (\<forall>c \<in> set s. code c < 128)"

lemma ascii_append [simp]: "ascii (s @ t) \<longleftrightarrow> ascii s \<and> ascii t"
  by (auto simp: ascii_def)

lemma ascii_Nil [simp]: "ascii []"
  by (simp add: ascii_def)

lemma ascii_Cons [simp]: "ascii (c # s) \<longleftrightarrow> code c < 128 \<and> ascii s"
  by (simp add: ascii_def)

lemma decode_ascii_id [simp, codec_simps]: "ascii s \<Longrightarrow> decode_ascii s = s"
  by (induction s) (auto simp: decode_ascii_def)

lemma length_decode_ascii [simp]: "length (decode_ascii s) = length s"
  by (simp add: decode_ascii_def)

lemma decode_ascii_append: "decode_ascii (s @ t) = decode_ascii s @ decode_ascii t"
  by (simp add: decode_ascii_def)

section \<open>Whitespace, stripping, splitting, case\<close>

text \<open>The whitespace of \<open>str.strip\<close> and \<open>str.split\<close>, and the C whitespace that
  \<open>int\<close> and \<open>float\<close> skip.\<close>

definition is_ws :: "char \<Rightarrow> bool" where
  "is_ws c \<longleftrightarrow> (9 \<le> code c \<and> code c \<le> 13) \<or> (28 \<le> code c \<and> code c \<le> 32)"

definition is_cspace :: "char \<Rightarrow> bool" where
  "is_cspace c \<longleftrightarrow> (9 \<le> code c \<and> code c \<le> 13) \<or> code c = 32"

definition strip_by :: "(char \<Rightarrow> bool) \<Rightarrow> string \<Rightarrow> string" where
  "strip_by p s = rev (dropWhile p (rev (dropWhile p s)))"

definition rstrip_by :: "(char \<Rightarrow> bool) \<Rightarrow> string \<Rightarrow> string" where
  "rstrip_by p s = rev (dropWhile p (rev s))"

definition strip :: "string \<Rightarrow> string" where
  "strip s = strip_by is_ws s"

text \<open>\<open>s.split(sep)\<close> for a one-character separator, and \<open>s.split()\<close>.\<close>

fun split_on :: "char \<Rightarrow> string \<Rightarrow> string list" where
  "split_on sep [] = [[]]"
| "split_on sep (c # s) =
     (if c = sep then [] # split_on sep s
      else (case split_on sep s of
              [] \<Rightarrow> [[c]]
            | w # ws \<Rightarrow> (c # w) # ws))"

definition split_ws :: "string \<Rightarrow> string list" where
  "split_ws s =
     filter (\<lambda>w. w \<noteq> []) (split_on (CHR '' '') (map (\<lambda>c. if is_ws c then CHR '' '' else c) s))"

definition upper_char :: "char \<Rightarrow> char" where
  "upper_char c = (if 97 \<le> code c \<and> code c \<le> 122 then char_of (code c - 32) else c)"

definition upper :: "string \<Rightarrow> string" where
  "upper s = map upper_char s"

definition lower_char :: "char \<Rightarrow> char" where
  "lower_char c = (if 65 \<le> code c \<and> code c \<le> 90 then char_of (code c + 32) else c)"

definition lower :: "string \<Rightarrow> string" where
  "lower s = map lower_char s"

lemma strip_by_id:
  "s \<noteq> [] \<Longrightarrow> \<not> p (hd s) \<Longrightarrow> \<not> p (last s) \<Longrightarrow> strip_by p s = s"
proof -
  assume a: "s \<noteq> []" "\<not> p (hd s)" "\<not> p (last s)"
  from a(1,2) have "dropWhile p s = s" by (cases s) auto
  moreover from a(1,3) have "dropWhile p (rev s) = rev s"
    by (cases s rule: rev_cases) auto
  ultimately show ?thesis by (simp add: strip_by_def)
qed

lemma strip_by_Nil [simp]: "strip_by p [] = []"
  by (simp add: strip_by_def)

lemma split_on_nonempty: "split_on sep s \<noteq> []"
  by (induction s) (auto split: list.splits)

lemma split_on_no_sep: "sep \<notin> set s \<Longrightarrow> split_on sep s = [s]"
  by (induction s) auto

lemma split_on_append:
  "sep \<notin> set s \<Longrightarrow> split_on sep (s @ sep # t) = s # split_on sep t"
  by (induction s) auto

lemma length_upper [simp]: "length (upper s) = length s"
  by (simp add: upper_def)

section \<open>Positional notation\<close>

fun digits_of :: "nat \<Rightarrow> nat \<Rightarrow> nat list" where
  "digits_of b n = (if b < 2 \<or> n < b then [n] else digits_of b (n div b) @ [n mod b])"

declare digits_of.simps [simp del]

definition digit_char :: "nat \<Rightarrow> char" where
  "digit_char d = char_of (if d < 10 then 48 + d else 55 + d)"

definition digit_val :: "char \<Rightarrow> nat" where
  "digit_val c =
     (let k = code c in
      if 48 \<le> k \<and> k \<le> 57 then k - 48
      else if 97 \<le> k \<and> k \<le> 122 then k - 87
      else if 65 \<le> k \<and> k \<le> 90 then k - 55
      else 37)"

definition value_of :: "nat \<Rightarrow> nat list \<Rightarrow> nat" where
  "value_of b ds = foldl (\<lambda>acc d. acc * b + d) 0 ds"

definition nat_str :: "nat \<Rightarrow> nat \<Rightarrow> string" where
  "nat_str b n = map digit_char (digits_of b n)"

definition zpad :: "nat \<Rightarrow> string \<Rightarrow> string" where
  "zpad w s = replicate (w - length s) (CHR ''0'') @ s"

text \<open>\<open>f"{n:0wX}"\<close>, \<open>f"{n:0wd}"\<close> and \<open>str(n)\<close>: the sign counts towards the width.\<close>

definition fmt_int :: "nat \<Rightarrow> nat \<Rightarrow> int \<Rightarrow> string" where
  "fmt_int b w n =
     (if n < 0 then CHR ''-'' # zpad (w - 1) (nat_str b (nat (- n)))
      else zpad w (nat_str b (nat n)))"

abbreviation fmt_hex :: "nat \<Rightarrow> int \<Rightarrow> string" where
  "fmt_hex \<equiv> fmt_int 16"

abbreviation int_str :: "int \<Rightarrow> string" where
  "int_str \<equiv> fmt_int 10 0"

section \<open>\<open>int(s, base)\<close>\<close>

definition has_adjacent_us :: "string \<Rightarrow> bool" where
  "has_adjacent_us s \<longleftrightarrow> (CHR ''_'', CHR ''_'') \<in> set (zip s (tl s))"

text \<open>CPython's \<open>PyLong_FromString\<close> for base 10 and 16: C whitespace around, one
  sign, for base 16 an optional \<open>0x\<close> with an optional underscore after it, then
  digits with single underscores between them.\<close>

definition skip_sign :: "string \<Rightarrow> string" where
  "skip_sign s = (if s \<noteq> [] \<and> hd s \<in> {CHR ''+'', CHR ''-''} then tl s else s)"

definition skip_0x :: "nat \<Rightarrow> string \<Rightarrow> string" where
  "skip_0x b s =
     (if b = 16 \<and> length s \<ge> 2 \<and> s ! 0 = CHR ''0'' \<and> s ! 1 \<in> {CHR ''x'', CHR ''X''}
      then (let t = drop 2 s in if t \<noteq> [] \<and> hd t = CHR ''_'' then tl t else t)
      else s)"

definition scan_digits :: "nat \<Rightarrow> string \<Rightarrow> nat res" where
  "scan_digits b s =
     (let in_num = (\<lambda>c. digit_val c < b \<or> c = CHR ''_'');
          ds = takeWhile in_num s;
          rest = dropWhile in_num s
      in if ds = [] \<or> hd ds = CHR ''_'' \<or> last ds = CHR ''_'' \<or> has_adjacent_us ds
            \<or> dropWhile is_cspace rest \<noteq> []
         then Inl ValueError
         else Inr (value_of b (map digit_val (filter (\<lambda>c. c \<noteq> CHR ''_'') ds))))"

definition py_int :: "nat \<Rightarrow> string \<Rightarrow> int res" where
  "py_int b s =
     (let s1 = dropWhile is_cspace s;
          neg = (s1 \<noteq> [] \<and> hd s1 = CHR ''-'')
      in bind_res (scan_digits b (skip_0x b (skip_sign s1)))
           (\<lambda>v. Inr (if neg then - int v else int v)))"

section \<open>Sequences\<close>

text \<open>Indexing: a negative index counts from the end, and out of range raises.\<close>

definition py_item :: "'a list \<Rightarrow> int \<Rightarrow> 'a res" where
  "py_item xs i =
     (let n = int (length xs); j = (if i < 0 then i + n else i)
      in if 0 \<le> j \<and> j < n then Inr (xs ! nat j) else Inl IndexError)"

text \<open>\<open>bytes(data)\<close> raises \<open>ValueError\<close> when an item is not in 0..255.\<close>

definition py_bytes :: "int list \<Rightarrow> string res" where
  "py_bytes data =
     (if list_all is_byte data then Inr (map (\<lambda>b. char_of (nat b)) data) else Inl ValueError)"

text \<open>\<open>xs[i:j]\<close>: each bound below 0 counts from the end, then is cut to the length.\<close>

definition slice_bound :: "int \<Rightarrow> int \<Rightarrow> nat" where
  "slice_bound n i = nat (if i < 0 then max 0 (i + n) else min i n)"

definition py_slice :: "'a list \<Rightarrow> int \<Rightarrow> int \<Rightarrow> 'a list" where
  "py_slice xs i j =
     (let n = int (length xs) in drop (slice_bound n i) (take (slice_bound n j) xs))"

text \<open>\<open>xs[i] = x\<close>.\<close>

definition py_set_item :: "'a list \<Rightarrow> int \<Rightarrow> 'a \<Rightarrow> 'a list res" where
  "py_set_item xs i x =
     (let n = int (length xs); j = (if i < 0 then i + n else i)
      in if 0 \<le> j \<and> j < n then Inr (xs[nat j := x]) else Inl IndexError)"

text \<open>\<open>bytes.ljust(n, c)\<close>.\<close>

definition ljust :: "int \<Rightarrow> 'a \<Rightarrow> 'a list \<Rightarrow> 'a list" where
  "ljust n c xs = xs @ replicate (nat n - length xs) c"

lemma py_slice_in_range:
  "0 \<le> i \<Longrightarrow> 0 \<le> n \<Longrightarrow> i + n \<le> int (length xs) \<Longrightarrow>
     py_slice xs i (i + n) = take (nat n) (drop (nat i) xs)"
  by (simp add: py_slice_def slice_bound_def Let_def take_drop nat_add_distrib add.commute)

section \<open>Facts on digits\<close>

lemma code_digit_char: "d < 16 \<Longrightarrow> code (digit_char d) = (if d < 10 then 48 + d else 55 + d)"
  by (simp add: code_def digit_char_def)

lemma digit_val_digit_char [simp, codec_simps]: "d < 16 \<Longrightarrow> digit_val (digit_char d) = d"
  by (simp add: digit_val_def code_digit_char Let_def)

lemma digit_char_neq:
  assumes "d < 16"
  shows "digit_char d \<noteq> CHR ''_''" "digit_char d \<noteq> CHR ''-''" "digit_char d \<noteq> CHR ''+''"
    "digit_char d \<noteq> CHR ''x''" "digit_char d \<noteq> CHR ''X''" "digit_char d \<noteq> CHR ''O''"
    "digit_char d \<noteq> CHR '':''" "digit_char d \<noteq> CHR ''.''" "digit_char d \<noteq> CHR '' ''"
    "\<not> is_cspace (digit_char d)" "\<not> is_ws (digit_char d)" "code (digit_char d) < 128"
proof -
  have "code (digit_char d) = (if d < 10 then 48 + d else 55 + d)"
    using assms by (rule code_digit_char)
  moreover have "code (CHR ''_'') = 95" "code (CHR ''-'') = 45" "code (CHR ''+'') = 43"
    "code (CHR ''x'') = 120" "code (CHR ''X'') = 88" "code (CHR ''O'') = 79"
    "code (CHR '':'') = 58" "code (CHR ''.'') = 46" "code (CHR '' '') = 32"
    by (simp_all add: code_def)
  ultimately show "digit_char d \<noteq> CHR ''_''" "digit_char d \<noteq> CHR ''-''"
    "digit_char d \<noteq> CHR ''+''" "digit_char d \<noteq> CHR ''x''" "digit_char d \<noteq> CHR ''X''"
    "digit_char d \<noteq> CHR ''O''" "digit_char d \<noteq> CHR '':''" "digit_char d \<noteq> CHR ''.''"
    "digit_char d \<noteq> CHR '' ''" "\<not> is_cspace (digit_char d)" "\<not> is_ws (digit_char d)"
    "code (digit_char d) < 128"
    using assms by (auto simp: is_cspace_def is_ws_def split: if_splits)
qed

lemma digit_char_0: "digit_char 0 = CHR ''0''"
  by code_simp

lemma digits_of_nonempty [simp]: "digits_of b n \<noteq> []"
  by (subst digits_of.simps) simp

lemma digits_of_less: "2 \<le> b \<Longrightarrow> d \<in> set (digits_of b n) \<Longrightarrow> d < b"
proof (induction b n arbitrary: d rule: digits_of.induct)
  case (1 b n)
  show ?case
  proof (cases "n < b")
    case True
    with "1.prems" show ?thesis by (simp add: digits_of.simps [of b n])
  next
    case False
    with "1.prems" have "d \<in> set (digits_of b (n div b)) \<or> d = n mod b"
      by (auto simp: digits_of.simps [of b n])
    with "1.IH" [of d] False "1.prems"(1) show ?thesis by (auto intro: pos_mod_bound)
  qed
qed

lemma value_of_snoc [simp]: "value_of b (ds @ [d]) = value_of b ds * b + d"
  by (simp add: value_of_def)

lemma value_of_digits_of [simp, codec_simps]: "2 \<le> b \<Longrightarrow> value_of b (digits_of b n) = n"
proof (induction b n rule: digits_of.induct)
  case (1 b n)
  then show ?case
    by (cases "n < b") (simp_all add: digits_of.simps [of b n] value_of_def)
qed

lemma value_of_zeros: "value_of b (replicate k 0 @ ds) = value_of b ds"
proof -
  have "foldl (\<lambda>acc d. acc * b + d) 0 (replicate k 0) = 0" by (induction k) auto
  then show ?thesis by (simp add: value_of_def)
qed

lemma length_digits_of: "2 \<le> b \<Longrightarrow> n < b ^ Suc k \<Longrightarrow> length (digits_of b n) \<le> Suc k"
proof (induction k arbitrary: n)
  case 0
  then show ?case by (simp add: digits_of.simps [of b n])
next
  case (Suc k)
  show ?case
  proof (cases "n < b")
    case True
    then show ?thesis by (simp add: digits_of.simps [of b n])
  next
    case False
    have "n div b < b ^ Suc k"
      using Suc.prems by (simp add: less_mult_imp_div_less mult.commute)
    with Suc.IH Suc.prems(1) have "length (digits_of b (n div b)) \<le> Suc k" by blast
    with False Suc.prems(1) show ?thesis by (simp add: digits_of.simps [of b n])
  qed
qed

lemma zpad_digits:
  "zpad w (map digit_char ds) = map digit_char (replicate (w - length ds) 0 @ ds)"
  by (simp add: zpad_def digit_char_0)

lemma fmt_int_digits:
  assumes "0 \<le> n"
  shows "fmt_int b w n =
    map digit_char (replicate (w - length (digits_of b (nat n))) 0 @ digits_of b (nat n))"
  using assms by (simp add: fmt_int_def nat_str_def zpad_digits)

lemma length_fmt_hex:
  assumes "0 \<le> n" "n < 16 ^ w" "0 < w"
  shows "length (fmt_hex w n) = w"
proof -
  obtain k where w: "w = Suc k" using assms(3) by (cases w) auto
  have "nat n < 16 ^ Suc k" using assms(1,2) w by (simp add: nat_less_iff)
  then have "length (digits_of 16 (nat n)) \<le> w"
    using length_digits_of [of 16 "nat n" k] w by simp
  with assms(1) show ?thesis by (simp add: fmt_int_digits)
qed

lemma no_adjacent_us: "CHR ''_'' \<notin> set s \<Longrightarrow> \<not> has_adjacent_us s"
  by (auto simp: has_adjacent_us_def dest: set_zip_leftD)

text \<open>Digits read back as the number they denote.\<close>

lemma py_int_plain:
  assumes ne: "s \<noteq> []"
    and c: "\<And>c. c \<in> set s \<Longrightarrow> \<not> is_cspace c \<and> c \<noteq> CHR ''_'' \<and> c \<noteq> CHR ''-'' \<and> c \<noteq> CHR ''+''
      \<and> c \<noteq> CHR ''x'' \<and> c \<noteq> CHR ''X'' \<and> digit_val c < b"
  shows "py_int b s = Inr (int (value_of b (map digit_val s)))"
proof -
  have hd: "hd s \<in> set s" and last: "last s \<in> set s" using ne by auto
  have "dropWhile is_cspace s = s" using c [OF hd] ne by (cases s) auto
  moreover have h: "hd s \<noteq> CHR ''-''" "hd s \<noteq> CHR ''+''" "hd s \<noteq> CHR ''_''"
    using c [OF hd] by blast+
  moreover from h have "skip_sign s = s" by (simp add: skip_sign_def)
  moreover have "skip_0x b s = s"
    using c [OF nth_mem, of 1] by (auto simp: skip_0x_def)
  moreover have "scan_digits b s = Inr (value_of b (map digit_val s))"
  proof -
    let ?p = "\<lambda>c. digit_val c < b \<or> c = CHR ''_''"
    have t: "takeWhile ?p s = s" and d: "dropWhile ?p s = []"
      using c by (simp_all add: takeWhile_eq_all_conv dropWhile_eq_Nil_conv)
    have "last s \<noteq> CHR ''_''" using c [OF last] by blast
    moreover have "\<not> has_adjacent_us s" using c by (intro no_adjacent_us) blast
    moreover have "filter (\<lambda>c. c \<noteq> CHR ''_'') s = s" using c by (simp add: filter_id_conv)
    ultimately show ?thesis
      using ne h(3) unfolding scan_digits_def Let_def t d by simp
  qed
  ultimately show ?thesis using ne by (simp add: py_int_def)
qed

lemma py_int_digits:
  assumes ne: "ds \<noteq> []" and lt: "\<forall>d \<in> set ds. d < b" and b: "b \<le> 16"
  shows "py_int b (map digit_char ds) = Inr (int (value_of b ds))"
proof -
  have "map digit_val (map digit_char ds) = ds"
    using lt b by (auto intro!: map_idI)
  moreover have "py_int b (map digit_char ds)
      = Inr (int (value_of b (map digit_val (map digit_char ds))))"
  proof (rule py_int_plain)
    fix c assume "c \<in> set (map digit_char ds)"
    then obtain d where "c = digit_char d" "d < b" "d < 16" using lt b by force
    then show "\<not> is_cspace c \<and> c \<noteq> CHR ''_'' \<and> c \<noteq> CHR ''-'' \<and> c \<noteq> CHR ''+''
      \<and> c \<noteq> CHR ''x'' \<and> c \<noteq> CHR ''X'' \<and> digit_val c < b"
      by (simp add: digit_char_neq)
  qed (use ne in simp)
  ultimately show ?thesis by simp
qed

lemma py_int_fmt_int [codec_simps]:
  assumes "0 \<le> n" "2 \<le> b" "b \<le> 16"
  shows "py_int b (fmt_int b w n) = Inr n"
proof -
  let ?ds = "replicate (w - length (digits_of b (nat n))) 0 @ digits_of b (nat n)"
  have "\<forall>d \<in> set ?ds. d < b" using assms(2) by (auto dest: digits_of_less)
  then have "py_int b (map digit_char ?ds) = Inr (int (value_of b ?ds))"
    using assms(3) by (intro py_int_digits) auto
  then show ?thesis using assms by (simp add: fmt_int_digits value_of_zeros)
qed

lemma set_fmt_int:
  assumes "0 \<le> n" "2 \<le> b" "b \<le> 16" "c \<in> set (fmt_int b w n)"
  shows "\<exists>d < b. c = digit_char d"
proof -
  from assms obtain d where "c = digit_char d" "d = 0 \<or> d \<in> set (digits_of b (nat n))"
    by (auto simp: fmt_int_digits)
  then have "d < b" using assms(2) by (auto dest: digits_of_less)
  with \<open>c = digit_char d\<close> show ?thesis by blast
qed

lemma ascii_fmt_int: "0 \<le> n \<Longrightarrow> 2 \<le> b \<Longrightarrow> b \<le> 16 \<Longrightarrow> ascii (fmt_int b w n)"
  by (auto simp: ascii_def dest!: set_fmt_int intro: digit_char_neq(12))

text \<open>What \<open>int\<close> reads in a base up to 36 is ASCII: the replacement character is no space,
  sign, prefix, underscore or digit.\<close>

lemma set_skip_sign: "set s \<subseteq> set (skip_sign s) \<union> {CHR ''+'', CHR ''-''}"
  by (cases s) (auto simp: skip_sign_def)

lemma set_skip_0x: "set s \<subseteq> set (skip_0x b s) \<union> {CHR ''0'', CHR ''x'', CHR ''X'', CHR ''_''}"
proof (cases "b = 16 \<and> length s \<ge> 2 \<and> s ! 0 = CHR ''0'' \<and> s ! 1 \<in> {CHR ''x'', CHR ''X''}")
  case True
  then obtain c d t where "s = c # d # t" by (cases s; cases "tl s") auto
  with True show ?thesis by (cases t) (auto simp: skip_0x_def Let_def)
qed (auto simp: skip_0x_def)

lemma digit_val_ascii: "digit_val c < 37 \<Longrightarrow> code c < 128"
  by (auto simp: digit_val_def Let_def split: if_splits)

lemma ascii_signs: "code (CHR ''+'') < 128" "code (CHR ''-'') < 128" "code (CHR ''0'') < 128"
    "code (CHR ''x'') < 128" "code (CHR ''X'') < 128" "code (CHR ''_'') < 128"
  by (simp_all add: code_def)

lemma ascii_split: "ascii (takeWhile p s) \<Longrightarrow> ascii (dropWhile p s) \<Longrightarrow> ascii s"
  using ascii_append [of "takeWhile p s" "dropWhile p s"] by simp

lemma ascii_cspaces: "ascii (takeWhile is_cspace s)"
proof -
  have "is_cspace c \<Longrightarrow> code c < 128" for c by (auto simp: is_cspace_def)
  then show ?thesis unfolding ascii_def using set_takeWhileD [of _ is_cspace s] by blast
qed

lemma scan_digits_ascii:
  assumes "scan_digits b s = Inr n" "b \<le> 36"
  shows "ascii s"
proof (rule ascii_split)
  let ?p = "\<lambda>c. digit_val c < b \<or> c = CHR ''_''"
  have p: "?p c \<Longrightarrow> code c < 128" for c
    using assms(2) ascii_signs(6) digit_val_ascii [of c] by auto
  show "ascii (takeWhile ?p s)"
    unfolding ascii_def using set_takeWhileD [of _ ?p s] p by blast
  have "dropWhile is_cspace (dropWhile ?p s) = []"
    using assms(1) by (simp add: scan_digits_def Let_def split: if_splits)
  then have "ascii (dropWhile is_cspace (dropWhile ?p s))" by (simp only: ascii_Nil)
  then show "ascii (dropWhile ?p s)" by (rule ascii_split [OF ascii_cspaces])
qed

lemma py_int_ascii:
  assumes "py_int b s = Inr n" "b \<le> 36"
  shows "ascii s"
proof -
  let ?s = "dropWhile is_cspace s"
  have "ascii (skip_0x b (skip_sign ?s))"
    using assms by (auto simp: py_int_def Let_def bind_res_eq_Inr intro: scan_digits_ascii)
  then have "ascii (skip_sign ?s)"
    using set_skip_0x [of "skip_sign ?s" b] ascii_signs by (auto simp: ascii_def)
  then have "ascii ?s" using set_skip_sign [of ?s] ascii_signs by (auto simp: ascii_def)
  then show ?thesis by (rule ascii_split [OF ascii_cspaces])
qed

end
