(* ===== verification/Protocol.thy ===== *)
theory Protocol
  imports PyStr
begin

text \<open>
  The wire codec, \<open>bridge/r60v_broker/protocol.py\<close> (the integration vendors the
  same code in \<open>custom_components/rocket_r60v/protocol.py\<close>): checksum, hex data
  fields, envelopes, frames, acknowledgements, the parser and the address map.
  Addresses, lengths and data bytes are Python ints, so nothing bounds them
  until a lemma says so; the lemmas are the round trips between builder and
  parser, the frame lengths, and what the parser accepts.
\<close>

section \<open>Constants\<close>

definition HELLO :: string where
  "HELLO = ''*HELLO*''"

definition ACK :: string where
  "ACK = ''OK''"

definition READ :: string where
  "READ = ''r''"

definition WRITE :: string where
  "WRITE = ''w''"

section \<open>Builders\<close>

definition checksum :: "string \<Rightarrow> string" where
  "checksum message =
     (let total = foldl (\<lambda>acc byte. acc + byte) 0 (utf8 message) mod 256
      in fmt_hex 2 (int total))"

definition encode_data :: "int list \<Rightarrow> string" where
  "encode_data data =
     (if data = [] then [] else concat (map (\<lambda>b. fmt_hex 2 (b AND 255)) data))"

fun chunk2 :: "string \<Rightarrow> string list" where
  "chunk2 (c # d # s) = [c, d] # chunk2 s"
| "chunk2 [c] = [[c]]"
| "chunk2 [] = []"

definition decode_data :: "string \<Rightarrow> int list res" where
  "decode_data hex_str =
     (if odd (length hex_str) then Inl ProtocolError
      else (case map_res (py_int 16) (chunk2 hex_str) of
              Inl _ \<Rightarrow> Inl ProtocolError
            | Inr bs \<Rightarrow> Inr bs))"

definition build_envelope :: "string \<Rightarrow> int \<Rightarrow> int \<Rightarrow> string res" where
  "build_envelope command address len =
     (if command \<notin> {READ, WRITE} then Inl ProtocolError
      else Inr (command @ fmt_hex 4 address @ fmt_hex 4 len))"

definition build_frame :: "string \<Rightarrow> int \<Rightarrow> int \<Rightarrow> int list \<Rightarrow> string res" where
  "build_frame command address len data =
     bind_res (build_envelope command address len)
       (\<lambda>envelope. let body = envelope @ encode_data data in Inr (body @ checksum body))"

definition build_read :: "int \<Rightarrow> int \<Rightarrow> string res" where
  "build_read address len = build_frame READ address len []"

definition build_write :: "int \<Rightarrow> int list \<Rightarrow> string res" where
  "build_write address data = build_frame WRITE address (int (length data)) data"

definition build_ack :: "string \<Rightarrow> int \<Rightarrow> int \<Rightarrow> string res" where
  "build_ack command address len =
     bind_res (build_envelope command address len)
       (\<lambda>envelope. let body = envelope @ ACK in Inr (body @ checksum body))"

section \<open>Frames and the parser\<close>

record frame =
  fr_command :: string
  fr_address :: int
  fr_length :: int
  fr_data :: "int list"
  fr_checksum :: string
  fr_raw :: string

definition fr_envelope :: "frame \<Rightarrow> string" where
  "fr_envelope f = take 9 (fr_raw f)"

definition is_ack :: "frame \<Rightarrow> bool" where
  "is_ack f \<longleftrightarrow> take 2 (drop 9 (fr_raw f)) = ACK"

text \<open>The slices are \<open>raw[0]\<close>, \<open>raw[1:5]\<close>, \<open>raw[5:9]\<close>, \<open>raw[9:-2]\<close>, \<open>raw[-2:]\<close> and
  \<open>raw[:-2]\<close>, all in range once the length is at least 11.\<close>

definition parse_frame :: "bool \<Rightarrow> string \<Rightarrow> frame res" where
  "parse_frame verify raw =
     (if length raw < 11 then Inl ProtocolError
      else
        let command = [raw ! 0] in
        if command \<notin> {READ, WRITE} then Inl ProtocolError
        else
          (case bind_res (py_int 16 (take 4 (drop 1 raw)))
                  (\<lambda>a. bind_res (py_int 16 (take 4 (drop 5 raw))) (\<lambda>l. Inr (a, l))) of
             Inl _ \<Rightarrow> Inl ProtocolError
           | Inr (address, len) \<Rightarrow>
               let payload = drop 9 (take (length raw - 2) raw);
                   supplied = drop (length raw - 2) raw
               in bind_res (if payload = ACK then Inr [] else decode_data payload)
                    (\<lambda>data.
                       if verify \<and> checksum (take (length raw - 2) raw) \<noteq> upper supplied
                       then Inl ProtocolError
                       else Inr \<lparr>fr_command = command, fr_address = address, fr_length = len,
                                 fr_data = data, fr_checksum = supplied, fr_raw = raw\<rparr>)))"

section \<open>The address map\<close>

definition TEMPERATURE_UNIT :: int where "TEMPERATURE_UNIT = 0x00"
definition LANGUAGE :: int where "LANGUAGE = 0x01"
definition BREW_BOILER_TEMP :: int where "BREW_BOILER_TEMP = 0x02"
definition SERVICE_BOILER_TEMP :: int where "SERVICE_BOILER_TEMP = 0x03"
definition KP_COFFEE :: int where "KP_COFFEE = 0x04"
definition KP_GROUP :: int where "KP_GROUP = 0x06"
definition KI_COFFEE :: int where "KI_COFFEE = 0x0A"
definition KI_GROUP :: int where "KI_GROUP = 0x0C"
definition KD_COFFEE :: int where "KD_COFFEE = 0x10"
definition KD_GROUP :: int where "KD_GROUP = 0x12"
definition PROFILE_A :: int where "PROFILE_A = 0x16"
definition PROFILE_B :: int where "PROFILE_B = 0x26"
definition PROFILE_C :: int where "PROFILE_C = 0x36"
definition WATER_FEED :: int where "WATER_FEED = 0x46"
definition ACTIVE_PROFILE :: int where "ACTIVE_PROFILE = 0x47"
definition WAND_WASH_TIME :: int where "WAND_WASH_TIME = 0x48"
definition SERVICE_BOILER_ENABLE :: int where "SERVICE_BOILER_ENABLE = 0x49"
definition STANDBY :: int where "STANDBY = 0x4A"
definition GROUP_TEMP :: int where "GROUP_TEMP = 0x4C"
definition TOTAL_COFFEE_COUNT :: int where "TOTAL_COFFEE_COUNT = 0x4D"
definition AUTO_ON_HOUR :: int where "AUTO_ON_HOUR = 0x51"
definition AUTO_ON_MINUTE :: int where "AUTO_ON_MINUTE = 0x52"
definition AUTO_OFF_HOUR :: int where "AUTO_OFF_HOUR = 0x53"
definition AUTO_OFF_MINUTE :: int where "AUTO_OFF_MINUTE = 0x54"
definition DATE_TIME :: int where "DATE_TIME = 0xA000"
definition CURRENT_BREW_TEMP :: int where "CURRENT_BREW_TEMP = 0xB000"
definition CURRENT_SERVICE_TEMP :: int where "CURRENT_SERVICE_TEMP = 0xB001"
definition CURRENT_PRESSURE :: int where "CURRENT_PRESSURE = 0xB002"
definition DISPLAY :: int where "DISPLAY = 0xB007"
definition SETTINGS_BASE :: int where "SETTINGS_BASE = 0"
definition SETTINGS_LEN :: int where "SETTINGS_LEN = 0x73"
definition BREW_TEMP_RANGE_C :: "int \<times> int" where "BREW_TEMP_RANGE_C = (85, 115)"
definition SERVICE_TEMP_RANGE_C :: "int \<times> int" where "SERVICE_TEMP_RANGE_C = (115, 125)"

lemmas address_defs =
  TEMPERATURE_UNIT_def LANGUAGE_def BREW_BOILER_TEMP_def SERVICE_BOILER_TEMP_def
  KP_COFFEE_def KP_GROUP_def KI_COFFEE_def KI_GROUP_def KD_COFFEE_def KD_GROUP_def
  PROFILE_A_def PROFILE_B_def PROFILE_C_def
  WATER_FEED_def ACTIVE_PROFILE_def WAND_WASH_TIME_def SERVICE_BOILER_ENABLE_def STANDBY_def
  GROUP_TEMP_def TOTAL_COFFEE_COUNT_def AUTO_ON_HOUR_def AUTO_ON_MINUTE_def
  AUTO_OFF_HOUR_def AUTO_OFF_MINUTE_def DATE_TIME_def CURRENT_BREW_TEMP_def
  CURRENT_SERVICE_TEMP_def CURRENT_PRESSURE_def DISPLAY_def SETTINGS_BASE_def SETTINGS_LEN_def

section \<open>Lengths\<close>

definition is_addr :: "int \<Rightarrow> bool" where
  "is_addr a \<longleftrightarrow> 0 \<le> a \<and> a < 0x10000"

lemma length_hex4 [simp]: "is_addr a \<Longrightarrow> length (fmt_hex 4 a) = 4"
  by (rule length_fmt_hex) (auto simp: is_addr_def)

lemma length_hex2 [simp]: "is_byte b \<Longrightarrow> length (fmt_hex 2 b) = 2"
  by (rule length_fmt_hex) (auto simp: is_byte_def)

lemma length_checksum [simp]: "length (checksum s) = 2"
  unfolding checksum_def Let_def by (rule length_hex2) (auto simp: is_byte_def)

lemma encode_data_map: "encode_data data = concat (map (\<lambda>b. fmt_hex 2 (b AND 255)) data)"
  by (simp add: encode_data_def)

lemma length_encode_data [simp]: "length (encode_data data) = 2 * length data"
  by (induction data) (auto simp: encode_data_map)

lemma command_length: "command \<in> {READ, WRITE} \<Longrightarrow> length command = 1"
  by (auto simp: READ_def WRITE_def)

lemma command_hd: "command \<in> {READ, WRITE} \<Longrightarrow> command = [hd command]"
  by (auto simp: READ_def WRITE_def)

section \<open>Data fields\<close>

lemma chunk2_append: "length s = 2 \<Longrightarrow> chunk2 (s @ t) = s # chunk2 t"
  by (cases s; cases "tl s") auto

lemma chunk2_encode_data [codec_simps]:
  "chunk2 (encode_data data) = map (\<lambda>b. fmt_hex 2 (b AND 255)) data"
  by (induction data) (auto simp: encode_data_map chunk2_append)

lemma length_chunk2: "even (length s) \<Longrightarrow> 2 * length (chunk2 s) = length s"
  by (induction s rule: chunk2.induct) auto

lemma py_int_hex_byte [codec_simps]: "py_int 16 (fmt_hex w (b AND 255)) = Inr (b AND 255)"
  using is_byte_and [of b] by (intro py_int_fmt_int) (auto simp: is_byte_def)

lemma decode_encode_data [codec_simps]:
  "decode_data (encode_data data) = Inr (map (\<lambda>b. b AND 255) data)"
proof -
  have "map_res (py_int 16) (map (\<lambda>b. fmt_hex 2 (b AND 255)) data)
      = Inr (map (\<lambda>b. b AND 255) data)"
    by (induction data) (auto simp: codec_simps simp del: and_255)
  then show ?thesis by (simp add: decode_data_def chunk2_encode_data)
qed

lemma decode_data_error: "decode_data s = Inl e \<Longrightarrow> e = ProtocolError"
  by (auto simp: decode_data_def split: if_splits sum.splits)

lemma decode_data_length: "decode_data s = Inr bs \<Longrightarrow> 2 * length bs = length s"
  by (auto simp: decode_data_def length_chunk2 dest!: map_res_length split: if_splits sum.splits)

lemma ascii_encode_data: "ascii (encode_data data)"
proof (induction data)
  case (Cons b data)
  have "ascii (fmt_hex 2 (b AND 255))"
    using is_byte_and [of b] by (intro ascii_fmt_int) (auto simp: is_byte_def)
  with Cons show ?case by (simp add: encode_data_map)
qed (simp add: encode_data_def)

lemma O_not_hex: "0 \<le> n \<Longrightarrow> CHR ''O'' \<notin> set (fmt_hex w n)"
proof
  assume "0 \<le> n" and "CHR ''O'' \<in> set (fmt_hex w n)"
  then obtain d where "d < 16" "CHR ''O'' = digit_char d" using set_fmt_int [of n 16] by auto
  with digit_char_neq(6) [of d] show False by simp
qed

lemma encode_data_neq_ACK: "encode_data data \<noteq> ACK"
proof (cases data)
  case (Cons b bs)
  have "CHR ''O'' \<notin> set (fmt_hex 2 (b AND 255))"
    using is_byte_and [of b] by (intro O_not_hex) (simp add: is_byte_def)
  moreover have "length (fmt_hex 2 (b AND 255)) = 2" by simp
  ultimately show ?thesis
    using Cons by (cases "fmt_hex 2 (b AND 255)") (auto simp: encode_data_map ACK_def)
qed (simp add: encode_data_def ACK_def)

section \<open>Frames: builder against parser\<close>

text \<open>A frame cut into its five fields.\<close>

lemma frame_slices:
  fixes c :: char
  assumes "length A = 4" "length L = 4" "length S = 2"
  shows "([c] @ A @ L @ P @ S) ! 0 = c"
    and "take 4 (drop 1 ([c] @ A @ L @ P @ S)) = A"
    and "take 4 (drop 5 ([c] @ A @ L @ P @ S)) = L"
    and "take (length ([c] @ A @ L @ P @ S) - 2) ([c] @ A @ L @ P @ S) = [c] @ A @ L @ P"
    and "drop (length ([c] @ A @ L @ P @ S) - 2) ([c] @ A @ L @ P @ S) = S"
    and "drop 9 ([c] @ A @ L @ P) = P"
proof -
  have e: "[c] @ A @ L @ P @ S = ([c] @ A @ L @ P) @ S" by simp
  have n: "length ([c] @ A @ L @ P @ S) - 2 = length ([c] @ A @ L @ P)" using assms by simp
  have t: "take (length X) (X @ S) = X" "drop (length X) (X @ S) = S" for X :: string
    by simp_all
  show "take (length ([c] @ A @ L @ P @ S) - 2) ([c] @ A @ L @ P @ S) = [c] @ A @ L @ P"
    unfolding n unfolding e by (rule t(1))
  show "drop (length ([c] @ A @ L @ P @ S) - 2) ([c] @ A @ L @ P @ S) = S"
    unfolding n unfolding e by (rule t(2))
qed (use assms in simp_all)

lemma parse_frame_fields:
  assumes len: "length A = 4" "length L = 4" "length S = 2"
    and c: "[c] \<in> {READ, WRITE}"
    and a: "py_int 16 A = Inr a" and l: "py_int 16 L = Inr l"
    and d: "(if P = ACK then Inr [] else decode_data P) = Inr data"
    and cs: "upper S = checksum ([c] @ A @ L @ P)"
  shows "parse_frame v ([c] @ A @ L @ P @ S) =
     Inr \<lparr>fr_command = [c], fr_address = a, fr_length = l, fr_data = data,
          fr_checksum = S, fr_raw = [c] @ A @ L @ P @ S\<rparr>"
proof -
  let ?raw = "[c] @ A @ L @ P @ S"
  have "\<not> length ?raw < 11" using len by simp
  then show ?thesis
    unfolding parse_frame_def Let_def frame_slices [OF len] a l bind_res_Inr d
    using c cs by simp
qed

lemma upper_digit_char: "d < 16 \<Longrightarrow> upper_char (digit_char d) = digit_char d"
  by (simp add: upper_char_def code_digit_char)

lemma upper_hex: "0 \<le> n \<Longrightarrow> upper (fmt_hex w n) = fmt_hex w n"
  unfolding upper_def by (rule map_idI) (auto dest: set_fmt_int [where b = 16] simp: upper_digit_char)

lemma upper_checksum [codec_simps]: "upper (checksum s) = checksum s"
  by (simp add: checksum_def Let_def upper_hex)

lemma build_envelope_Inr [simp]:
  "command \<in> {READ, WRITE} \<Longrightarrow>
     build_envelope command a l = Inr (command @ fmt_hex 4 a @ fmt_hex 4 l)"
  by (simp add: build_envelope_def)

lemma build_frame_Inr:
  "command \<in> {READ, WRITE} \<Longrightarrow>
     build_frame command a l data =
       Inr (command @ fmt_hex 4 a @ fmt_hex 4 l @ encode_data data
            @ checksum (command @ fmt_hex 4 a @ fmt_hex 4 l @ encode_data data))"
  by (simp add: build_frame_def Let_def)

lemma build_ack_Inr:
  "command \<in> {READ, WRITE} \<Longrightarrow>
     build_ack command a l =
       Inr (command @ fmt_hex 4 a @ fmt_hex 4 l @ ACK
            @ checksum (command @ fmt_hex 4 a @ fmt_hex 4 l @ ACK))"
  by (simp add: build_ack_def Let_def)

lemma py_int_addr [codec_simps]: "is_addr a \<Longrightarrow> py_int 16 (fmt_hex 4 a) = Inr a"
  by (intro py_int_fmt_int) (auto simp: is_addr_def)

lemma parse_body:
  assumes c: "command \<in> {READ, WRITE}" and a: "is_addr a" and l: "is_addr l"
    and d: "(if P = ACK then Inr [] else decode_data P) = Inr data"
  defines "body \<equiv> command @ fmt_hex 4 a @ fmt_hex 4 l @ P"
  shows "parse_frame v (body @ checksum body) =
     Inr \<lparr>fr_command = command, fr_address = a, fr_length = l, fr_data = data,
          fr_checksum = checksum body, fr_raw = body @ checksum body\<rparr>"
proof -
  obtain k where k: "command = [k]" using command_hd [OF c] by metis
  have "parse_frame v ([k] @ fmt_hex 4 a @ fmt_hex 4 l @ P @ checksum body) =
     Inr \<lparr>fr_command = [k], fr_address = a, fr_length = l, fr_data = data,
          fr_checksum = checksum body,
          fr_raw = [k] @ fmt_hex 4 a @ fmt_hex 4 l @ P @ checksum body\<rparr>"
    using assms k by (intro parse_frame_fields) (simp_all add: codec_simps)
  then show ?thesis by (simp add: body_def k)
qed

lemma parse_build_frame:
  assumes "command \<in> {READ, WRITE}" "is_addr a" "is_addr l"
    and "build_frame command a l data = Inr raw"
  shows "parse_frame v raw =
     Inr \<lparr>fr_command = command, fr_address = a, fr_length = l,
          fr_data = map (\<lambda>b. b AND 255) data,
          fr_checksum = drop (length raw - 2) raw, fr_raw = raw\<rparr>"
proof -
  let ?body = "command @ fmt_hex 4 a @ fmt_hex 4 l @ encode_data data"
  have raw: "raw = ?body @ checksum ?body"
    using assms(1,4) by (simp add: build_frame_Inr)
  have "(if encode_data data = ACK then Inr [] else decode_data (encode_data data))
      = Inr (map (\<lambda>b. b AND 255) data)"
    by (simp add: encode_data_neq_ACK codec_simps)
  from parse_body [OF assms(1-3) this, of v] show ?thesis unfolding raw by simp
qed

lemma parse_build_ack:
  assumes "command \<in> {READ, WRITE}" "is_addr a" "is_addr l"
    and "build_ack command a l = Inr raw"
  shows "parse_frame v raw =
     Inr \<lparr>fr_command = command, fr_address = a, fr_length = l, fr_data = [],
          fr_checksum = drop (length raw - 2) raw, fr_raw = raw\<rparr>"
proof -
  let ?body = "command @ fmt_hex 4 a @ fmt_hex 4 l @ ACK"
  have raw: "raw = ?body @ checksum ?body"
    using assms(1,4) by (simp add: build_ack_Inr)
  have "(if ACK = ACK then Inr [] else decode_data ACK) = Inr []" by simp
  from parse_body [OF assms(1-3) this, of v] show ?thesis unfolding raw by simp
qed

lemma length_build_frame:
  "command \<in> {READ, WRITE} \<Longrightarrow> is_addr a \<Longrightarrow> is_addr l \<Longrightarrow>
     build_frame command a l data = Inr raw \<Longrightarrow> length raw = 11 + 2 * length data"
  using command_length [of command] by (auto simp: build_frame_Inr)

lemma length_build_ack:
  "command \<in> {READ, WRITE} \<Longrightarrow> is_addr a \<Longrightarrow> is_addr l \<Longrightarrow>
     build_ack command a l = Inr raw \<Longrightarrow> length raw = 13"
  using command_length [of command] by (auto simp: build_ack_Inr ACK_def)

lemma ascii_build_frame:
  assumes "command \<in> {READ, WRITE}" "0 \<le> a" "0 \<le> l" "build_frame command a l data = Inr raw"
  shows "ascii raw"
proof -
  have "ascii command" using assms(1) by (auto simp: READ_def WRITE_def code_def)
  moreover have "ascii (checksum s)" for s
    unfolding checksum_def Let_def by (rule ascii_fmt_int) auto
  ultimately show ?thesis
    using assms ascii_encode_data [of data] by (auto simp: build_frame_Inr ascii_fmt_int)
qed

lemma ascii_build_ack:
  assumes "command \<in> {READ, WRITE}" "0 \<le> a" "0 \<le> l" "build_ack command a l = Inr raw"
  shows "ascii raw"
proof -
  have "ascii command" "ascii ACK" using assms(1) by (auto simp: READ_def WRITE_def ACK_def code_def)
  moreover have "ascii (checksum s)" for s
    unfolding checksum_def Let_def by (rule ascii_fmt_int) auto
  ultimately show ?thesis using assms by (auto simp: build_ack_Inr ascii_fmt_int)
qed

section \<open>What the parser accepts\<close>

lemma parse_frame_InrD:
  assumes "parse_frame v raw = Inr f"
  shows "11 \<le> length raw" "fr_command f = [raw ! 0]" "fr_command f \<in> {READ, WRITE}"
    "py_int 16 (take 4 (drop 1 raw)) = Inr (fr_address f)"
    "py_int 16 (take 4 (drop 5 raw)) = Inr (fr_length f)"
    "(if drop 9 (take (length raw - 2) raw) = ACK then Inr []
      else decode_data (drop 9 (take (length raw - 2) raw))) = Inr (fr_data f)"
    "v \<Longrightarrow> checksum (take (length raw - 2) raw) = upper (drop (length raw - 2) raw)"
    "fr_raw f = raw"
  using assms unfolding parse_frame_def Let_def
  by (auto simp: bind_res_eq_Inr split: if_splits sum.splits)

lemma parse_frame_errors: "parse_frame v raw = Inl e \<Longrightarrow> e = ProtocolError"
  by (auto simp: parse_frame_def Let_def bind_res_eq_Inl dest: decode_data_error
      split: if_splits sum.splits)

lemma parse_frame_data_length:
  assumes "parse_frame v raw = Inr f" "drop 9 (take (length raw - 2) raw) \<noteq> ACK"
  shows "length raw = 11 + 2 * length (fr_data f)"
proof -
  let ?P = "drop 9 (take (length raw - 2) raw)"
  from parse_frame_InrD(6) [OF assms(1)] assms(2) have "decode_data ?P = Inr (fr_data f)" by simp
  then have "2 * length (fr_data f) = length ?P" by (rule decode_data_length)
  with parse_frame_InrD(1) [OF assms(1)] show ?thesis by simp
qed

text \<open>What the parser accepts is ASCII up to the checksum.\<close>

lemma decode_data_ascii:
  assumes "decode_data s = Inr bs"
  shows "ascii s"
proof -
  have "map_res (py_int 16) (chunk2 s) = Inr bs'\<Longrightarrow> ascii s" for bs'
    by (induction s arbitrary: bs' rule: chunk2.induct)
      (auto simp: bind_res_eq_Inr dest!: py_int_ascii split: sum.splits)
  then show ?thesis using assms by (auto simp: decode_data_def split: if_splits sum.splits)
qed

lemma parse_frame_ascii:
  assumes "parse_frame v raw = Inr f"
  shows "ascii (take (length raw - 2) raw)"
proof -
  note d = parse_frame_InrD [OF assms]
  let ?s = "take (length raw - 2) raw"
  have "9 \<le> length ?s" using d(1) by simp
  then have "take 9 ?s = take 9 raw" by (simp add: min_absorb1)
  moreover have "?s = take 9 ?s @ drop 9 ?s" by (rule append_take_drop_id [symmetric])
  moreover have "take 9 raw = raw ! 0 # take 4 (drop 1 raw) @ take 4 (drop 5 raw)"
  proof -
    have "take 9 raw = take 1 raw @ take 4 (drop 1 raw) @ take 4 (drop 5 raw)"
      by (simp add: take_add [of 1 8, simplified] take_add [of 4 4, simplified])
    then show ?thesis using d(1) by (cases raw) auto
  qed
  moreover have "code (raw ! 0) < 128"
    using d(2,3) by (auto simp: READ_def WRITE_def code_def)
  moreover have "ascii (take 4 (drop 1 raw))" "ascii (take 4 (drop 5 raw))"
    using py_int_ascii [OF d(4)] py_int_ascii [OF d(5)] by simp_all
  moreover have "ascii (drop 9 ?s)"
  proof (cases "drop 9 ?s = ACK")
    case False
    then show ?thesis using d(6) by (auto intro: decode_data_ascii)
  qed (simp only: ACK_def, simp add: code_def)
  ultimately show ?thesis by (metis ascii_Cons ascii_append)
qed

lemma foldl_plus: "foldl (+) (a :: nat) xs = a + sum_list xs"
  by (induction xs arbitrary: a) auto

lemma utf8_ascii: "ascii s \<Longrightarrow> utf8 s = map code s"
  by (induction s) (auto simp: utf8_def)

lemma sum_list_update_nat:
  fixes xs :: "nat list"
  shows "i < length xs \<Longrightarrow> sum_list (xs[i := y]) + xs ! i = sum_list xs + y"
proof (induction xs arbitrary: i)
  case (Cons x xs)
  then show ?case by (cases i) auto
qed simp

lemma code_inj: "code c = code d \<longleftrightarrow> c = d"
  by (simp add: code_def)

lemma fmt_hex_inj:
  assumes "fmt_hex w a = fmt_hex w b" "0 \<le> a" "0 \<le> b"
  shows "a = b"
proof -
  have "Inr a = py_int 16 (fmt_hex w a)" using assms(2) by (simp add: py_int_fmt_int)
  also have "\<dots> = Inr b" unfolding assms(1) using assms(3) by (simp add: py_int_fmt_int)
  finally show ?thesis by simp
qed

lemma value_of_less:
  "\<forall>d \<in> set ds. d < b \<Longrightarrow> value_of b ds < b ^ length ds"
proof (induction ds rule: rev_induct)
  case (snoc d ds)
  then have "value_of b ds + 1 \<le> b ^ length ds" "d < b" by auto
  then have "(value_of b ds + 1) * b \<le> b ^ length ds * b" by (intro mult_right_mono) auto
  with \<open>d < b\<close> have "value_of b ds * b + d < b ^ length ds * b" by (simp add: algebra_simps)
  then show ?case by (simp add: mult.commute)
qed (simp add: value_of_def)

lemma residue_step:
  fixes S T x y :: nat
  assumes "T + x = S + y" "T mod 256 = S mod 256" "x < 128" "y < 128"
  shows "x = y"
proof -
  have "256 * (T div 256) + x = 256 * (S div 256) + y"
    using assms(1,2) div_mult_mod_eq [of T 256] div_mult_mod_eq [of S 256] by linarith
  then have "(256 * (T div 256) + x) mod 256 = (256 * (S div 256) + y) mod 256" by simp
  with assms(3,4) show ?thesis by simp
qed

lemma checksum_ascii: "ascii s \<Longrightarrow> checksum s = fmt_hex 2 (int (sum_list (map code s) mod 256))"
  by (simp add: checksum_def foldl_plus utf8_ascii Let_def)

lemma checksum_update_neq:
  assumes s: "ascii s" and i: "i < length s" and c: "code c < 128" "c \<noteq> s ! i"
  shows "checksum (s[i := c]) \<noteq> checksum s"
proof
  let ?S = "sum_list (map code s)" and ?T = "sum_list (map code (s[i := c]))"
  assume "checksum (s[i := c]) = checksum s"
  moreover have "ascii (s[i := c])"
    using s c(1) by (auto simp: ascii_def dest!: set_update_subset_insert [THEN subsetD])
  ultimately have "int (?T mod 256) = int (?S mod 256)"
    using s by (intro fmt_hex_inj [of 2]) (simp_all add: checksum_ascii)
  then have m: "?T mod 256 = ?S mod 256" by simp
  have e: "?T + code (s ! i) = ?S + code c"
    using sum_list_update_nat [of i "map code s" "code c"] i by (simp add: map_update)
  have "code (s ! i) < 128" using s i by (auto simp: ascii_def)
  then have "code (s ! i) = code c" by (rule residue_step [OF e m _ c(1)])
  with c(2) show False by (simp add: code_inj)
qed

text \<open>C1: A frame built from a command, a 16-bit address and length and any data
  bytes parses back to exactly those fields, each data byte reduced to eight
  bits, with or without checksum verification.\<close>

theorem parse_frame_roundtrip:
  assumes "command \<in> {READ, WRITE}" "0 \<le> a" "a < 0x10000" "0 \<le> l" "l < 0x10000"
    and "build_frame command a l data = Inr raw"
  shows "\<exists>f. parse_frame v raw = Inr f \<and> fr_command f = command \<and> fr_address f = a
     \<and> fr_length f = l \<and> fr_data f = map (\<lambda>b. b mod 256) data \<and> fr_raw f = raw
     \<and> length raw = 11 + 2 * length data"
  using assms parse_build_frame [of command a l data raw v] length_build_frame [of command a l data raw]
  by (simp add: is_addr_def and_255)

theorem parse_frame_roundtrip_witness:
  "\<exists>f. parse_frame True ''w000100010059'' = Inr f \<and> fr_command f = WRITE \<and> fr_address f = 1
     \<and> fr_length f = 1 \<and> fr_data f = map (\<lambda>b. b mod 256) [0] \<and> fr_raw f = ''w000100010059''
     \<and> length ''w000100010059'' = 11 + 2 * length [0 :: int]"
proof -
  have "build_frame WRITE 1 1 [0] = Inr ''w000100010059''" by code_simp
  then show ?thesis by (intro parse_frame_roundtrip) auto
qed

text \<open>C31: Changing any one character of an ASCII frame that the parser accepted, anywhere
  before its checksum, makes the parser reject it, whatever other character a received
  byte decodes to: an ASCII one, which the additive checksum detects, or U+FFFD,
  which is not hexadecimal.\<close>

theorem parse_frame_detects_substitution:
  assumes "ascii raw" "parse_frame True raw = Inr f"
    and "i < length raw - 2" "c \<noteq> raw ! i"
  shows "parse_frame True (raw[i := c]) = Inl ProtocolError"
proof (rule ccontr)
  let ?n = "length raw - 2" and ?raw' = "raw[i := c]"
  assume "parse_frame True ?raw' \<noteq> Inl ProtocolError"
  then obtain f' where f': "parse_frame True ?raw' = Inr f'"
    using parse_frame_errors [of True ?raw'] by (cases "parse_frame True ?raw'") auto
  have tk: "take ?n ?raw' = (take ?n raw)[i := c]" by (simp add: take_update_swap)
  have dr: "drop ?n ?raw' = drop ?n raw" using assms(3) by (simp add: drop_update_cancel)
  have "ascii ((take ?n raw)[i := c])" using parse_frame_ascii [OF f'] tk by simp
  moreover have "c \<in> set ((take ?n raw)[i := c])" using assms(3) by (intro set_update_memI) simp
  ultimately have c: "code c < 128" by (simp add: ascii_def)
  have "checksum ((take ?n raw)[i := c]) = checksum (take ?n raw)"
    using parse_frame_InrD(7) [OF f'] parse_frame_InrD(7) [OF assms(2)] tk dr by simp
  moreover have "ascii (take ?n raw)" using assms(1) by (auto simp: ascii_def dest: in_set_takeD)
  ultimately show False
    using checksum_update_neq [of "take ?n raw" i c] assms(3,4) c by simp
qed

theorem parse_frame_detects_substitution_witness:
  "parse_frame True (''w000100010059''[4 := CHR ''2'']) = Inl ProtocolError"
proof -
  have a: "ascii ''w000100010059''" by code_simp
  have p: "parse_frame True ''w000100010059'' = Inr \<lparr>fr_command = WRITE, fr_address = 1,
      fr_length = 1, fr_data = [0], fr_checksum = ''59'', fr_raw = ''w000100010059''\<rparr>"
    by code_simp
  show ?thesis
    by (rule parse_frame_detects_substitution [OF a p]) (simp_all add: code_def)
qed

text \<open>The parser raises nothing but \<open>ProtocolError\<close>, whatever text it is given.\<close>

theorem parse_frame_only_ProtocolError:
  "parse_frame v raw = Inl e \<Longrightarrow> e = ProtocolError"
  by (rule parse_frame_errors)

theorem parse_frame_only_ProtocolError_witness:
  "parse_frame True ''r000G0001'' = Inl ProtocolError \<and> ProtocolError = ProtocolError"
  using parse_frame_only_ProtocolError [of True "''r000G0001''" ProtocolError]
  by (simp add: parse_frame_def)

lemma build_write_oversize:
  assumes "0x10000 \<le> a" "a < 0x100000" "length data < 0x10000"
    and "build_write a data = Inr raw"
  shows "length raw = 12 + 2 * length data" "parse_frame v raw = Inl ProtocolError"
proof -
  have ha: "length (fmt_hex 4 a) = 5"
  proof -
    have "length (fmt_hex 5 a) = 5" using assms(1,2) by (intro length_fmt_hex) auto
    moreover have "\<not> length (digits_of 16 (nat a)) \<le> 4"
    proof
      assume "length (digits_of 16 (nat a)) \<le> 4"
      then have "(16 :: nat) ^ length (digits_of 16 (nat a)) \<le> 16 ^ 4"
        by (intro power_increasing) auto
      moreover have "nat a < 16 ^ length (digits_of 16 (nat a))"
        using value_of_less [of "digits_of 16 (nat a)" 16] digits_of_less [of 16] by simp
      ultimately have "nat a < 16 ^ 4" by (rule order_less_le_trans [rotated])
      then show False using assms(1) by simp
    qed
    ultimately show ?thesis using assms(1) by (simp add: fmt_int_digits)
  qed
  have hl: "length (fmt_hex 4 (int (length data))) = 4"
    using assms(3) by (intro length_hex4) (simp add: is_addr_def)
  show len: "length raw = 12 + 2 * length data"
    using assms(4) ha hl by (auto simp: build_write_def build_frame_Inr WRITE_def)
  let ?P = "drop 9 (take (length raw - 2) raw)"
  have lenP: "length ?P = Suc (2 * length data)" using len by simp
  have "?P \<noteq> ACK"
  proof
    assume "?P = ACK"
    then have "length ?P = length ACK" by (rule arg_cong)
    then have "Suc (2 * length data) = 2" unfolding lenP by (simp add: ACK_def)
    then show False by presburger
  qed
  moreover have "decode_data ?P = Inl ProtocolError"
    unfolding decode_data_def lenP by simp
  ultimately show "parse_frame v raw = Inl ProtocolError"
    by (auto simp: parse_frame_def Let_def split: sum.splits)
qed

text \<open>A write built for an address that needs a fifth hexadecimal digit is not
  a frame: the envelope grows to ten characters, and every parser of the
  protocol rejects what was built.\<close>

theorem build_write_oversize_address:
  assumes "0x10000 \<le> a" "a < 0x100000" "length data < 0x10000"
    and "build_write a data = Inr raw"
  shows "length raw = 12 + 2 * length data \<and> parse_frame v raw = Inl ProtocolError"
  using build_write_oversize [OF assms] by simp

theorem build_write_oversize_address_witness:
  "length ''w1117000010193'' = 12 + 2 * length [1 :: int]
   \<and> parse_frame True ''w1117000010193'' = Inl ProtocolError"
proof -
  have b: "build_write 70000 [1] = Inr ''w1117000010193''" by code_simp
  show ?thesis
    by (rule build_write_oversize_address [OF _ _ _ b]) simp_all
qed

text \<open>The data field is not restricted to hexadecimal digits: \<open>int(s, 16)\<close>
  accepts a sign, so a two-character field \<open>-1\<close> passes the parser, checksum
  verified, as the value -1, which is no byte.\<close>

theorem parse_frame_accepts_signed_byte:
  "\<exists>f. parse_frame True ''rB0000001-163'' = Inr f \<and> fr_data f = [-1] \<and> \<not> is_byte (-1)"
proof -
  have "parse_frame True ''rB0000001-163'' = Inr \<lparr>fr_command = READ, fr_address = 0xB000,
      fr_length = 1, fr_data = [-1], fr_checksum = ''63'', fr_raw = ''rB0000001-163''\<rparr>"
    by code_simp
  then show ?thesis by (simp add: is_byte_def)
qed

end
