(* ===== verification/PyFloat.thy ===== *)
theory PyFloat
  imports PyStr "HOL-Library.Log_Nat"
begin

text \<open>
  What the program uses of Python's \<open>float\<close>: IEEE binary64 values as the rationals
  they denote (with the infinities and NaN apart), rounding to the nearest value
  with ties to even (\<open>fl\<close>), \<open>float(str)\<close>, \<open>round(x)\<close>, \<open>round(x, 1)\<close> and the format
  \<open>f"{x:.1f}"\<close>. Negative zero is identified with zero: no operation of the
  program distinguishes them. The lemmas give the relative error of \<open>fl\<close> and that
  tenths survive the trip through binary64.
\<close>

section \<open>Rounding\<close>

definition rhe :: "rat \<Rightarrow> int" where
  "rhe x =
     (let f = \<lfloor>x\<rfloor>; d = x - of_int f
      in if d < 1 / 2 then f else if 1 / 2 < d then f + 1 else if even f then f else f + 1)"

definition flog2 :: "rat \<Rightarrow> int" where
  "flog2 x =
     (let (n, d) = quotient_of x;
          k = int (floorlog 2 (nat n)) - int (floorlog 2 (nat d))
      in if 2 powi k \<le> x then k else k - 1)"

definition fl :: "rat \<Rightarrow> rat" where
  "fl x =
     (if x = 0 then 0
      else let e = max (flog2 \<bar>x\<bar> - 52) (- 1074)
           in of_int (rhe (x / 2 powi e)) * 2 powi e)"

datatype pyfloat = Fin rat | Inf bool | NaN

definition to_float :: "rat \<Rightarrow> pyfloat" where
  "to_float x = (let y = fl x in if y \<noteq> 0 \<and> 1024 \<le> flog2 \<bar>y\<bar> then Inf (x < 0) else Fin y)"

text \<open>Here \<open>1024 \<le> flog2 \<bar>y\<bar>\<close> says that \<open>y\<close> is at least 2 ^ 1024 in magnitude.\<close>

section \<open>\<open>round\<close> and comparisons\<close>

fun py_round :: "pyfloat \<Rightarrow> int res" where
  "py_round (Fin x) = Inr (rhe x)"
| "py_round (Inf _) = Inl OverflowError"
| "py_round NaN = Inl ValueError"

fun py_round1 :: "pyfloat \<Rightarrow> pyfloat" where
  "py_round1 (Fin x) = to_float (of_int (rhe (10 * x)) / 10)"
| "py_round1 v = v"

fun mul10 :: "pyfloat \<Rightarrow> pyfloat" where
  "mul10 (Fin x) = to_float (10 * x)"
| "mul10 v = v"

fun in_range :: "rat \<Rightarrow> rat \<Rightarrow> pyfloat \<Rightarrow> bool" where
  "in_range lo hi (Fin x) \<longleftrightarrow> lo \<le> x \<and> x \<le> hi"
| "in_range lo hi _ \<longleftrightarrow> False"

section \<open>\<open>float(str)\<close>\<close>

definition is_digit :: "char \<Rightarrow> bool" where
  "is_digit c \<longleftrightarrow> 48 \<le> code c \<and> code c \<le> 57"

definition us_ok :: "string \<Rightarrow> bool" where
  "us_ok s \<longleftrightarrow>
     (\<forall>i < length s. s ! i = CHR ''_'' \<longrightarrow>
        0 < i \<and> is_digit (s ! (i - 1)) \<and> Suc i < length s \<and> is_digit (s ! Suc i))"

definition parse_exp :: "string \<Rightarrow> int option" where
  "parse_exp s =
     (if s = [] then Some 0
      else if hd s \<notin> {CHR ''e'', CHR ''E''} then None
      else let t = tl s;
               neg = (t \<noteq> [] \<and> hd t = CHR ''-'');
               ds = skip_sign t
           in if ds = [] \<or> \<not> list_all is_digit ds then None
              else let v = int (value_of 10 (map digit_val ds)) in Some (if neg then - v else v))"

definition parse_dec :: "string \<Rightarrow> rat option" where
  "parse_dec s =
     (let ip = takeWhile is_digit s;
          r = dropWhile is_digit s;
          dot = (r \<noteq> [] \<and> hd r = CHR ''.'');
          fp = (if dot then takeWhile is_digit (tl r) else []);
          r2 = (if dot then dropWhile is_digit (tl r) else r)
      in if ip = [] \<and> fp = [] then None
         else map_option
                (\<lambda>e. of_nat (value_of 10 (map digit_val (ip @ fp))) * 10 powi (e - int (length fp)))
                (parse_exp r2))"

definition py_float :: "string \<Rightarrow> pyfloat res" where
  "py_float str =
     (let s = strip_by is_cspace str
      in if \<not> us_ok s then Inl ValueError
         else
           let t = filter (\<lambda>c. c \<noteq> CHR ''_'') s;
               neg = (t \<noteq> [] \<and> hd t = CHR ''-'');
               u = skip_sign t
           in if lower u \<in> {''inf'', ''infinity''} then Inr (Inf neg)
              else if lower u = ''nan'' then Inr NaN
              else (case parse_dec u of
                      None \<Rightarrow> Inl ValueError
                    | Some x \<Rightarrow> Inr (to_float (if neg then - x else x))))"

section \<open>Formats\<close>

text \<open>\<open>f"{x:.1f}"\<close> of a non-negative value: the exact binary value rounded to tenths.\<close>

definition fmt_1f :: "rat \<Rightarrow> string" where
  "fmt_1f x = (let k = rhe (10 * x) in int_str (k div 10) @ ''.'' @ int_str (k mod 10))"

section \<open>Facts on rounding\<close>

lemma rhe_error: "\<bar>of_int (rhe x) - x\<bar> \<le> 1 / 2"
proof -
  define f d where "f = \<lfloor>x\<rfloor>" and "d = x - of_int f"
  have d: "0 \<le> d" "d < 1" by (simp_all add: d_def f_def) linarith
  have r: "rhe x = (if d < 1 / 2 then f else if 1 / 2 < d then f + 1
      else if even f then f else f + 1)"
    by (simp add: rhe_def f_def d_def Let_def)
  have "of_int (rhe x) - x = - d \<and> d \<le> 1 / 2 \<or> of_int (rhe x) - x = 1 - d \<and> 1 / 2 \<le> d"
    unfolding r by (auto simp: d_def)
  with d show ?thesis by linarith
qed

lemma rhe_unique:
  assumes "\<bar>x - of_int k\<bar> < 1 / 2"
  shows "rhe x = k"
proof -
  have "\<bar>of_int (rhe x) - of_int k :: rat\<bar> < 1"
    using rhe_error [of x] assms by linarith
  then have "\<bar>of_int (rhe x - k) :: rat\<bar> < 1" by simp
  then show ?thesis by linarith
qed

lemma rhe_of_int [simp]: "rhe (of_int k) = k"
  by (rule rhe_unique) simp

lemma rhe_numeral [simp]: "rhe (numeral n) = numeral n"
  using rhe_of_int [of "numeral n"] by simp

lemma rhe_mono: "x \<le> y \<Longrightarrow> rhe x \<le> rhe y"
proof (rule ccontr)
  assume xy: "x \<le> y" and "\<not> rhe x \<le> rhe y"
  then have *: "of_int (rhe y) + 1 \<le> (of_int (rhe x) :: rat)"
    by (metis linorder_not_le of_int_1 of_int_add of_int_le_iff zless_imp_add1_zle)
  then have eq: "x = y" "of_int (rhe x) - x = 1 / 2"
    using rhe_error [of x] rhe_error [of y] xy by linarith+
  then show False using * by simp
qed

lemma two_powi_pos [simp]: "0 < (2 :: rat) powi k"
  by simp

lemma powi_Suc_rat: "(2 :: rat) powi (k + 1) = 2 * 2 powi k"
  by (simp add: power_int_add)

lemma powi_split: "a = b + c \<Longrightarrow> (2 :: rat) powi a = 2 powi b * 2 powi c"
  by (simp add: power_int_add)

lemma pow_split: "int a = b + int c \<Longrightarrow> (2 :: rat) ^ a = 2 powi b * 2 ^ c"
  by (metis power_int_of_nat powi_split)

lemma pow_le_int:
  assumes "0 < n" "2 ^ k \<le> nat n"
  shows "(2 :: rat) ^ k \<le> of_int n"
proof -
  have "(of_nat (2 ^ k) :: rat) \<le> of_nat (nat n)" using assms(2) by (simp only: of_nat_le_iff)
  then show ?thesis using assms(1) by (simp add: of_nat_nat)
qed

lemma pow_gt_int:
  assumes "0 < n" "nat n < 2 ^ k"
  shows "of_int n < (2 :: rat) ^ k"
proof -
  have "(of_nat (nat n) :: rat) < of_nat (2 ^ k)" using assms(2) by (simp only: of_nat_less_iff)
  then show ?thesis using assms(1) by (simp add: of_nat_nat)
qed

lemma flog2_bounds:
  assumes "0 < x"
  shows "2 powi flog2 x \<le> x" "x < 2 powi (flog2 x + 1)"
proof -
  obtain n d where q: "quotient_of x = (n, d)" by (cases "quotient_of x")
  have x: "x = of_int n / of_int d" using q by (rule quotient_of_div)
  have d: "0 < d" using q by (rule quotient_of_denom_pos)
  with assms x have n: "0 < n" by (simp add: zero_less_divide_iff)
  define a b where "a = floorlog 2 (nat n)" and "b = floorlog 2 (nat d)"
  have ap: "0 < a" "0 < b" using n d by (auto simp: a_def b_def floorlog_def)
  have bn: "2 ^ (a - 1) \<le> nat n" "nat n < 2 ^ a"
    using floorlog_bounds [of "nat n" 2] n by (auto simp: a_def)
  have bd: "2 ^ (b - 1) \<le> nat d" "nat d < 2 ^ b"
    using floorlog_bounds [of "nat d" 2] d by (auto simp: b_def)
  have rn: "(2 :: rat) ^ (a - 1) \<le> of_int n" "of_int n < (2 :: rat) ^ a"
    using pow_le_int [OF n bn(1)] pow_gt_int [OF n bn(2)] by blast+
  have rd: "(2 :: rat) ^ (b - 1) \<le> of_int d" "of_int d < (2 :: rat) ^ b"
    using pow_le_int [OF d bd(1)] pow_gt_int [OF d bd(2)] by blast+
  let ?k = "int a - int b"
  have d0: "(0 :: rat) < of_int d" using d by simp
  have hi: "x < 2 powi (?k + 1)"
  proof -
    have "of_int n < (2 :: rat) ^ a" by (rule rn)
    also have "\<dots> = 2 powi (?k + 1) * 2 ^ (b - 1)"
      using ap by (intro pow_split) (simp add: of_nat_diff)
    also have "\<dots> \<le> 2 powi (?k + 1) * of_int d"
      using rd(1) by (intro mult_left_mono) auto
    finally show ?thesis using d0 by (simp add: x divide_less_eq)
  qed
  have lo: "2 powi (?k - 1) \<le> x"
  proof -
    have "2 powi (?k - 1) * of_int d \<le> 2 powi (?k - 1) * (2 :: rat) ^ b"
      using rd(2) by (intro mult_left_mono) auto
    also have "\<dots> = 2 ^ (a - 1)"
      using ap by (intro pow_split [symmetric]) (simp add: of_nat_diff)
    also have "\<dots> \<le> of_int n" by (rule rn)
    finally show ?thesis using d0 by (simp add: x le_divide_eq)
  qed
  have f: "flog2 x = (if 2 powi ?k \<le> x then ?k else ?k - 1)"
    by (simp add: flog2_def q a_def b_def Let_def)
  show "2 powi flog2 x \<le> x" using lo by (simp add: f)
  show "x < 2 powi (flog2 x + 1)" using hi by (simp add: f)
qed

lemma fl_0 [simp]: "fl 0 = 0"
  by (simp add: fl_def)

text \<open>The relative error in the normal range.\<close>

lemma fl_error:
  assumes "2 powi (- 1022) \<le> \<bar>x\<bar>"
  shows "\<bar>fl x - x\<bar> \<le> \<bar>x\<bar> * 2 powi (- 53)"
proof -
  have "(0 :: rat) < 2 powi (- 1022)" by (rule two_powi_pos)
  with assms have x0: "x \<noteq> 0" "0 < \<bar>x\<bar>" by linarith+
  let ?g = "flog2 \<bar>x\<bar>"
  have "(2 :: rat) powi (- 1022) < 2 powi (?g + 1)"
    using assms flog2_bounds(2) [OF x0(2)] by linarith
  then have "- 1022 < ?g + 1"
    by (meson not_less one_le_numeral power_int_increasing)
  then have m: "max (?g - 52) (- 1074) = ?g - 52" by linarith
  let ?u = "(2 :: rat) powi (?g - 52)"
  have u: "0 < ?u" by simp
  have fx: "fl x = of_int (rhe (x / ?u)) * ?u"
    using x0 unfolding fl_def Let_def m by simp
  have "fl x - x = (of_int (rhe (x / ?u)) - x / ?u) * ?u"
    unfolding fx by (simp add: left_diff_distrib)
  then have "\<bar>fl x - x\<bar> = \<bar>of_int (rhe (x / ?u)) - x / ?u\<bar> * ?u"
    by (simp add: abs_mult)
  also have "\<dots> \<le> 1 / 2 * ?u"
    using rhe_error [of "x / ?u"] u by (intro mult_right_mono) auto
  also have "1 / 2 * ?u = 2 powi (- 1) * 2 powi (?g - 52)"
    by (simp add: power_int_minus)
  also have "\<dots> = 2 powi ?g * 2 powi (- 53)"
    using powi_split [of "?g - 53" "- 1" "?g - 52"] powi_split [of "?g - 53" ?g "- 53"]
    by linarith
  also have "\<dots> \<le> \<bar>x\<bar> * 2 powi (- 53)"
    using flog2_bounds(1) [OF x0(2)] by (intro mult_right_mono) auto
  finally show ?thesis .
qed

text \<open>Tenths survive the trip through binary64.\<close>

lemma fl_nat_error:
  assumes "0 < k" "k \<le> 65535"
  shows "\<bar>fl (of_int k / 10) - of_int k / 10\<bar> \<le> 1 / 1000000"
proof -
  let ?x = "of_int k / 10 :: rat"
  have "(2 :: rat) powi (- 1022) \<le> 2 powi (- 4)" by (intro power_int_increasing) auto
  also have "\<dots> \<le> 1 / 10" by (simp add: power_int_minus)
  finally have "(2 :: rat) powi (- 1022) \<le> 1 / 10" .
  moreover have "1 / 10 \<le> ?x" using assms(1) by (simp add: divide_right_mono)
  ultimately have "\<bar>fl ?x - ?x\<bar> \<le> \<bar>?x\<bar> * 2 powi (- 53)"
    by (intro fl_error) linarith
  also have "\<dots> \<le> 10000 * 2 powi (- 53)"
    using assms by (intro mult_right_mono) auto
  also have "\<dots> \<le> 1 / 1000000" by (simp add: power_int_minus)
  finally show ?thesis .
qed

lemma fl_tenth_error:
  assumes "0 \<le> k" "k \<le> 65535"
  shows "\<bar>fl (of_int k / 10) - of_int k / 10\<bar> \<le> 1 / 1000000"
  using fl_nat_error [of k] assms by (cases "k = 0") auto

lemma rhe_tenth:
  assumes "0 \<le> k" "k \<le> 65535"
  shows "rhe (10 * fl (of_int k / 10)) = k"
proof (rule rhe_unique)
  have "10 * fl (of_int k / 10) - of_int k = 10 * (fl (of_int k / 10) - of_int k / 10)" by simp
  with fl_tenth_error [OF assms]
  show "\<bar>10 * fl (of_int k / 10) - of_int k\<bar> < 1 / 2" by linarith
qed

lemma powi_less_cancel: "(2 :: rat) powi a < 2 powi b \<Longrightarrow> a < b"
  by (meson not_less one_le_numeral power_int_increasing)

text \<open>Integers below 2 ^ 53 are represented exactly.\<close>

lemma fl_of_int [simp]:
  assumes "\<bar>n\<bar> < 2 ^ 53"
  shows "fl (of_int n) = of_int n"
proof (cases "n = 0")
  case False
  let ?x = "of_int n :: rat"
  let ?g = "flog2 \<bar>?x\<bar>"
  have x: "0 < \<bar>?x\<bar>" using False by simp
  have "(of_int \<bar>n\<bar> :: rat) < of_int (2 ^ 53)" using assms by (simp only: of_int_less_iff)
  then have "\<bar>?x\<bar> < 2 powi 53" by simp
  then have "(2 :: rat) powi ?g < 2 powi 53" using flog2_bounds(1) [OF x] by linarith
  then have "?g < 53" by (rule powi_less_cancel)
  then have e: "max (?g - 52) (- 1074) \<le> 0" by simp
  define e where "e = max (?g - 52) (- 1074)"
  obtain m where m: "- e = int m" using e e_def by (metis nonneg_int_cases neg_0_le_iff_le)
  have p: "(2 :: rat) powi e * 2 powi (- e) = 1" by (simp add: power_int_minus)
  have "?x / 2 powi e = ?x * 2 powi (- e)" by (simp add: power_int_minus field_simps)
  also have "\<dots> = of_int (n * 2 ^ m)" by (simp add: m)
  finally have q: "?x / 2 powi e = of_int (n * 2 ^ m)" .
  have "fl ?x = of_int (rhe (?x / 2 powi e)) * 2 powi e"
    using False by (simp add: fl_def e_def Let_def)
  also have "\<dots> = ?x / 2 powi e * 2 powi e" unfolding q rhe_of_int ..
  finally show ?thesis by simp
qed simp

section \<open>Reading back decimal integers\<close>

lemma digit_char_is_digit:
  "d < 10 \<Longrightarrow> is_digit (digit_char d)"
  by (simp add: is_digit_def code_digit_char)

lemma lower_digits:
  "\<forall>d \<in> set ds. d < 10 \<Longrightarrow> lower (map digit_char ds) = map digit_char ds"
  by (auto simp: lower_def lower_char_def code_digit_char)

lemma us_ok_no_us: "CHR ''_'' \<notin> set s \<Longrightarrow> us_ok s"
  by (auto simp: us_ok_def in_set_conv_nth)

lemma parse_dec_digits:
  assumes "ds \<noteq> []" "\<forall>d \<in> set ds. d < 10"
  shows "parse_dec (map digit_char ds) = Some (of_nat (value_of 10 ds))"
proof -
  let ?s = "map digit_char ds"
  have dig: "\<forall>c \<in> set ?s. is_digit c" using assms(2) by (auto simp: digit_char_is_digit)
  have t: "takeWhile is_digit ?s = ?s" "dropWhile is_digit ?s = []"
    using dig by (simp_all add: takeWhile_eq_all_conv dropWhile_eq_Nil_conv)
  have v: "map digit_val ?s = ds"
    using assms(2) by (auto simp: comp_def intro!: map_idI)
  show ?thesis
    unfolding parse_dec_def Let_def t append_Nil2 v using assms(1)
    by (simp add: parse_exp_def t v del: map_map)
qed

text \<open>Text made of digits and points goes straight to the decimal parser.\<close>

lemma py_float_plain:
  assumes "s \<noteq> []" "\<forall>c \<in> set s. is_digit c \<or> c = CHR ''.''"
  shows "py_float s = (case parse_dec s of None \<Rightarrow> Inl ValueError | Some x \<Rightarrow> Inr (to_float x))"
proof -
  have c: "c \<noteq> CHR ''_'' \<and> c \<noteq> CHR ''-'' \<and> c \<noteq> CHR ''+'' \<and> \<not> is_cspace c
      \<and> c \<noteq> CHR ''i'' \<and> c \<noteq> CHR ''n'' \<and> lower_char c = c" if "c \<in> set s" for c
  proof -
    have "code c \<in> {48..57} \<or> c = CHR ''.''" using assms(2) that by (auto simp: is_digit_def)
    moreover have "code (CHR ''_'') = 95" "code (CHR ''-'') = 45" "code (CHR ''+'') = 43"
      "code (CHR ''i'') = 105" "code (CHR ''n'') = 110" "code (CHR ''.'') = 46"
      by (simp_all add: code_def)
    ultimately show ?thesis by (auto simp: is_cspace_def lower_char_def)
  qed
  have h: "hd s \<in> set s" "last s \<in> set s" using assms(1) by auto
  have sp: "strip_by is_cspace s = s" using assms(1) c h by (intro strip_by_id) auto
  have us: "us_ok s" using c by (intro us_ok_no_us) blast
  have f: "filter (\<lambda>c. c \<noteq> CHR ''_'') s = s" using c by (intro filter_True) blast
  have sg: "skip_sign s = s" "hd s \<noteq> CHR ''-''" using c [OF h(1)] by (auto simp: skip_sign_def)
  have lw: "lower s = s" unfolding lower_def using c by (intro map_idI) blast
  have nn: "s \<noteq> ''inf''" "s \<noteq> ''infinity''" "s \<noteq> ''nan''" using c [OF h(1)] by auto
  show ?thesis
    unfolding py_float_def Let_def sp f sg(1) lw using us nn sg(2) by (simp split: option.split)
qed

lemma py_float_digits:
  assumes "ds \<noteq> []" "\<forall>d \<in> set ds. d < 10"
  shows "py_float (map digit_char ds) = Inr (to_float (of_nat (value_of 10 ds)))"
  using assms parse_dec_digits [OF assms]
  by (subst py_float_plain) (auto simp: digit_char_is_digit)

lemma parse_dec_point:
  assumes "ds \<noteq> []" "\<forall>d \<in> set ds. d < 10" "e < 10"
  shows "parse_dec (map digit_char ds @ CHR ''.'' # [digit_char e])
    = Some (of_nat (value_of 10 ds * 10 + e) / 10)"
proof -
  let ?s = "map digit_char ds" and ?e = "digit_char e"
  have pt: "\<not> is_digit (CHR ''.'')" by (simp add: is_digit_def code_def)
  have dig: "\<forall>c \<in> set ?s. is_digit c" "is_digit ?e"
    using assms(2,3) by (auto simp: digit_char_is_digit)
  have t: "takeWhile is_digit (?s @ CHR ''.'' # [?e]) = ?s"
    "dropWhile is_digit (?s @ CHR ''.'' # [?e]) = CHR ''.'' # [?e]"
    using dig pt by (induction ds) auto
  have v: "map digit_val (?s @ [?e]) = ds @ [e]"
    using assms(2,3) by (auto simp: comp_def intro!: map_idI)
  show ?thesis
    unfolding parse_dec_def Let_def t using dig(2)
    by (simp add: parse_exp_def v [simplified] power_int_minus field_simps)
qed

lemma to_float_of_int:
  assumes "\<bar>n\<bar> < 2 ^ 53"
  shows "to_float (of_int n) = Fin (of_int n)"
proof (cases "n = 0")
  case False
  let ?x = "of_int n :: rat"
  have x: "0 < \<bar>?x\<bar>" using False by simp
  have "\<bar>?x\<bar> < 2 powi 53"
    using assms by (metis of_int_abs of_int_less_iff of_int_numeral of_int_power power_int_numeral)
  with flog2_bounds(1) [OF x] have "(2 :: rat) powi flog2 \<bar>?x\<bar> < 2 powi 53" by linarith
  then have "flog2 \<bar>?x\<bar> < 53" by (rule powi_less_cancel)
  then show ?thesis using assms by (simp add: to_float_def Let_def)
qed (simp add: to_float_def)

lemma py_float_int_str [codec_simps]:
  assumes "0 \<le> n" "n < 2 ^ 53"
  shows "py_float (int_str n) = Inr (Fin (of_int n))"
proof -
  have "int_str n = map digit_char (digits_of 10 (nat n))"
    using assms(1) by (simp add: fmt_int_def zpad_def nat_str_def)
  moreover have "py_float (map digit_char (digits_of 10 (nat n)))
      = Inr (to_float (of_nat (value_of 10 (digits_of 10 (nat n)))))"
    using digits_of_less [of 10] by (intro py_float_digits) simp_all
  moreover have "(of_nat (nat n) :: rat) = of_int n" using assms(1) by simp
  ultimately show ?thesis using assms by (simp add: to_float_of_int)
qed

section \<open>Tenths, written and read back\<close>

text \<open>\<open>str(int(v)) if v.is_integer() else f"{v:.1f}"\<close> for a non-negative float.\<close>

definition fmt_num :: "rat \<Rightarrow> string" where
  "fmt_num v = (if of_int \<lfloor>v\<rfloor> = v then int_str \<lfloor>v\<rfloor> else fmt_1f v)"

lemma flog2_less:
  assumes "0 < x" "x < 2 powi k"
  shows "flog2 x < k"
proof -
  have "(2 :: rat) powi flog2 x < 2 powi k" using flog2_bounds(1) [OF assms(1)] assms(2) by linarith
  then show ?thesis by (rule powi_less_cancel)
qed

lemma to_float_tenth:
  assumes "0 \<le> k" "k \<le> 65535"
  shows "to_float (of_int k / 10) = Fin (fl (of_int k / 10))"
proof -
  let ?y = "fl (of_int k / 10)"
  have kk: "(0 :: rat) \<le> of_int k / 10" "of_int k / 10 \<le> (65535 :: rat)"
    using assms by (simp_all add: field_simps)
  have "\<bar>?y\<bar> < 2 powi 1024"
  proof -
    have "\<bar>?y\<bar> \<le> 65536" using fl_tenth_error [OF assms] assms(1) kk by linarith
    also have "(65536 :: rat) < 2 powi 20" by simp
    also have "\<dots> \<le> 2 powi 1024" by (intro power_int_increasing) auto
    finally show ?thesis .
  qed
  then have "\<not> (?y \<noteq> 0 \<and> 1024 \<le> flog2 \<bar>?y\<bar>)" using flog2_less [of "\<bar>?y\<bar>" 1024] by auto
  then show ?thesis by (simp add: to_float_def Let_def)
qed

lemma fl_tenth_integer:
  assumes "0 \<le> k" "k \<le> 65535" "of_int \<lfloor>fl (of_int k / 10)\<rfloor> = fl (of_int k / 10)"
  shows "k = 10 * \<lfloor>fl (of_int k / 10)\<rfloor>"
proof -
  let ?n = "\<lfloor>fl (of_int k / 10)\<rfloor>"
  have "\<bar>of_int ?n - of_int k / 10 :: rat\<bar> \<le> 1 / 1000000"
    using fl_tenth_error [OF assms(1,2)] unfolding assms(3) .
  then have "(of_int (10 * ?n) :: rat) < of_int (k + 1)" "(of_int (k - 1) :: rat) < of_int (10 * ?n)"
    unfolding of_int_mult of_int_add of_int_diff of_int_numeral of_int_1 by linarith+
  then show ?thesis unfolding of_int_less_iff by linarith
qed

text \<open>A tenth printed by \<open>fmt_num\<close> is text of digits and points, and \<open>float()\<close> reads the
  same float back.\<close>

lemma fmt_num_tenth:
  assumes "0 \<le> k" "k \<le> 65535"
  defines "v \<equiv> fl (of_int k / 10)"
  shows "py_float (fmt_num v) = Inr (Fin v)"
    and "fmt_num v \<noteq> []" and "\<forall>c \<in> set (fmt_num v). is_digit c \<or> c = CHR ''.''"
proof -
  have istr: "int_str n = map digit_char (digits_of 10 (nat n))" if "0 \<le> n" for n
    using that by (simp add: fmt_int_def zpad_def nat_str_def)
  have "py_float (fmt_num v) = Inr (Fin v) \<and> fmt_num v \<noteq> []
    \<and> (\<forall>c \<in> set (fmt_num v). is_digit c \<or> c = CHR ''.'')"
  proof (cases "of_int \<lfloor>v\<rfloor> = v")
    case True
    then have k: "k = 10 * \<lfloor>v\<rfloor>" using fl_tenth_integer [OF assms(1,2)] by (simp add: v_def)
    then have "0 \<le> \<lfloor>v\<rfloor>" "\<lfloor>v\<rfloor> \<le> 6553" using assms(1,2) by linarith+
    then have n: "0 \<le> \<lfloor>v\<rfloor>" "\<lfloor>v\<rfloor> < 2 ^ 53" by simp_all
    have e: "fmt_num v = int_str \<lfloor>v\<rfloor>" using True by (simp add: fmt_num_def)
    have "py_float (int_str \<lfloor>v\<rfloor>) = Inr (Fin v)" using py_float_int_str [OF n] True by simp
    moreover have "\<forall>c \<in> set (int_str \<lfloor>v\<rfloor>). is_digit c"
      using n(1) by (auto simp: istr digit_char_is_digit dest: digits_of_less [rotated])
    ultimately show ?thesis using n(1) unfolding e by (auto simp: istr)
  next
    case False
    have r: "rhe (10 * v) = k" unfolding v_def by (rule rhe_tenth [OF assms(1,2)])
    let ?ds = "digits_of 10 (nat (k div 10))" and ?e = "nat (k mod 10)"
    have e10: "?e < 10" by simp
    have one: "int_str (k mod 10) = [digit_char ?e]"
      using e10 by (simp add: istr digits_of.simps [of 10 ?e])
    have e: "fmt_num v = map digit_char ?ds @ CHR ''.'' # [digit_char ?e]"
      using False assms(1) one by (simp add: fmt_num_def fmt_1f_def r istr Let_def)
    have d: "\<forall>d \<in> set ?ds. d < 10" by (auto dest: digits_of_less [rotated])
    have "value_of 10 ?ds * 10 + ?e = nat k" using assms(1) by (simp add: nat_div_distrib nat_mod_distrib)
    then have "parse_dec (fmt_num v) = Some (of_nat (nat k) / 10)"
      unfolding e using parse_dec_point [OF _ d e10] by simp
    then have p: "parse_dec (fmt_num v) = Some (of_int k / 10)" using assms(1) by simp
    have c: "\<forall>c \<in> set (fmt_num v). is_digit c \<or> c = CHR ''.''"
      unfolding e using d e10 by (auto simp: digit_char_is_digit)
    have ne: "fmt_num v \<noteq> []" by (simp add: e)
    have "py_float (fmt_num v) = Inr (to_float (of_int k / 10))"
      using py_float_plain [OF ne c] p by simp
    then show ?thesis using c ne to_float_tenth [OF assms(1,2)] by (simp add: v_def)
  qed
  then show "py_float (fmt_num v) = Inr (Fin v)" "fmt_num v \<noteq> []"
    "\<forall>c \<in> set (fmt_num v). is_digit c \<or> c = CHR ''.''" by blast+
qed

lemma round1_tenth:
  assumes "0 \<le> k" "k \<le> 65535"
  shows "py_round1 (Fin (fl (of_int k / 10))) = Fin (fl (of_int k / 10))"
  using assms by (simp add: rhe_tenth to_float_tenth)

lemma round_mul10_tenth:
  assumes "0 \<le> k" "k \<le> 65535"
  shows "py_round (mul10 (Fin (fl (of_int k / 10)))) = Inr k"
proof -
  let ?x = "10 * fl (of_int k / 10)"
  have ex: "\<bar>?x - of_int k\<bar> \<le> 1 / 100000" using fl_tenth_error [OF assms] by linarith
  show ?thesis
  proof (cases "k = 0")
    case False
    have kq: "(1 :: rat) \<le> of_int k" "of_int k \<le> (65535 :: rat)" using False assms by simp_all
    have pos: "1 / 2 \<le> ?x" "?x \<le> 65536" using ex kq by linarith+
    have "(2 :: rat) powi (- 1022) \<le> 2 powi (- 1)" by (intro power_int_increasing) auto
    then have "(2 :: rat) powi (- 1022) \<le> \<bar>?x\<bar>" using pos(1) by (simp add: power_int_minus)
    from fl_error [OF this] have "\<bar>fl ?x - ?x\<bar> \<le> \<bar>?x\<bar> * 2 powi (- 53)" .
    also have "\<dots> \<le> 65536 * 2 powi (- 53)" using pos by (intro mult_right_mono) auto
    also have "\<dots> \<le> 1 / 1000" by (simp add: power_int_minus)
    finally have fx: "\<bar>fl ?x - of_int k\<bar> < 1 / 2" using ex by linarith
    have "\<bar>fl ?x\<bar> < 2 powi 1024"
    proof -
      have "\<bar>fl ?x\<bar> \<le> 65536" using fx kq by linarith
      also have "(65536 :: rat) < 2 powi 20" by simp
      also have "\<dots> \<le> 2 powi 1024" by (intro power_int_increasing) auto
      finally show ?thesis .
    qed
    then have "to_float ?x = Fin (fl ?x)"
      using flog2_less [of "\<bar>fl ?x\<bar>" 1024] by (auto simp: to_float_def Let_def)
    then show ?thesis using rhe_unique [OF fx] by simp
  qed (use rhe_of_int [of 0] in \<open>simp add: to_float_def\<close>)
qed

end
