(* ===== verification/Json.thy ===== *)
theory Json
  imports PyFloat
begin

text \<open>
  The values \<open>json.loads\<close> returns, as both ends of the push channel and the reader of
  the bridge's health endpoint handle them. An object has distinct keys, as the dict
  that \<open>json.loads\<close> builds; \<open>bool\<close> is a constructor of its own. \<open>json.dumps\<close> followed by
  \<open>json.loads\<close> is the identity on values without floats that are not finite, so a value
  sent by one end is the value received by the other.
\<close>

datatype json =
    JNull
  | JBool bool
  | JInt int
  | JFloat pyfloat
  | JStr string
  | JList "json list"
  | JObj "(string \<times> json) list"

text \<open>\<open>bool(v)\<close>; a float is false only when it is zero.\<close>

fun json_true :: "json \<Rightarrow> bool" where
  "json_true JNull \<longleftrightarrow> False"
| "json_true (JBool b) \<longleftrightarrow> b"
| "json_true (JInt n) \<longleftrightarrow> n \<noteq> 0"
| "json_true (JFloat x) \<longleftrightarrow> x \<noteq> Fin 0"
| "json_true (JStr s) \<longleftrightarrow> s \<noteq> []"
| "json_true (JList xs) \<longleftrightarrow> xs \<noteq> []"
| "json_true (JObj kvs) \<longleftrightarrow> kvs \<noteq> []"

text \<open>\<open>d.get(key, default)\<close>.\<close>

definition json_get :: "(string \<times> json) list \<Rightarrow> string \<Rightarrow> json \<Rightarrow> json" where
  "json_get kvs key dflt = (case map_of kvs key of None \<Rightarrow> dflt | Some v \<Rightarrow> v)"

text \<open>\<open>bool\<close> is a subclass of \<open>int\<close>.\<close>

fun as_int :: "json \<Rightarrow> int option" where
  "as_int (JInt n) = Some n"
| "as_int (JBool b) = Some (if b then 1 else 0)"
| "as_int _ = None"

end
