(* ===== verification/State.thy ===== *)
theory State
  imports Protocol Json "HOL-Library.AList"
begin

text \<open>
  The semantic layer of the bridge, \<open>bridge/r60v_broker/state.py\<close>: the snapshot
  (settings block and live registers), the decoders and encoders, and the table
  of entities. A Python dict is an association list (\<open>AList.update\<close> replaces in
  place or appends, as the dict does), looked up with \<open>map_of\<close>. The lemmas relate
  the encoder of every writable entity with its decoder.
\<close>

section \<open>The snapshot\<close>

definition LIVE_REGISTERS :: "(int \<times> int) list" where
  "LIVE_REGISTERS =
     [(CURRENT_BREW_TEMP, 1), (CURRENT_SERVICE_TEMP, 1), (CURRENT_PRESSURE, 1), (DISPLAY, 16)]"

record snapshot =
  sn_settings :: "int list"
  sn_live :: "(int \<times> int list) list"

definition empty_snapshot :: snapshot where
  "empty_snapshot = \<lparr>sn_settings = replicate (nat SETTINGS_LEN) 0, sn_live = []\<rparr>"

definition le16 :: "int list \<Rightarrow> int \<Rightarrow> int res" where
  "le16 data offset =
     bind_res (py_item data offset) (\<lambda>lo.
     bind_res (py_item data (offset + 1)) (\<lambda>hi.
       Inr ((lo AND 255) OR push_bit 8 (hi AND 255))))"

text \<open>Every address passed to \<open>settings_byte\<close> is a constant of the address map, hence
  not negative.\<close>

definition settings_byte :: "snapshot \<Rightarrow> int \<Rightarrow> int" where
  "settings_byte s address =
     (if address < int (length (sn_settings s)) then (sn_settings s ! nat address) AND 255 else 0)"

definition live_bytes :: "snapshot \<Rightarrow> int \<Rightarrow> int list" where
  "live_bytes s address = (case map_of (sn_live s) address of None \<Rightarrow> [] | Some d \<Rightarrow> d)"

section \<open>Decoders\<close>

datatype pyval = VInt int | VStr string | VFloat rat

definition dec_byte :: "int \<Rightarrow> snapshot \<Rightarrow> pyval res" where
  "dec_byte address s = Inr (VInt (settings_byte s address))"

definition dec_live_byte :: "int \<Rightarrow> snapshot \<Rightarrow> pyval res" where
  "dec_live_byte address s =
     (let data = live_bytes s address in Inr (VInt (if data \<noteq> [] then hd data else 0)))"

definition dec_live_decibar :: "int \<Rightarrow> snapshot \<Rightarrow> pyval res" where
  "dec_live_decibar address s =
     (let data = live_bytes s address
      in Inr (VFloat (fl (of_int (if data \<noteq> [] then hd data else 0) / 10))))"

definition is_pad :: "char \<Rightarrow> bool" where
  "is_pad c \<longleftrightarrow> code c = 32 \<or> code c = 0"

definition dec_live_text :: "int \<Rightarrow> snapshot \<Rightarrow> pyval res" where
  "dec_live_text address s =
     bind_res (py_bytes (live_bytes s address))
       (\<lambda>bs. Inr (VStr (rstrip_by is_pad (decode_ascii bs))))"

definition dec_enum :: "int \<Rightarrow> string list \<Rightarrow> snapshot \<Rightarrow> pyval res" where
  "dec_enum address options s =
     (let idx = settings_byte s address
      in Inr (VStr (if 0 \<le> idx \<and> idx < int (length options) then options ! nat idx
                    else ''unknown'')))"

definition dec_time :: "int \<Rightarrow> int \<Rightarrow> snapshot \<Rightarrow> pyval res" where
  "dec_time hour_address minute_address s =
     Inr (VStr (fmt_int 10 2 (settings_byte s hour_address) @ '':''
                @ fmt_int 10 2 (settings_byte s minute_address)))"

section \<open>Encoders\<close>

type_synonym write_op = "int \<times> int list"

definition encode_ranged :: "int \<Rightarrow> int \<Rightarrow> int \<Rightarrow> string \<Rightarrow> write_op res" where
  "encode_ranged address lo hi payload =
     bind_res (py_float payload) (\<lambda>x.
     bind_res (py_round x) (\<lambda>value.
       if lo \<le> value \<and> value \<le> hi then Inr (address, [value]) else Inl ValueError))"

definition encode_time :: "int \<Rightarrow> string \<Rightarrow> write_op res" where
  "encode_time hour_address payload =
     (case split_on (CHR '':'') (strip payload) of
        [h, m] \<Rightarrow>
          bind_res (py_int 10 h) (\<lambda>hour.
          bind_res (py_int 10 m) (\<lambda>minute.
            if 0 \<le> hour \<and> hour \<le> 23 \<and> 0 \<le> minute \<and> minute \<le> 59
            then Inr (hour_address, [hour, minute]) else Inl ValueError))
      | _ \<Rightarrow> Inl ValueError)"

definition encode_bool :: "int \<Rightarrow> int \<Rightarrow> int \<Rightarrow> string \<Rightarrow> write_op res" where
  "encode_bool address on_value off_value payload =
     (let truthy = upper (strip payload) \<in> {''ON'', ''1'', ''TRUE''}
      in Inr (address, [if truthy then on_value else off_value]))"

fun index_of :: "'a list \<Rightarrow> 'a \<Rightarrow> nat option" where
  "index_of [] x = None"
| "index_of (y # ys) x = (if y = x then Some 0 else map_option Suc (index_of ys x))"

definition encode_enum :: "int \<Rightarrow> string list \<Rightarrow> string \<Rightarrow> write_op res" where
  "encode_enum address options payload =
     (case index_of options payload of
        None \<Rightarrow> Inl ValueError
      | Some idx \<Rightarrow> Inr (address, [int idx]))"

section \<open>The entity tables\<close>

definition PROFILE_OPTIONS :: "string list" where
  "PROFILE_OPTIONS = [''A'', ''B'', ''C'']"

definition WATER_FEED_OPTIONS :: "string list" where
  "WATER_FEED_OPTIONS = [''mains'', ''tank'']"

definition TEMP_UNIT_OPTIONS :: "string list" where
  "TEMP_UNIT_OPTIONS = [''celsius'', ''fahrenheit'']"

definition LANGUAGE_OPTIONS :: "string list" where
  "LANGUAGE_OPTIONS = [''english'', ''german'', ''french'', ''italian'']"

record entity =
  en_key :: string
  en_name :: string
  en_component :: string
  en_decode :: "snapshot \<Rightarrow> pyval res"
  en_encode :: "(string \<Rightarrow> write_op res) option"
  en_config :: "(string \<times> json) list"

definition en_writable :: "entity \<Rightarrow> bool" where
  "en_writable e \<longleftrightarrow> en_encode e \<noteq> None"

definition Entity :: "string \<Rightarrow> string \<Rightarrow> string \<Rightarrow> (snapshot \<Rightarrow> pyval res)
    \<Rightarrow> (string \<Rightarrow> write_op res) option \<Rightarrow> (string \<times> json) list \<Rightarrow> entity" where
  "Entity key name component decode encode cfg =
     \<lparr>en_key = key, en_name = name, en_component = component, en_decode = decode,
      en_encode = encode, en_config = cfg\<rparr>"

definition TIME_PATTERN :: string where
  "TIME_PATTERN = ''^([01][0-9]|2[0-3]):[0-5][0-9]$''"

definition icon_config :: "string \<Rightarrow> string \<times> json" where
  "icon_config i = (''icon'', JStr i)"

definition options_config :: "string list \<Rightarrow> string \<Rightarrow> (string \<times> json) list" where
  "options_config opts i = [(''options'', JList (map JStr opts)), icon_config i]"

definition dec_count :: "snapshot \<Rightarrow> pyval res" where
  "dec_count s = bind_res (le16 (sn_settings s) TOTAL_COFFEE_COUNT) (\<lambda>n. Inr (VInt n))"

definition dec_power :: "snapshot \<Rightarrow> pyval res" where
  "dec_power s = Inr (VStr (if settings_byte s STANDBY = 0 then ''ON'' else ''OFF''))"

definition dec_service :: "snapshot \<Rightarrow> pyval res" where
  "dec_service s =
     Inr (VStr (if settings_byte s SERVICE_BOILER_ENABLE \<noteq> 0 then ''ON'' else ''OFF''))"

definition ENTITIES :: "entity list" where
  "ENTITIES =
     [Entity ''current_pressure'' ''Brew Pressure'' ''sensor''
        (dec_live_decibar CURRENT_PRESSURE) None
        [(''unit_of_measurement'', JStr ''bar''), (''device_class'', JStr ''pressure''),
         (''state_class'', JStr ''measurement''), (''suggested_display_precision'', JInt 1),
         icon_config ''mdi:gauge''],
      Entity ''display'' ''Display'' ''sensor'' (dec_live_text DISPLAY) None
        [icon_config ''mdi:card-text''],
      Entity ''total_coffee_count'' ''Total Coffee Count'' ''sensor'' dec_count None
        [(''state_class'', JStr ''total_increasing''), icon_config ''mdi:counter''],
      Entity ''power'' ''Power'' ''switch'' dec_power (Some (encode_bool STANDBY 0 1))
        [icon_config ''mdi:power''],
      Entity ''service_boiler'' ''Steam Boiler'' ''switch'' dec_service
        (Some (encode_bool SERVICE_BOILER_ENABLE 1 0)) [icon_config ''mdi:kettle-steam''],
      Entity ''active_profile'' ''Pressure Profile'' ''select''
        (dec_enum ACTIVE_PROFILE PROFILE_OPTIONS)
        (Some (encode_enum ACTIVE_PROFILE PROFILE_OPTIONS))
        (options_config PROFILE_OPTIONS ''mdi:chart-bell-curve''),
      Entity ''water_feed'' ''Water Source'' ''select''
        (dec_enum WATER_FEED WATER_FEED_OPTIONS)
        (Some (encode_enum WATER_FEED WATER_FEED_OPTIONS))
        (options_config WATER_FEED_OPTIONS ''mdi:water''),
      Entity ''temperature_unit'' ''Temperature Unit'' ''select''
        (dec_enum TEMPERATURE_UNIT TEMP_UNIT_OPTIONS)
        (Some (encode_enum TEMPERATURE_UNIT TEMP_UNIT_OPTIONS))
        (options_config TEMP_UNIT_OPTIONS ''mdi:temperature-celsius''),
      Entity ''language'' ''Language'' ''select''
        (dec_enum LANGUAGE LANGUAGE_OPTIONS) (Some (encode_enum LANGUAGE LANGUAGE_OPTIONS))
        (options_config LANGUAGE_OPTIONS ''mdi:translate''),
      Entity ''auto_on'' ''Auto-On Time'' ''text''
        (dec_time AUTO_ON_HOUR AUTO_ON_MINUTE) (Some (encode_time AUTO_ON_HOUR))
        [(''pattern'', JStr TIME_PATTERN), icon_config ''mdi:clock-start''],
      Entity ''auto_off'' ''Auto-Off Time'' ''text''
        (dec_time AUTO_OFF_HOUR AUTO_OFF_MINUTE) (Some (encode_time AUTO_OFF_HOUR))
        [(''pattern'', JStr TIME_PATTERN), icon_config ''mdi:clock-end'']]"

definition ENTITIES_BY_KEY :: "(string \<times> entity) list" where
  "ENTITIES_BY_KEY = map (\<lambda>e. (en_key e, e)) ENTITIES"

record climate_entity =
  cl_key :: string
  cl_name :: string
  cl_current :: "snapshot \<Rightarrow> pyval res"
  cl_target :: "snapshot \<Rightarrow> pyval res"
  cl_encode_target :: "string \<Rightarrow> write_op res"
  cl_min_temp :: int
  cl_max_temp :: int
  cl_temp_step :: int
  cl_config :: "(string \<times> json) list"

definition CLIMATE_ENTITIES :: "climate_entity list" where
  "CLIMATE_ENTITIES =
     [\<lparr>cl_key = ''brew_boiler'', cl_name = ''Brew Boiler'',
       cl_current = dec_live_byte CURRENT_BREW_TEMP, cl_target = dec_byte BREW_BOILER_TEMP,
       cl_encode_target =
         encode_ranged BREW_BOILER_TEMP (fst BREW_TEMP_RANGE_C) (snd BREW_TEMP_RANGE_C),
       cl_min_temp = fst BREW_TEMP_RANGE_C, cl_max_temp = snd BREW_TEMP_RANGE_C,
       cl_temp_step = 1, cl_config = [icon_config ''mdi:coffee-maker'']\<rparr>,
      \<lparr>cl_key = ''steam_boiler'', cl_name = ''Steam Boiler'',
       cl_current = dec_live_byte CURRENT_SERVICE_TEMP, cl_target = dec_byte SERVICE_BOILER_TEMP,
       cl_encode_target =
         encode_ranged SERVICE_BOILER_TEMP (fst SERVICE_TEMP_RANGE_C) (snd SERVICE_TEMP_RANGE_C),
       cl_min_temp = fst SERVICE_TEMP_RANGE_C, cl_max_temp = snd SERVICE_TEMP_RANGE_C,
       cl_temp_step = 1, cl_config = [icon_config ''mdi:kettle-steam'']\<rparr>]"

definition CLIMATE_BY_KEY :: "(string \<times> climate_entity) list" where
  "CLIMATE_BY_KEY = map (\<lambda>c. (cl_key c, c)) CLIMATE_ENTITIES"

section \<open>Facts on the codecs\<close>

abbreviation with_settings :: "snapshot \<Rightarrow> int list \<Rightarrow> snapshot" where
  "with_settings s d \<equiv> s\<lparr>sn_settings := d\<rparr>"

lemma settings_byte_write:
  assumes "0 \<le> a" "a < int (length (sn_settings s))" "0 \<le> i"
  shows "settings_byte (with_settings s (write_at (sn_settings s) (nat i) d)) a =
     (if i \<le> a \<and> a < i + int (length d) then (d ! nat (a - i)) AND 255
      else settings_byte s a)"
  using assms by (auto simp: settings_byte_def nth_write_at nat_diff_distrib nat_less_iff le_nat_iff)

lemma index_of_Some:
  "index_of xs x = Some i \<Longrightarrow> i < length xs \<and> xs ! i = x"
  by (induction xs arbitrary: i) (auto split: if_splits)

lemma encode_enum_InrD:
  assumes "encode_enum a opts p = Inr (a', d)"
  shows "a' = a" "\<exists>i. d = [int i] \<and> i < length opts \<and> opts ! i = p"
  using assms by (auto simp: encode_enum_def dest: index_of_Some split: option.splits)

lemma py_float_error: "py_float s = Inl e \<Longrightarrow> e = ValueError"
  by (auto simp: py_float_def Let_def split: if_splits option.splits)

lemma py_int_error: "py_int b s = Inl e \<Longrightarrow> e = ValueError"
  by (auto simp: py_int_def scan_digits_def Let_def bind_res_eq_Inl split: if_splits)

lemma encode_time_InrD:
  assumes "encode_time a p = Inr (a', d)"
  shows "a' = a" "\<exists>h m. d = [h, m] \<and> 0 \<le> h \<and> h \<le> 23 \<and> 0 \<le> m \<and> m \<le> 59"
  using assms by (auto simp: encode_time_def bind_res_eq_Inr split: list.splits if_splits)

lemma fmt_int_chars:
  assumes "0 \<le> n" "c \<in> set (fmt_int 10 w n)"
  shows "\<not> is_ws c \<and> c \<noteq> CHR '':''"
proof -
  obtain k where "k < 10" "c = digit_char k" using set_fmt_int [of n 10] assms by auto
  then show ?thesis using digit_char_neq [of k] by auto
qed

lemma fmt_int_nonempty [simp]: "0 \<le> n \<Longrightarrow> fmt_int 10 (Suc (Suc 0)) n \<noteq> []"
  by (auto simp: fmt_int_def zpad_def nat_str_def)

lemma encode_time_canonical:
  assumes "0 \<le> h" "h \<le> 23" "0 \<le> m" "m \<le> 59"
  shows "encode_time a (fmt_int 10 2 h @ '':'' @ fmt_int 10 2 m) = Inr (a, [h, m])"
proof -
  let ?H = "fmt_int 10 2 h" and ?M = "fmt_int 10 2 m"
  have ne: "?H \<noteq> []" "?M \<noteq> []" using assms by (simp_all add: numeral_2_eq_2)
  have "hd ?H \<in> set ?H" "last ?M \<in> set ?M" using ne by auto
  then have "\<not> is_ws (hd ?H)" "\<not> is_ws (last ?M)"
    using fmt_int_chars assms by blast+
  then have "strip (?H @ '':'' @ ?M) = ?H @ '':'' @ ?M"
    unfolding strip_def using ne by (intro strip_by_id) auto
  moreover have "split_on (CHR '':'') (?H @ '':'' @ ?M) = [?H, ?M]"
  proof -
    have "CHR '':'' \<notin> set ?H" "CHR '':'' \<notin> set ?M" using fmt_int_chars assms by blast+
    then show ?thesis by (simp add: split_on_append split_on_no_sep)
  qed
  ultimately show ?thesis
    using assms by (simp add: encode_time_def py_int_fmt_int)
qed

lemma encode_bool_InrD:
  "encode_bool a on off p = Inr (a', d) \<Longrightarrow>
     a' = a \<and> (d = [on] \<and> upper (strip p) \<in> {''ON'', ''1'', ''TRUE''}
             \<or> d = [off] \<and> upper (strip p) \<notin> {''ON'', ''1'', ''TRUE''})"
  by (auto simp: encode_bool_def Let_def split: if_splits)

lemma encode_enum_option:
  "i < length opts \<Longrightarrow> distinct opts \<Longrightarrow> encode_enum a opts (opts ! i) = Inr (a, [int i])"
proof -
  have "i < length xs \<Longrightarrow> distinct xs \<Longrightarrow> index_of xs (xs ! i) = Some i" for xs :: "string list"
    by (induction xs arbitrary: i) (auto simp: nth_Cons' split: if_splits)
  then show "i < length opts \<Longrightarrow> distinct opts \<Longrightarrow> ?thesis" by (simp add: encode_enum_def)
qed

text \<open>What a command of an entity does to the snapshot, and what the entity then shows.\<close>

definition written :: "snapshot \<Rightarrow> write_op \<Rightarrow> snapshot" where
  "written s w = with_settings s (write_at (sn_settings s) (nat (fst w)) (snd w))"

lemma settings_byte_written:
  assumes "0 \<le> a" "a < int (length (sn_settings s))"
  shows "settings_byte (written s (a, [b])) a = b AND 255"
    and "settings_byte (written s (a, [b, c])) a = b AND 255"
    and "a + 1 < int (length (sn_settings s)) \<Longrightarrow>
      settings_byte (written s (a, [b, c])) (a + 1) = c AND 255"
  using assms
  by (simp_all add: written_def settings_byte_write del: write_at.simps)

definition command_shown :: "(snapshot \<Rightarrow> pyval res) \<Rightarrow> (string \<Rightarrow> write_op res) \<Rightarrow> write_op
    \<Rightarrow> snapshot \<Rightarrow> bool" where
  "command_shown dec enc w s \<longleftrightarrow>
     0 \<le> fst w \<and> fst w + int (length (snd w)) \<le> SETTINGS_LEN \<and> list_all is_byte (snd w)
     \<and> (\<exists>v. dec (written s w) = Inr (VStr v) \<and> enc v = Inr w)"

lemma command_shown_enum:
  assumes "encode_enum a opts p = Inr w" "length (sn_settings s) = nat SETTINGS_LEN"
    and "0 \<le> a" "a < SETTINGS_LEN" "distinct opts" "length opts \<le> 256"
  shows "command_shown (dec_enum a opts) (encode_enum a opts) w s"
proof -
  obtain a' d where w: "w = (a', d)" by (cases w)
  from encode_enum_InrD [OF assms(1) [unfolded w]] obtain i
    where i: "a' = a" "d = [int i]" "i < length opts" by auto
  have b: "is_byte (int i)" using i(3) assms(6) by (simp add: is_byte_def)
  have "settings_byte (written s w) a = int i AND 255"
    using assms(2-4) i by (simp add: w settings_byte_written SETTINGS_LEN_def)
  then have "settings_byte (written s w) a = int i" using b by simp
  then have "dec_enum a opts (written s w) = Inr (VStr (opts ! i))"
    using i(3) by (simp add: dec_enum_def)
  moreover have "encode_enum a opts (opts ! i) = Inr w"
    using i assms(5) by (simp add: encode_enum_option w)
  ultimately show ?thesis using assms(3,4) i b by (simp add: command_shown_def w)
qed

lemma command_shown_time:
  assumes "encode_time a p = Inr w" "length (sn_settings s) = nat SETTINGS_LEN"
    and "0 \<le> a" "a + 1 < SETTINGS_LEN"
  shows "command_shown (dec_time a (a + 1)) (encode_time a) w s"
proof -
  obtain a' d where w: "w = (a', d)" by (cases w)
  from encode_time_InrD [OF assms(1) [unfolded w]] obtain h m
    where i: "a' = a" "d = [h, m]" "0 \<le> h" "h \<le> 23" "0 \<le> m" "m \<le> 59" by auto
  have b: "is_byte h" "is_byte m" using i by (simp_all add: is_byte_def)
  have "settings_byte (written s w) a = h AND 255" "settings_byte (written s w) (a + 1) = m AND 255"
    using assms(2-4) i by (simp_all add: w settings_byte_written SETTINGS_LEN_def)
  then have "dec_time a (a + 1) (written s w)
      = Inr (VStr (fmt_int 10 2 h @ '':'' @ fmt_int 10 2 m))"
    using b by (simp add: dec_time_def)
  moreover have "encode_time a (fmt_int 10 2 h @ '':'' @ fmt_int 10 2 m) = Inr w"
    unfolding w using i encode_time_canonical by simp
  ultimately show ?thesis using assms(3,4) i b by (simp add: command_shown_def w)
qed

lemma command_shown_power:
  assumes "encode_bool STANDBY 0 1 p = Inr w" "length (sn_settings s) = nat SETTINGS_LEN"
  shows "command_shown dec_power (encode_bool STANDBY 0 1) w s"
proof -
  obtain a' d where w: "w = (a', d)" by (cases w)
  from encode_bool_InrD [OF assms(1) [unfolded w]] consider "w = (STANDBY, [0])" | "w = (STANDBY, [1])"
    by (auto simp: w)
  then show ?thesis
  proof cases
    case 1
    then have "dec_power (written s w) = Inr (VStr ''ON'')"
      using assms(2) by (simp add: dec_power_def settings_byte_written address_defs)
    moreover have "encode_bool STANDBY 0 1 ''ON'' = Inr w" unfolding 1 by code_simp
    ultimately show ?thesis by (simp add: command_shown_def 1 address_defs is_byte_def)
  next
    case 2
    then have "dec_power (written s w) = Inr (VStr ''OFF'')"
      using assms(2) by (simp add: dec_power_def settings_byte_written address_defs)
    moreover have "encode_bool STANDBY 0 1 ''OFF'' = Inr w" unfolding 2 by code_simp
    ultimately show ?thesis by (simp add: command_shown_def 2 address_defs is_byte_def)
  qed
qed

lemma command_shown_service:
  assumes "encode_bool SERVICE_BOILER_ENABLE 1 0 p = Inr w"
    and "length (sn_settings s) = nat SETTINGS_LEN"
  shows "command_shown dec_service (encode_bool SERVICE_BOILER_ENABLE 1 0) w s"
proof -
  obtain a' d where w: "w = (a', d)" by (cases w)
  from encode_bool_InrD [OF assms(1) [unfolded w]]
  consider "w = (SERVICE_BOILER_ENABLE, [1])" | "w = (SERVICE_BOILER_ENABLE, [0])"
    by (auto simp: w)
  then show ?thesis
  proof cases
    case 1
    then have "dec_service (written s w) = Inr (VStr ''ON'')"
      using assms(2) by (simp add: dec_service_def settings_byte_written address_defs)
    moreover have "encode_bool SERVICE_BOILER_ENABLE 1 0 ''ON'' = Inr w" unfolding 1 by code_simp
    ultimately show ?thesis by (simp add: command_shown_def 1 address_defs is_byte_def)
  next
    case 2
    then have "dec_service (written s w) = Inr (VStr ''OFF'')"
      using assms(2) by (simp add: dec_service_def settings_byte_written address_defs)
    moreover have "encode_bool SERVICE_BOILER_ENABLE 1 0 ''OFF'' = Inr w" unfolding 2 by code_simp
    ultimately show ?thesis by (simp add: command_shown_def 2 address_defs is_byte_def)
  qed
qed

lemma dec_time_hour: "dec_time AUTO_ON_HOUR AUTO_ON_MINUTE = dec_time AUTO_ON_HOUR (AUTO_ON_HOUR + 1)"
    "dec_time AUTO_OFF_HOUR AUTO_OFF_MINUTE = dec_time AUTO_OFF_HOUR (AUTO_OFF_HOUR + 1)"
  by (simp_all add: address_defs)

lemma entity_command_cases:
  assumes "e \<in> set ENTITIES" "en_encode e = Some enc"
  obtains "en_decode e = dec_power" "enc = encode_bool STANDBY 0 1"
  | "en_decode e = dec_service" "enc = encode_bool SERVICE_BOILER_ENABLE 1 0"
  | a opts where "en_decode e = dec_enum a opts" "enc = encode_enum a opts" "0 \<le> a"
      "a < SETTINGS_LEN" "distinct opts" "length opts \<le> 256"
  | a where "en_decode e = dec_time a (a + 1)" "enc = encode_time a" "0 \<le> a"
      "a + 1 < SETTINGS_LEN"
proof -
  have o: "distinct PROFILE_OPTIONS" "length PROFILE_OPTIONS \<le> 256"
    "distinct WATER_FEED_OPTIONS" "length WATER_FEED_OPTIONS \<le> 256"
    "distinct TEMP_UNIT_OPTIONS" "length TEMP_UNIT_OPTIONS \<le> 256"
    "distinct LANGUAGE_OPTIONS" "length LANGUAGE_OPTIONS \<le> 256"
    by (simp_all add: PROFILE_OPTIONS_def WATER_FEED_OPTIONS_def TEMP_UNIT_OPTIONS_def
        LANGUAGE_OPTIONS_def)
  have a: "0 \<le> ACTIVE_PROFILE" "ACTIVE_PROFILE < SETTINGS_LEN" "0 \<le> WATER_FEED"
    "WATER_FEED < SETTINGS_LEN" "0 \<le> TEMPERATURE_UNIT" "TEMPERATURE_UNIT < SETTINGS_LEN"
    "0 \<le> LANGUAGE" "LANGUAGE < SETTINGS_LEN" "0 \<le> AUTO_ON_HOUR"
    "AUTO_ON_HOUR + 1 < SETTINGS_LEN" "0 \<le> AUTO_OFF_HOUR" "AUTO_OFF_HOUR + 1 < SETTINGS_LEN"
    by (simp_all add: address_defs)
  have m: "map (\<lambda>e. (en_decode e, en_encode e)) ENTITIES =
     [(dec_live_decibar CURRENT_PRESSURE, None), (dec_live_text DISPLAY, None), (dec_count, None),
      (dec_power, Some (encode_bool STANDBY 0 1)),
      (dec_service, Some (encode_bool SERVICE_BOILER_ENABLE 1 0)),
      (dec_enum ACTIVE_PROFILE PROFILE_OPTIONS, Some (encode_enum ACTIVE_PROFILE PROFILE_OPTIONS)),
      (dec_enum WATER_FEED WATER_FEED_OPTIONS, Some (encode_enum WATER_FEED WATER_FEED_OPTIONS)),
      (dec_enum TEMPERATURE_UNIT TEMP_UNIT_OPTIONS,
       Some (encode_enum TEMPERATURE_UNIT TEMP_UNIT_OPTIONS)),
      (dec_enum LANGUAGE LANGUAGE_OPTIONS, Some (encode_enum LANGUAGE LANGUAGE_OPTIONS)),
      (dec_time AUTO_ON_HOUR (AUTO_ON_HOUR + 1), Some (encode_time AUTO_ON_HOUR)),
      (dec_time AUTO_OFF_HOUR (AUTO_OFF_HOUR + 1), Some (encode_time AUTO_OFF_HOUR))]"
    unfolding ENTITIES_def Entity_def dec_time_hour by simp
  have "(en_decode e, Some enc) \<in> set (map (\<lambda>e. (en_decode e, en_encode e)) ENTITIES)"
    using assms by (auto intro: rev_image_eqI)
  then show thesis
    unfolding m
    using that(1,2) that(3) [OF _ _ a(1,2) o(1,2)] that(3) [OF _ _ a(3,4) o(3,4)]
      that(3) [OF _ _ a(5,6) o(5,6)] that(3) [OF _ _ a(7,8) o(7,8)]
      that(4) [OF _ _ a(9,10)] that(4) [OF _ _ a(11,12)]
    by (simp only: list.set insert_iff empty_iff prod.inject option.inject option.distinct) blast
qed

lemma encode_ranged_InrD:
  assumes "encode_ranged a lo hi p = Inr (a', d)"
  shows "a' = a" "\<exists>v. d = [v] \<and> lo \<le> v \<and> v \<le> hi"
  using assms by (auto simp: encode_ranged_def bind_res_eq_Inr split: if_splits)

lemma encode_ranged_Inl:
  assumes "encode_ranged a lo hi p = Inl x"
  shows "x = ValueError \<or> x = OverflowError \<and> (\<exists>neg. py_float p = Inr (Inf neg))"
proof -
  from assms consider "py_float p = Inl x" | v where "py_float p = Inr v" "py_round v = Inl x"
    | "x = ValueError"
    by (auto simp: encode_ranged_def bind_res_eq_Inl split: if_splits)
  then show ?thesis
  proof cases
    case 2
    then show ?thesis by (cases v) auto
  qed (auto dest: py_float_error)
qed

lemma climate_cases:
  assumes "c \<in> set CLIMATE_ENTITIES"
  obtains a where "cl_target c = dec_byte a"
    "cl_encode_target c = encode_ranged a (cl_min_temp c) (cl_max_temp c)"
    "0 \<le> a" "a < SETTINGS_LEN" "85 \<le> cl_min_temp c" "cl_max_temp c \<le> 125"
  using assms that [of BREW_BOILER_TEMP] that [of SERVICE_BOILER_TEMP]
  by (auto simp: CLIMATE_ENTITIES_def address_defs BREW_TEMP_RANGE_C_def SERVICE_TEMP_RANGE_C_def)

section \<open>Properties\<close>

text \<open>Every command that a writable entity accepts is a write of bytes inside the
  settings block, and once the block holds them the entity shows a value which,
  sent back as a command, is the same write: nothing a user can set is
  displayed as something else.\<close>

theorem entity_command_shown:
  assumes "e \<in> set ENTITIES" "en_encode e = Some enc" "enc payload = Inr (a, d)"
    and "length (sn_settings s) = nat SETTINGS_LEN"
  shows "0 \<le> a \<and> a + int (length d) \<le> SETTINGS_LEN \<and> list_all is_byte d
    \<and> (\<exists>v. en_decode e (s\<lparr>sn_settings := write_at (sn_settings s) (nat a) d\<rparr>) = Inr (VStr v)
          \<and> enc v = Inr (a, d))"
proof -
  have "command_shown (en_decode e) enc (a, d) s"
    using assms(1,2)
  proof (cases rule: entity_command_cases)
    case 1 then show ?thesis using assms(3,4) by (simp add: command_shown_power)
  next
    case 2 then show ?thesis using assms(3,4) by (simp add: command_shown_service)
  next
    case 3 then show ?thesis using assms(3,4) by (simp add: command_shown_enum)
  next
    case 4 then show ?thesis using assms(3,4) by (simp add: command_shown_time)
  qed
  then show ?thesis by (simp add: command_shown_def written_def)
qed

theorem entity_command_shown_witness:
  "\<exists>v. dec_time AUTO_ON_HOUR AUTO_ON_MINUTE
         (empty_snapshot\<lparr>sn_settings := write_at (sn_settings empty_snapshot) (nat 81) [7, 5]\<rparr>)
       = Inr (VStr v) \<and> encode_time AUTO_ON_HOUR v = Inr (81, [7, 5])"
proof -
  let ?e = "Entity ''auto_on'' ''Auto-On Time'' ''text''
    (dec_time AUTO_ON_HOUR AUTO_ON_MINUTE) (Some (encode_time AUTO_ON_HOUR))
    [(''pattern'', JStr TIME_PATTERN), icon_config ''mdi:clock-start'']"
  have "?e \<in> set ENTITIES" by (simp add: ENTITIES_def)
  moreover have "en_encode ?e = Some (encode_time AUTO_ON_HOUR)" by (simp add: Entity_def)
  moreover have "encode_time AUTO_ON_HOUR '' 7:05 '' = Inr (81, [7, 5])" by code_simp
  moreover have "length (sn_settings empty_snapshot) = nat SETTINGS_LEN"
    by (simp add: empty_snapshot_def)
  ultimately show ?thesis
    using entity_command_shown [of ?e "encode_time AUTO_ON_HOUR" "'' 7:05 ''" 81 "[7, 5]" empty_snapshot]
    by (simp add: Entity_def)
qed

text \<open>A climate command that is accepted writes one byte, the setpoint, between
  the limits of its boiler; the target then shown is that setpoint, and the
  decimal string of the setpoint is the same command again.\<close>

theorem climate_command_in_range:
  assumes "c \<in> set CLIMATE_ENTITIES" "cl_encode_target c payload = Inr (a, d)"
    and "length (sn_settings s) = nat SETTINGS_LEN"
  shows "\<exists>v. d = [v] \<and> cl_min_temp c \<le> v \<and> v \<le> cl_max_temp c \<and> is_byte v
    \<and> cl_target c (s\<lparr>sn_settings := write_at (sn_settings s) (nat a) d\<rparr>) = Inr (VInt v)
    \<and> cl_encode_target c (int_str v) = Inr (a, d)"
  using assms(1)
proof (cases rule: climate_cases)
  case (1 b)
  obtain v where v: "a = b" "d = [v]" "cl_min_temp c \<le> v" "v \<le> cl_max_temp c"
    using encode_ranged_InrD [of b "cl_min_temp c" "cl_max_temp c" payload a d] assms(2) 1(2)
    by auto
  have r: "85 \<le> v" "v \<le> 125" using v 1(5,6) by linarith+
  then have bv: "is_byte v" by (simp add: is_byte_def)
  have "settings_byte (written s (b, [v])) b = v AND 255"
    using assms(3) 1(3,4) by (intro settings_byte_written) (auto simp: SETTINGS_LEN_def)
  then have "cl_target c (written s (a, d)) = Inr (VInt v)"
    using bv v(1,2) 1(1) by (simp add: dec_byte_def)
  moreover have "cl_encode_target c (int_str v) = Inr (a, d)"
    using v 1(2) r by (simp add: encode_ranged_def py_float_int_str)
  ultimately show ?thesis using v bv by (simp add: written_def)
qed

theorem climate_command_in_range_witness:
  "\<exists>v. [105] = [v] \<and> 85 \<le> v \<and> v \<le> 115 \<and> is_byte v
    \<and> cl_target (CLIMATE_ENTITIES ! 0)
        (empty_snapshot\<lparr>sn_settings := write_at (sn_settings empty_snapshot) (nat 2) [105]\<rparr>)
      = Inr (VInt v)
    \<and> cl_encode_target (CLIMATE_ENTITIES ! 0) (int_str v) = Inr (2, [105])"
proof -
  let ?c = "CLIMATE_ENTITIES ! 0"
  have "?c \<in> set CLIMATE_ENTITIES" by (simp add: CLIMATE_ENTITIES_def)
  moreover have "cl_encode_target ?c (int_str 105) = Inr (2, [105])"
    by (simp add: CLIMATE_ENTITIES_def encode_ranged_def py_float_int_str address_defs
        BREW_TEMP_RANGE_C_def)
  moreover have "length (sn_settings empty_snapshot) = nat SETTINGS_LEN"
    by (simp add: empty_snapshot_def)
  moreover have "85 = cl_min_temp ?c" "115 = cl_max_temp ?c"
    by (simp_all add: CLIMATE_ENTITIES_def BREW_TEMP_RANGE_C_def)
  ultimately show ?thesis
    by (simp only:) (rule climate_command_in_range)
qed

end
