(* ===== verification/Store.thy ===== *)
theory Store
  imports State
begin

text \<open>
  The device state store, \<open>bridge/r60v_broker/store.py\<close>: the cached snapshot, the
  availability verdict with its hysteresis, the optimistic write overlay, and the
  interpolation of stale temperatures. The listeners are represented by
  identities; every \<open>_notify\<close> appends, for each of them, the identity and the
  verdict \<open>available\<close> that the listener reads to \<open>st_events\<close>, which the
  projections consume. A reading of the monotonic clock is the argument \<open>now\<close>.
\<close>

section \<open>State\<close>

record store =
  st_grace :: int
  st_stale_after :: time
  st_step :: rat
  st_snapshot :: snapshot
  st_have_data :: bool
  st_fail_streak :: int
  st_available :: "bool option"
  st_last_live :: time
  st_listeners :: "nat list"
  st_pending :: "(int \<times> int) list"
  st_events :: "(nat \<times> bool) list"

definition new_store :: "int \<Rightarrow> time \<Rightarrow> rat \<Rightarrow> store" where
  "new_store grace stale step =
     \<lparr>st_grace = grace, st_stale_after = stale, st_step = step, st_snapshot = empty_snapshot,
      st_have_data = False, st_fail_streak = 0, st_available = None, st_last_live = 0,
      st_listeners = [], st_pending = [], st_events = []\<rparr>"

definition available :: "store \<Rightarrow> bool" where
  "available st = (case st_available st of None \<Rightarrow> True | Some b \<Rightarrow> b)"

section \<open>Subscription\<close>

definition subscribe :: "nat \<Rightarrow> store \<Rightarrow> store" where
  "subscribe l st = st\<lparr>st_listeners := st_listeners st @ [l]\<rparr>"

definition unsub :: "nat \<Rightarrow> store \<Rightarrow> store" where
  "unsub l st = st\<lparr>st_listeners := remove1 l (st_listeners st)\<rparr>"

definition notify :: "store \<Rightarrow> store" where
  "notify st =
     st\<lparr>st_events := st_events st @ map (\<lambda>l. (l, available st)) (st_listeners st)\<rparr>"

section \<open>Cache updates\<close>

definition set_settings :: "int list \<Rightarrow> store \<Rightarrow> store" where
  "set_settings data st = st\<lparr>st_snapshot := (st_snapshot st)\<lparr>sn_settings := data\<rparr>\<rparr>"

abbreviation settings :: "store \<Rightarrow> int list" where
  "settings st \<equiv> sn_settings (st_snapshot st)"

text \<open>Every address of the overlay is at least 0 (\<open>apply_optimistic\<close> checks it), so the
  item assignment never counts from the end.\<close>

definition apply_pending :: "store \<Rightarrow> store" where
  "apply_pending st =
     fold (\<lambda>(address, byte) st.
             if address < int (length (settings st))
             then set_settings ((settings st)[nat address := byte]) st else st)
       (st_pending st) st"

definition update_settings :: "int list \<Rightarrow> store \<Rightarrow> store" where
  "update_settings data st =
     notify ((apply_pending (set_settings data st))\<lparr>st_have_data := True\<rparr>)"

definition set_live :: "int \<Rightarrow> int list \<Rightarrow> store \<Rightarrow> store" where
  "set_live address data st =
     st\<lparr>st_snapshot := (st_snapshot st)
         \<lparr>sn_live := AList.update address data (sn_live (st_snapshot st))\<rparr>\<rparr>"

definition update_live :: "time \<Rightarrow> int \<Rightarrow> int list \<Rightarrow> store \<Rightarrow> store" where
  "update_live now address data st =
     notify ((set_live address data st)\<lparr>st_last_live := now, st_have_data := True\<rparr>)"

section \<open>Availability\<close>

definition set_available :: "bool \<Rightarrow> store \<Rightarrow> store" where
  "set_available online st =
     (if st_available st = Some online then st
      else notify (st\<lparr>st_available := Some online\<rparr>))"

definition note_success :: "store \<Rightarrow> store" where
  "note_success st = set_available True (st\<lparr>st_fail_streak := 0\<rparr>)"

definition note_failure :: "store \<Rightarrow> store" where
  "note_failure st =
     (let st = st\<lparr>st_fail_streak := st_fail_streak st + 1\<rparr>
      in if st_grace st \<le> st_fail_streak st then set_available False st else st)"

definition note_wedged :: "store \<Rightarrow> store" where
  "note_wedged st =
     set_available False (st\<lparr>st_fail_streak := max (st_fail_streak st) (st_grace st)\<rparr>)"

section \<open>The optimistic overlay\<close>

definition apply_optimistic :: "int \<Rightarrow> int list \<Rightarrow> store \<Rightarrow> store \<times> bool" where
  "apply_optimistic address data st =
     (if \<not> st_have_data st then (st, False)
      else if address < 0 \<or> data = [] then (st, False)
      else if int (length (settings st)) < address + int (length data) then (st, False)
      else if list_ex (\<lambda>b. b < 0 \<or> 255 < b) data then (st, False)
      else
        (notify (apply_pending
           (st\<lparr>st_pending :=
                fold (\<lambda>(offset, byte) m. AList.update (address + int offset) byte m)
                  (enumerate 0 data) (st_pending st)\<rparr>)), True))"

definition reconcile_clear :: "(int \<times> int) list \<Rightarrow> store \<Rightarrow> store" where
  "reconcile_clear expected st =
     st\<lparr>st_pending :=
          fold (\<lambda>(address, byte) m.
                  if map_of m address = Some byte then AList.delete address m else m)
            expected (st_pending st)\<rparr>"

section \<open>Interpolation\<close>

text \<open>\<open>max(-step, min(step, gap))\<close> compares the float step with the int gap.\<close>

definition ease :: "int \<Rightarrow> int \<Rightarrow> store \<Rightarrow> store" where
  "ease live_addr setpoint_addr st =
     (case map_of (sn_live (st_snapshot st)) live_addr of
        None \<Rightarrow> st
      | Some data \<Rightarrow>
          if data = [] then st
          else
            let current = hd data;
                target = settings_byte (st_snapshot st) setpoint_addr;
                gap = target - current
            in if gap = 0 then st
               else let step = max (- st_step st) (min (st_step st) (of_int gap))
                    in set_live live_addr [rhe (fl (of_int current + step))] st)"

definition interpolate_live_temps :: "time \<Rightarrow> store \<Rightarrow> store" where
  "interpolate_live_temps now st =
     (if \<not> st_have_data st then st
      else if now - st_last_live st < st_stale_after st then st
      else if settings_byte (st_snapshot st) STANDBY \<noteq> 0 then st
      else
        let st = ease CURRENT_BREW_TEMP BREW_BOILER_TEMP st
        in if settings_byte (st_snapshot st) SERVICE_BOILER_ENABLE \<noteq> 0
           then ease CURRENT_SERVICE_TEMP SERVICE_BOILER_TEMP st else st)"

section \<open>The raw snapshot\<close>

record raw_snap =
  rs_available :: bool
  rs_settings :: "int list"
  rs_live :: "(string \<times> int list) list"

definition raw_snapshot :: "store \<Rightarrow> raw_snap" where
  "raw_snapshot st =
     \<lparr>rs_available = available st, rs_settings = settings st,
      rs_live = map (\<lambda>(addr, data). (int_str addr, data)) (sn_live (st_snapshot st))\<rparr>"

section \<open>The overlay\<close>

definition overlay :: "(int \<times> int) list \<Rightarrow> int list \<Rightarrow> int list" where
  "overlay m xs =
     fold (\<lambda>(a, b) xs. if a < int (length xs) then xs[nat a := b] else xs) m xs"

lemma length_overlay [simp]: "length (overlay m xs) = length xs"
  unfolding overlay_def by (induction m arbitrary: xs) auto

lemma set_settings_simps [simp, frame_simps]:
  "settings (set_settings d st) = d" "st_pending (set_settings d st) = st_pending st"
  "set_settings e (set_settings d st) = set_settings e st"
  "set_settings (settings st) st = st"
  by (simp_all add: set_settings_def)

lemma apply_pending_overlay:
  "apply_pending st = set_settings (overlay (st_pending st) (settings st)) st"
proof -
  have "fold (\<lambda>(a, b) st. if a < int (length (settings st))
            then set_settings ((settings st)[nat a := b]) st else st) m st
      = set_settings (overlay m (settings st)) st" for m
    by (induction m arbitrary: st) (auto simp: overlay_def)
  then show ?thesis by (simp add: apply_pending_def)
qed

text \<open>The keys of the overlay are distinct addresses, at least 0, and its values bytes.\<close>

definition pending_ok :: "(int \<times> int) list \<Rightarrow> bool" where
  "pending_ok m \<longleftrightarrow> distinct (map fst m) \<and> (\<forall>a b. map_of m a = Some b \<longrightarrow> 0 \<le> a \<and> is_byte b)"

lemma pending_ok_Nil [simp]: "pending_ok []"
  by (simp add: pending_ok_def)

lemma pending_ok_ConsD:
  assumes "pending_ok ((a, b) # m)"
  shows "pending_ok m" "0 \<le> a" "map_of m a = None"
proof -
  have n: "map_of m a = None" using assms by (simp add: pending_ok_def map_of_eq_None_iff)
  have "0 \<le> a' \<and> is_byte b'" if "map_of m a' = Some b'" for a' b'
  proof -
    have "map_of ((a, b) # m) a' = Some b'" using that n by auto
    with assms show ?thesis unfolding pending_ok_def by blast
  qed
  moreover have "distinct (map fst m)" using assms by (simp add: pending_ok_def)
  ultimately show "pending_ok m" unfolding pending_ok_def by blast
  show "0 \<le> a" using assms by (simp add: pending_ok_def)
  show "map_of m a = None" by (rule n)
qed

lemma nth_overlay:
  assumes "pending_ok m" "j < length xs"
  shows "overlay m xs ! j = (case map_of m (int j) of None \<Rightarrow> xs ! j | Some b \<Rightarrow> b)"
  using assms
proof (induction m arbitrary: xs)
  case Nil
  then show ?case by (simp add: overlay_def)
next
  case (Cons p m)
  obtain a b where p: "p = (a, b)" by (cases p)
  let ?ys = "if a < int (length xs) then xs[nat a := b] else xs"
  have ok: "pending_ok m" "0 \<le> a" "map_of m a = None"
    using pending_ok_ConsD Cons.prems(1) by (auto simp: p)
  have "overlay (p # m) xs ! j = overlay m ?ys ! j" by (simp add: overlay_def p)
  also have "\<dots> = (case map_of m (int j) of None \<Rightarrow> ?ys ! j | Some b \<Rightarrow> b)"
    using Cons.prems(2) by (intro Cons.IH [OF ok(1)]) auto
  finally show ?case
    using ok Cons.prems(2) by (auto simp: p nth_list_update split: option.splits)
qed

lemma pending_ok_update:
  assumes "pending_ok m" "0 \<le> a" "is_byte b"
  shows "pending_ok (AList.update a b m)"
  using assms unfolding pending_ok_def
  by (auto simp: AList.distinct_update AList.update_conv')

lemma pending_ok_delete:
  "pending_ok m \<Longrightarrow> pending_ok (AList.delete a m)"
  unfolding pending_ok_def
  by (auto simp: AList.distinct_delete AList.delete_conv' split: if_splits)

text \<open>The overlay bytes of one command, written one after the other.\<close>

definition put_bytes :: "int \<Rightarrow> int list \<Rightarrow> (int \<times> int) list \<Rightarrow> (int \<times> int) list" where
  "put_bytes address data m =
     fold (\<lambda>(offset, byte) m. AList.update (address + int offset) byte m) (enumerate 0 data) m"

lemma put_bytes_snoc:
  "put_bytes a (d @ [b]) m = AList.update (a + int (length d)) b (put_bytes a d m)"
  by (simp add: put_bytes_def enumerate_append_eq)

lemma pending_ok_put_bytes:
  "pending_ok m \<Longrightarrow> 0 \<le> a \<Longrightarrow> list_all is_byte d \<Longrightarrow> pending_ok (put_bytes a d m)"
proof (induction d rule: rev_induct)
  case Nil
  then show ?case by (simp add: put_bytes_def)
next
  case (snoc b d)
  then show ?case by (simp add: put_bytes_snoc pending_ok_update)
qed

lemma map_of_put_bytes:
  "map_of (put_bytes a d m) x =
     (if a \<le> x \<and> x < a + int (length d) then Some (d ! nat (x - a)) else map_of m x)"
proof (induction d rule: rev_induct)
  case Nil
  then show ?case by (auto simp: put_bytes_def)
next
  case (snoc b d)
  have "nat (x - a) < length d" if "a \<le> x" "x < a + int (length d)" using that by linarith
  with snoc show ?case
    by (auto simp: put_bytes_snoc AList.update_conv' nth_append)
qed

definition drop_bytes :: "(int \<times> int) list \<Rightarrow> (int \<times> int) list \<Rightarrow> (int \<times> int) list" where
  "drop_bytes expected m =
     fold (\<lambda>(a, b) m. if map_of m a = Some b then AList.delete a m else m) expected m"

lemma pending_ok_drop_bytes: "pending_ok m \<Longrightarrow> pending_ok (drop_bytes e m)"
  unfolding drop_bytes_def by (induction e arbitrary: m) (auto simp: pending_ok_delete)

lemma map_of_drop_bytes:
  "distinct (map fst e) \<Longrightarrow>
     map_of (drop_bytes e m) x = (if map_of m x = map_of e x then None else map_of m x)"
proof (induction e arbitrary: m)
  case Nil
  then show ?case by (simp add: drop_bytes_def)
next
  case (Cons p e)
  obtain a b where p: "p = (a, b)" by (cases p)
  let ?m = "if map_of m a = Some b then AList.delete a m else m"
  have "drop_bytes (p # e) m = drop_bytes e ?m" by (simp add: drop_bytes_def p)
  moreover have "map_of e a = None" using Cons.prems by (simp add: p map_of_eq_None_iff)
  ultimately show ?case
    using Cons.prems by (auto simp: Cons.IH p AList.delete_conv')
qed

section \<open>The operations as functions of the fields\<close>

lemma notify_frame [simp, frame_simps]:
  "st_snapshot (notify st) = st_snapshot st" "st_pending (notify st) = st_pending st"
  "st_have_data (notify st) = st_have_data st" "st_available (notify st) = st_available st"
  "st_fail_streak (notify st) = st_fail_streak st" "st_grace (notify st) = st_grace st"
  "st_step (notify st) = st_step st" "st_listeners (notify st) = st_listeners st"
  "available (notify st) = available st" "st_last_live (notify st) = st_last_live st"
  "st_stale_after (notify st) = st_stale_after st"
  by (simp_all add: notify_def available_def)

lemma set_settings_frame [simp, frame_simps]:
  "st_have_data (set_settings d st) = st_have_data st"
  "st_available (set_settings d st) = st_available st"
  "st_fail_streak (set_settings d st) = st_fail_streak st"
  "st_grace (set_settings d st) = st_grace st" "st_step (set_settings d st) = st_step st"
  "st_listeners (set_settings d st) = st_listeners st"
  "st_events (set_settings d st) = st_events st"
  "sn_live (st_snapshot (set_settings d st)) = sn_live (st_snapshot st)"
  "st_last_live (set_settings d st) = st_last_live st"
  "st_stale_after (set_settings d st) = st_stale_after st"
  by (simp_all add: set_settings_def)

lemma set_live_frame [simp, frame_simps]:
  "st_have_data (set_live a d st) = st_have_data st"
  "st_available (set_live a d st) = st_available st"
  "st_fail_streak (set_live a d st) = st_fail_streak st"
  "st_grace (set_live a d st) = st_grace st" "st_step (set_live a d st) = st_step st"
  "st_listeners (set_live a d st) = st_listeners st"
  "st_events (set_live a d st) = st_events st" "settings (set_live a d st) = settings st"
  "st_pending (set_live a d st) = st_pending st"
  "st_last_live (set_live a d st) = st_last_live st"
  "st_stale_after (set_live a d st) = st_stale_after st"
  by (simp_all add: set_live_def)

lemma update_settings_fields:
  "settings (update_settings d st) = overlay (st_pending st) d"
  "st_pending (update_settings d st) = st_pending st" "st_have_data (update_settings d st)"
  "st_available (update_settings d st) = st_available st"
  "st_fail_streak (update_settings d st) = st_fail_streak st"
  "st_grace (update_settings d st) = st_grace st"
  "sn_live (st_snapshot (update_settings d st)) = sn_live (st_snapshot st)"
  by (simp_all add: update_settings_def apply_pending_overlay)

lemma update_live_fields:
  "settings (update_live now a d st) = settings st"
  "st_pending (update_live now a d st) = st_pending st" "st_have_data (update_live now a d st)"
  "st_available (update_live now a d st) = st_available st"
  "st_fail_streak (update_live now a d st) = st_fail_streak st"
  "st_grace (update_live now a d st) = st_grace st"
  "st_last_live (update_live now a d st) = now"
  "sn_live (st_snapshot (update_live now a d st)) = AList.update a d (sn_live (st_snapshot st))"
  by (simp_all add: update_live_def set_live_def)

lemma set_available_fields:
  "st_snapshot (set_available b st) = st_snapshot st"
  "st_pending (set_available b st) = st_pending st"
  "st_have_data (set_available b st) = st_have_data st"
  "st_available (set_available b st) = Some b" "available (set_available b st) = b"
  "st_fail_streak (set_available b st) = st_fail_streak st"
  "st_grace (set_available b st) = st_grace st"
  "st_last_live (set_available b st) = st_last_live st"
  by (auto simp: set_available_def available_def)

lemma note_fields:
  "st_snapshot (note_success st) = st_snapshot st" "st_pending (note_success st) = st_pending st"
  "st_have_data (note_success st) = st_have_data st" "available (note_success st)"
  "st_available (note_success st) = Some True"
  "st_fail_streak (note_success st) = 0" "st_grace (note_success st) = st_grace st"
  "st_snapshot (note_failure st) = st_snapshot st" "st_pending (note_failure st) = st_pending st"
  "st_have_data (note_failure st) = st_have_data st"
  "st_fail_streak (note_failure st) = st_fail_streak st + 1"
  "st_grace (note_failure st) = st_grace st"
  "st_available (note_failure st) =
     (if st_grace st \<le> st_fail_streak st + 1 then Some False else st_available st)"
  "st_snapshot (note_wedged st) = st_snapshot st" "st_pending (note_wedged st) = st_pending st"
  "st_have_data (note_wedged st) = st_have_data st" "\<not> available (note_wedged st)"
  "st_available (note_wedged st) = Some False"
  "st_fail_streak (note_wedged st) = max (st_fail_streak st) (st_grace st)"
  "st_grace (note_wedged st) = st_grace st"
  by (auto simp: note_success_def note_failure_def note_wedged_def set_available_fields Let_def)

lemma note_last_live:
  "st_last_live (note_success st) = st_last_live st"
  "st_last_live (note_failure st) = st_last_live st"
  "st_last_live (note_wedged st) = st_last_live st"
  by (auto simp: note_success_def note_failure_def note_wedged_def set_available_fields Let_def)

lemma apply_optimistic_cases:
  obtains "apply_optimistic a d st = (st, False)"
  | "apply_optimistic a d st =
       (notify (set_settings (overlay (put_bytes a d (st_pending st)) (settings st))
          (st\<lparr>st_pending := put_bytes a d (st_pending st)\<rparr>)), True)"
    "st_have_data st" "0 \<le> a" "d \<noteq> []" "a + int (length d) \<le> int (length (settings st))"
    "list_all is_byte d"
proof (cases "\<not> st_have_data st \<or> a < 0 \<or> d = []
    \<or> int (length (settings st)) < a + int (length d) \<or> list_ex (\<lambda>b. b < 0 \<or> 255 < b) d")
  case True
  then have "apply_optimistic a d st = (st, False)" by (auto simp: apply_optimistic_def)
  then show thesis by (rule that(1))
next
  case False
  then have "list_all is_byte d"
    by (auto simp: list_ex_iff list_all_iff is_byte_def not_less)
  with False show thesis
    by (intro that(2))
      (auto simp: apply_optimistic_def apply_pending_overlay set_settings_def
        simp flip: put_bytes_def)
qed

lemma apply_optimistic_frame:
  "st_available (fst (apply_optimistic a d st)) = st_available st"
  "st_fail_streak (fst (apply_optimistic a d st)) = st_fail_streak st"
  "st_grace (fst (apply_optimistic a d st)) = st_grace st"
  "length (settings (fst (apply_optimistic a d st))) = length (settings st)"
  by (rule apply_optimistic_cases [of a d st]; simp)+

lemma reconcile_clear_fields [simp, frame_simps]:
  "st_pending (reconcile_clear e st) = drop_bytes e (st_pending st)"
  "st_snapshot (reconcile_clear e st) = st_snapshot st"
  "st_have_data (reconcile_clear e st) = st_have_data st"
  "st_available (reconcile_clear e st) = st_available st"
  "st_fail_streak (reconcile_clear e st) = st_fail_streak st"
  "st_grace (reconcile_clear e st) = st_grace st"
  by (simp_all add: reconcile_clear_def drop_bytes_def)

lemma ease_frame [simp, frame_simps]:
  "settings (ease l s st) = settings st" "st_pending (ease l s st) = st_pending st"
  "st_have_data (ease l s st) = st_have_data st" "st_available (ease l s st) = st_available st"
  "st_fail_streak (ease l s st) = st_fail_streak st" "st_grace (ease l s st) = st_grace st"
  by (auto simp: ease_def Let_def split: option.splits)

lemma interpolate_frame [simp, frame_simps]:
  "settings (interpolate_live_temps now st) = settings st"
  "st_pending (interpolate_live_temps now st) = st_pending st"
  "st_have_data (interpolate_live_temps now st) = st_have_data st"
  "st_available (interpolate_live_temps now st) = st_available st"
  "st_fail_streak (interpolate_live_temps now st) = st_fail_streak st"
  "st_grace (interpolate_live_temps now st) = st_grace st"
  by (auto simp: interpolate_live_temps_def Let_def)

lemma subscribe_frame [simp, frame_simps]:
  "st_snapshot (subscribe l st) = st_snapshot st" "st_pending (subscribe l st) = st_pending st"
  "st_available (subscribe l st) = st_available st"
  "st_fail_streak (subscribe l st) = st_fail_streak st" "st_grace (subscribe l st) = st_grace st"
  "st_have_data (subscribe l st) = st_have_data st"
  "st_snapshot (unsub l st) = st_snapshot st" "st_pending (unsub l st) = st_pending st"
  "st_available (unsub l st) = st_available st"
  "st_fail_streak (unsub l st) = st_fail_streak st" "st_grace (unsub l st) = st_grace st"
  "st_have_data (unsub l st) = st_have_data st"
  by (simp_all add: subscribe_def unsub_def)

section \<open>Histories\<close>

text \<open>The operations that the broker's tasks interleave, in any order.\<close>

datatype store_op =
    Settings "int list"
  | Live time int "int list"
  | Success
  | Failure
  | Wedged
  | Optimistic int "int list"
  | Reconcile "(int \<times> int) list"
  | Interpolate time
  | Subscribe nat
  | Unsubscribe nat

fun store_step :: "store_op \<Rightarrow> store \<Rightarrow> store" where
  "store_step (Settings d) st = update_settings d st"
| "store_step (Live now a d) st = update_live now a d st"
| "store_step Success st = note_success st"
| "store_step Failure st = note_failure st"
| "store_step Wedged st = note_wedged st"
| "store_step (Optimistic a d) st = fst (apply_optimistic a d st)"
| "store_step (Reconcile e) st = reconcile_clear e st"
| "store_step (Interpolate now) st = interpolate_live_temps now st"
| "store_step (Subscribe l) st = subscribe l st"
| "store_step (Unsubscribe l) st = unsub l st"

definition store_run :: "store_op list \<Rightarrow> store \<Rightarrow> store" where
  "store_run ops st = fold store_step ops st"

lemma store_run_simps [simp]:
  "store_run [] st = st" "store_run (op # ops) st = store_run ops (store_step op st)"
  "store_run (ops @ ops') st = store_run ops' (store_run ops st)"
  by (simp_all add: store_run_def)

text \<open>The invariant: the pending bytes are well formed and are what the cache shows.\<close>

definition overlay_inv :: "store \<Rightarrow> bool" where
  "overlay_inv st \<longleftrightarrow>
     pending_ok (st_pending st)
     \<and> (\<forall>j < length (settings st). \<forall>b. map_of (st_pending st) (int j) = Some b
          \<longrightarrow> settings st ! j = b)"

lemma overlay_inv_overlay:
  assumes "pending_ok (st_pending st)" "settings st = overlay (st_pending st) xs"
  shows "overlay_inv st"
  using assms by (auto simp: overlay_inv_def nth_overlay)

lemma overlay_inv_frame:
  assumes "overlay_inv st" "settings st' = settings st" "st_pending st' = st_pending st"
  shows "overlay_inv st'"
  using assms by (simp add: overlay_inv_def)

lemma overlay_inv_drop:
  assumes "overlay_inv st" "settings st' = settings st"
    and "st_pending st' = drop_bytes e (st_pending st)"
  shows "overlay_inv st'"
proof -
  have sub: "map_of (drop_bytes e m) a = Some b \<Longrightarrow> map_of m a = Some b" for m a b
    unfolding drop_bytes_def
  proof (induction e arbitrary: m)
    case (Cons p e)
    obtain k v where p: "p = (k, v)" by (cases p)
    show ?case
      using Cons.prems Cons.IH [of "if map_of m k = Some v then AList.delete k m else m"]
      by (auto simp: p AList.delete_conv' split: if_splits)
  qed simp
  have "pending_ok (st_pending st')"
    using assms by (simp add: overlay_inv_def pending_ok_drop_bytes)
  moreover have "settings st' ! j = b"
    if "j < length (settings st')" "map_of (st_pending st') (int j) = Some b" for j b
    using assms that sub [of "st_pending st" "int j" b] by (simp add: overlay_inv_def)
  ultimately show ?thesis unfolding overlay_inv_def by blast
qed

lemma overlay_inv_step: "overlay_inv st \<Longrightarrow> overlay_inv (store_step op st)"
proof (cases op)
  case (Settings d)
  assume "overlay_inv st"
  then show ?thesis
    by (intro overlay_inv_overlay [of _ d])
      (simp_all add: Settings update_settings_fields overlay_inv_def)
next
  case (Optimistic a d)
  assume i: "overlay_inv st"
  then have ok: "pending_ok (st_pending st)" by (simp add: overlay_inv_def)
  show ?thesis
    unfolding Optimistic store_step.simps
  proof (rule apply_optimistic_cases [of a d st])
    assume "apply_optimistic a d st = (st, False)"
    then show "overlay_inv (fst (apply_optimistic a d st))" using i by simp
  qed (auto intro!: overlay_inv_overlay simp: pending_ok_put_bytes [OF ok])
next
  case (Reconcile e)
  assume "overlay_inv st"
  then show ?thesis by (rule overlay_inv_drop) (simp_all add: Reconcile)
qed (auto elim!: overlay_inv_frame simp: update_live_fields note_fields)

lemma overlay_inv_new: "overlay_inv (new_store g sa step)"
  by (simp add: overlay_inv_def new_store_def)

lemma overlay_inv_run: "overlay_inv st \<Longrightarrow> overlay_inv (store_run ops st)"
  by (induction ops arbitrary: st) (auto simp: overlay_inv_step)

section \<open>Availability as a function of the history\<close>

text \<open>The reports since the last good read, most recent first.\<close>

definition since_success :: "store_op list \<Rightarrow> store_op list" where
  "since_success ops = takeWhile (\<lambda>op. op \<noteq> Success) (rev ops)"

definition offline :: "int \<Rightarrow> store_op list \<Rightarrow> bool" where
  "offline grace ops \<longleftrightarrow>
     Wedged \<in> set (since_success ops)
     \<or> grace \<le> int (count_list (since_success ops) Failure)"

lemma since_success_snoc:
  "since_success (ops @ [op]) = (if op = Success then [] else op # since_success ops)"
  by (simp add: since_success_def)

lemma store_step_verdict:
  "st_grace (store_step op st) = st_grace st"
  "op \<notin> {Success, Failure, Wedged} \<Longrightarrow>
     st_available (store_step op st) = st_available st
     \<and> st_fail_streak (store_step op st) = st_fail_streak st"
  by (cases op; simp add: update_settings_fields update_live_fields note_fields
      apply_optimistic_frame)+

text \<open>The verdict and the streak counter, against the history.\<close>

definition verdict_inv :: "int \<Rightarrow> store_op list \<Rightarrow> store \<Rightarrow> bool" where
  "verdict_inv grace ops st \<longleftrightarrow>
     st_grace st = grace \<and> (st_available st = Some False \<longleftrightarrow> offline grace ops)
     \<and> int (count_list (since_success ops) Failure) \<le> st_fail_streak st
     \<and> (Wedged \<in> set (since_success ops) \<longrightarrow> grace \<le> st_fail_streak st)
     \<and> (\<not> offline grace ops \<longrightarrow>
          st_fail_streak st = int (count_list (since_success ops) Failure))"

lemma verdict_inv_step:
  assumes "1 \<le> grace" "verdict_inv grace ops st"
  shows "verdict_inv grace (ops @ [op]) (store_step op st)"
proof -
  consider "op = Success" | "op = Failure" | "op = Wedged" | "op \<notin> {Success, Failure, Wedged}"
    by blast
  then show ?thesis
  proof cases
    case 1
    then show ?thesis
      using assms by (simp add: verdict_inv_def note_fields offline_def since_success_snoc)
  next
    case 2
    then show ?thesis
      using assms by (auto simp: verdict_inv_def note_fields offline_def since_success_snoc)
  next
    case 3
    then show ?thesis
      using assms by (auto simp: verdict_inv_def note_fields offline_def since_success_snoc)
  next
    case 4
    then show ?thesis
      using assms store_step_verdict [of op st]
      by (auto simp: verdict_inv_def offline_def since_success_snoc)
  qed
qed

lemma verdict_inv_run:
  assumes "1 \<le> grace"
  shows "verdict_inv grace ops (store_run ops (new_store grace sa step))"
proof (induction ops rule: rev_induct)
  case Nil
  show ?case
    using assms by (simp add: verdict_inv_def new_store_def offline_def since_success_def)
next
  case (snoc op ops)
  then show ?case by (simp add: verdict_inv_step [OF assms])
qed

section \<open>Interpolation moves one degree\<close>

lemma ease_unit:
  assumes "st_step st = 1" "map_of (sn_live (st_snapshot st)) a = Some (c # cs)"
    and "\<bar>c\<bar> < 2 ^ 52"
    and t: "settings_byte (st_snapshot st) b = t"
  shows "map_of (sn_live (st_snapshot (ease a b st))) a =
     Some (if t = c then c # cs else [c + sgn (t - c)])"
proof (cases "t = c")
  case True
  then show ?thesis using assms by (simp add: ease_def Let_def)
next
  case False
  have s: "max (- 1) (min 1 (of_int (t - c) :: rat)) = of_int (sgn (t - c))"
    using False by (cases "t < c") (auto simp: max_def min_def sgn_if not_less)
  have "\<bar>c + sgn (t - c)\<bar> < 2 ^ 53" using assms(3) by (auto simp: sgn_if)
  then have "fl (of_int (c + sgn (t - c))) = of_int (c + sgn (t - c))" by (rule fl_of_int)
  then have "rhe (fl (of_int c + of_int (sgn (t - c)))) = c + sgn (t - c)"
    by (metis of_int_add rhe_of_int)
  then show ?thesis
    using assms False s by (simp add: ease_def Let_def set_live_def AList.update_conv')
qed

lemma ease_other:
  "a' \<noteq> a \<Longrightarrow> map_of (sn_live (st_snapshot (ease a b st))) a' = map_of (sn_live (st_snapshot st)) a'"
  by (auto simp: ease_def Let_def set_live_def AList.update_conv' split: option.splits)

lemma settings_byte_ease [simp]:
  "settings_byte (st_snapshot (ease a b st)) x = settings_byte (st_snapshot st) x"
  by (simp add: settings_byte_def)

section \<open>Properties\<close>

text \<open>In every history of store operations, however polls, commands and
  reconciliations interleave, each byte that is pending in the overlay is the
  byte the cached settings block shows at its address.\<close>

theorem pending_always_visible:
  assumes "st = store_run ops (new_store grace sa step)"
    and "map_of (st_pending st) (int j) = Some b" "j < length (settings st)"
  shows "settings st ! j = b"
  using assms overlay_inv_run [OF overlay_inv_new, of ops grace sa step]
  by (simp add: overlay_inv_def)

theorem pending_always_visible_witness:
  "settings (store_run [Settings [9, 9, 9], Optimistic 1 [7], Settings [3, 3, 3]]
     (new_store 4 12 1)) ! 1 = 7"
  by (rule pending_always_visible [OF refl, of _ _ _ _ 1 7]) code_simp+

lemma store_step_pending:
  "(case op of Optimistic _ _ \<Rightarrow> False | Reconcile _ \<Rightarrow> False | _ \<Rightarrow> True) \<Longrightarrow>
     st_pending (store_step op st) = st_pending st"
  by (cases op) (auto simp: update_settings_fields update_live_fields note_fields)

lemma store_run_pending:
  "\<forall>op \<in> set ops. (case op of Optimistic _ _ \<Rightarrow> False | Reconcile _ \<Rightarrow> False | _ \<Rightarrow> True) \<Longrightarrow>
     st_pending (store_run ops st) = st_pending st"
  by (induction ops arbitrary: st) (auto simp: store_step_pending)

lemma optimistic_pending:
  assumes "apply_optimistic a d st = (st', True)" "k < length d"
  shows "map_of (st_pending st') (a + int k) = Some (d ! k)"
  using assms by (cases rule: apply_optimistic_cases [of a d st]) (auto simp: map_of_put_bytes)

text \<open>After a command is reflected, no sequence of polls, verdicts or
  interpolations takes its bytes away: the cache shows them until a reconcile
  or another command.\<close>

theorem optimistic_survives_polls:
  assumes "st = store_run hist (new_store grace sa step)"
    and "apply_optimistic a d st = (st', True)" "k < length d"
    and "\<forall>op \<in> set ops. (case op of Optimistic _ _ \<Rightarrow> False | Reconcile _ \<Rightarrow> False | _ \<Rightarrow> True)"
    and "nat a + k < length (settings (store_run ops st'))"
  shows "settings (store_run ops st') ! (nat a + k) = d ! k"
proof -
  have a: "0 \<le> a" using assms(2) by (cases rule: apply_optimistic_cases [of a d st]) auto
  have "store_run (ops) st' = store_run (hist @ Optimistic a d # ops) (new_store grace sa step)"
    using assms(1,2) by simp
  then have "overlay_inv (store_run ops st')" by (simp only: overlay_inv_run overlay_inv_new)
  moreover have "map_of (st_pending (store_run ops st')) (int (nat a + k)) = Some (d ! k)"
    using optimistic_pending [OF assms(2,3)] a by (simp add: store_run_pending [OF assms(4)])
  ultimately show ?thesis using assms(5) by (simp add: overlay_inv_def)
qed

theorem optimistic_survives_polls_witness:
  "settings (store_run [Settings [3, 3, 3], Failure, Settings [4, 4, 4]]
     (fst (apply_optimistic 1 [7, 8] (store_run [Settings [9, 9, 9]] (new_store 4 12 1)))))
     ! (nat 1 + 1) = [7, 8] ! 1"
proof -
  let ?st = "store_run [Settings [9, 9, 9]] (new_store 4 12 1)"
  let ?ops = "[Settings [3, 3, 3], Failure, Settings [4, 4, 4]]"
  have o: "apply_optimistic 1 [7, 8] ?st = (fst (apply_optimistic 1 [7, 8] ?st), True)"
    by (simp add: apply_optimistic_def update_settings_fields overlay_def new_store_def)
  have l: "nat 1 + 1 < length (settings (store_run ?ops (fst (apply_optimistic 1 [7, 8] ?st))))"
    by code_simp
  show ?thesis by (rule optimistic_survives_polls [OF refl o _ _ l]) simp_all
qed

text \<open>C29: The availability verdict is a function of the history: the machine is
  reported offline exactly when, since the last good read, a wedge was declared
  or at least \<open>availability_grace\<close> polls failed.\<close>

theorem available_iff_history:
  assumes "1 \<le> grace"
  shows "available (store_run ops (new_store grace sa step)) \<longleftrightarrow>
     \<not> (Wedged \<in> set (takeWhile (\<lambda>op. op \<noteq> Success) (rev ops))
        \<or> grace \<le> int (count_list (takeWhile (\<lambda>op. op \<noteq> Success) (rev ops)) Failure))"
  using verdict_inv_run [OF assms, of ops sa step]
  by (auto simp: verdict_inv_def available_def offline_def since_success_def split: option.splits)

theorem available_iff_history_witness:
  "available (store_run [Success, Failure, Failure, Settings []] (new_store 3 12 1)) \<longleftrightarrow>
     \<not> (Wedged \<in> set (takeWhile (\<lambda>op. op \<noteq> Success) (rev [Success, Failure, Failure, Settings []]))
        \<or> 3 \<le> int (count_list (takeWhile (\<lambda>op. op \<noteq> Success)
              (rev [Success, Failure, Failure, Settings []])) Failure))"
  by (rule available_iff_history) simp

text \<open>A reconcile of one command leaves the pending byte of every other command
  in place when the two bytes differ: the newest intent is not reverted by an
  older command that finishes late.\<close>

theorem reconcile_keeps_newer_intent:
  assumes "st = store_run hist (new_store grace sa step)" "distinct (map fst old)"
    and "apply_optimistic a d st = (st', True)" "k < length d"
    and "map_of old (a + int k) \<noteq> Some (d ! k)"
    and "nat a + k < length data"
  shows "settings (update_settings data (reconcile_clear old st')) ! (nat a + k) = d ! k"
proof -
  have a: "0 \<le> a" using assms(3) by (cases rule: apply_optimistic_cases [of a d st]) auto
  have p: "map_of (st_pending st') (a + int k) = Some (d ! k)"
    by (rule optimistic_pending [OF assms(3,4)])
  have "map_of (drop_bytes old (st_pending st')) (a + int k) = Some (d ! k)"
    using assms(2,5) p by (simp add: map_of_drop_bytes)
  moreover have "pending_ok (drop_bytes old (st_pending st'))"
  proof -
    have "st' = store_run (hist @ [Optimistic a d]) (new_store grace sa step)"
      using assms(1,3) by simp
    then have "overlay_inv st'" by (simp only: overlay_inv_run overlay_inv_new)
    then show ?thesis by (simp add: overlay_inv_def pending_ok_drop_bytes)
  qed
  ultimately show ?thesis
    using assms(6) a by (simp add: update_settings_fields nth_overlay)
qed

theorem reconcile_keeps_newer_intent_witness:
  "settings (update_settings [3, 3, 3] (reconcile_clear [(1, 5)]
     (fst (apply_optimistic 1 [7]
        (store_run [Settings [9, 9, 9], Optimistic 1 [5]] (new_store 4 12 1))))))
     ! (nat 1 + 0) = [7] ! 0"
proof -
  let ?st = "store_run [Settings [9, 9, 9], Optimistic 1 [5]] (new_store 4 12 1)"
  have o: "apply_optimistic 1 [7] ?st = (fst (apply_optimistic 1 [7] ?st), True)"
    by code_simp
  show ?thesis by (rule reconcile_keeps_newer_intent [OF refl _ o]) simp_all
qed

text \<open>That protection compares values only. When a user sets a byte to x, then to
  y, then to x again, the reconcile of the first command removes the overlay of
  the third, so the next poll shows the machine's old byte although the newest
  intent is still waiting to be written.\<close>

theorem reconcile_reverts_repeated_intent:
  assumes "st_have_data st" "0 \<le> a" "is_byte x" "is_byte y"
    and "a < int (length (settings st))" "a < int (length data)" "pending_ok (st_pending st)"
  defines "third \<equiv> fst (apply_optimistic a [x] (fst (apply_optimistic a [y]
              (fst (apply_optimistic a [x] st)))))"
  shows "settings third ! nat a = x
    \<and> settings (update_settings data (reconcile_clear [(a, x)] third)) ! nat a = data ! nat a"
proof -
  have step: "st_have_data (fst (apply_optimistic a [z] s))
      \<and> length (settings (fst (apply_optimistic a [z] s))) = length (settings s)
      \<and> st_pending (fst (apply_optimistic a [z] s)) = AList.update a z (st_pending s)
      \<and> settings (fst (apply_optimistic a [z] s))
        = overlay (AList.update a z (st_pending s)) (settings s)"
    if "st_have_data s" "is_byte z" "a < int (length (settings s))" for z s
    using that assms(2)
    by (auto simp: apply_optimistic_def apply_pending_overlay is_byte_def)
  define s1 where "s1 = fst (apply_optimistic a [x] st)"
  define s2 where "s2 = fst (apply_optimistic a [y] s1)"
  have s1: "st_have_data s1" "length (settings s1) = length (settings st)"
    "st_pending s1 = AList.update a x (st_pending st)"
    using step [of st x] assms(1,3,5) by (auto simp: s1_def)
  have s2: "st_have_data s2" "length (settings s2) = length (settings st)"
    "st_pending s2 = AList.update a y (st_pending s1)"
    using step [of s1 y] s1 assms(4,5) by (auto simp: s2_def)
  have t: "third = fst (apply_optimistic a [x] s2)" by (simp add: third_def s1_def s2_def)
  have s3: "st_pending third = AList.update a x (st_pending s2)"
    "settings third = overlay (AList.update a x (st_pending s2)) (settings s2)"
    using step [of s2 x] s2 assms(3,5) by (auto simp: t)
  have ok: "pending_ok (st_pending third)"
    using assms(2-4,7) by (simp add: s3 s2 s1 pending_ok_update)
  have "settings third ! nat a = x"
    using ok s2 assms(2,5) unfolding s3 by (simp add: nth_overlay AList.update_conv' nat_less_iff)
  moreover have "map_of (drop_bytes [(a, x)] (st_pending third)) a = None"
    by (subst map_of_drop_bytes) (simp_all add: s3 AList.update_conv')
  then have "settings (update_settings data (reconcile_clear [(a, x)] third)) ! nat a = data ! nat a"
    using pending_ok_drop_bytes [OF ok] assms(2,6)
    by (simp add: update_settings_fields nth_overlay nat_less_iff)
  ultimately show ?thesis by blast
qed

theorem reconcile_reverts_repeated_intent_witness:
  "settings (fst (apply_optimistic 2 [5] (fst (apply_optimistic 2 [7]
      (fst (apply_optimistic 2 [5] (update_settings [1, 1, 1] (new_store 4 12 1)))))))) ! nat 2 = 5
   \<and> settings (update_settings [1, 1, 1] (reconcile_clear [(2, 5)]
      (fst (apply_optimistic 2 [5] (fst (apply_optimistic 2 [7]
      (fst (apply_optimistic 2 [5] (update_settings [1, 1, 1] (new_store 4 12 1))))))))))
     ! nat 2 = [1, 1, 1] ! nat 2"
  by (rule reconcile_reverts_repeated_intent)
    (simp_all add: update_settings_fields is_byte_def new_store_def)

text \<open>With the default step, an interpolation moves a stale live temperature by
  exactly one degree towards its setpoint and never past it, does nothing once
  it is reached, and leaves every other register and the settings alone.\<close>

theorem interpolation_one_degree:
  assumes "st_step st = 1" "st_have_data st" "st_stale_after st \<le> now - st_last_live st"
    and "settings_byte (st_snapshot st) STANDBY = 0"
    and "map_of (sn_live (st_snapshot st)) CURRENT_BREW_TEMP = Some [c]" "\<bar>c\<bar> < 2 ^ 52"
  defines "t \<equiv> settings_byte (st_snapshot st) BREW_BOILER_TEMP"
  shows "map_of (sn_live (st_snapshot (interpolate_live_temps now st))) CURRENT_BREW_TEMP
       = Some [c + sgn (t - c)]
     \<and> (\<bar>t - (c + sgn (t - c))\<bar> = max 0 (\<bar>t - c\<bar> - 1))
     \<and> settings (interpolate_live_temps now st) = settings st
     \<and> map_of (sn_live (st_snapshot (interpolate_live_temps now st))) CURRENT_PRESSURE
       = map_of (sn_live (st_snapshot st)) CURRENT_PRESSURE"
proof -
  let ?e = "ease CURRENT_BREW_TEMP BREW_BOILER_TEMP st"
  have i: "interpolate_live_temps now st =
      (if settings_byte (st_snapshot st) SERVICE_BOILER_ENABLE \<noteq> 0
       then ease CURRENT_SERVICE_TEMP SERVICE_BOILER_TEMP ?e else ?e)"
    using assms(2-4) by (simp add: interpolate_live_temps_def Let_def)
  have n: "CURRENT_BREW_TEMP \<noteq> CURRENT_SERVICE_TEMP" "CURRENT_PRESSURE \<noteq> CURRENT_SERVICE_TEMP"
    "CURRENT_PRESSURE \<noteq> CURRENT_BREW_TEMP"
    by (simp_all add: address_defs)
  have "map_of (sn_live (st_snapshot ?e)) CURRENT_BREW_TEMP = Some [c + sgn (t - c)]"
    using ease_unit [OF assms(1,5,6), of BREW_BOILER_TEMP t] by (auto simp: t_def)
  then have "map_of (sn_live (st_snapshot (interpolate_live_temps now st))) CURRENT_BREW_TEMP
       = Some [c + sgn (t - c)]"
    using n by (simp add: i ease_other)
  moreover have "\<bar>t - (c + sgn (t - c))\<bar> = max 0 (\<bar>t - c\<bar> - 1)" by (auto simp: sgn_if)
  moreover have "map_of (sn_live (st_snapshot (interpolate_live_temps now st))) CURRENT_PRESSURE
       = map_of (sn_live (st_snapshot st)) CURRENT_PRESSURE"
    using n by (simp add: i ease_other)
  ultimately show ?thesis by simp
qed

theorem interpolation_one_degree_witness:
  "map_of (sn_live (st_snapshot (interpolate_live_temps 20
      (update_live 0 CURRENT_BREW_TEMP [90] (update_settings [0, 0, 105] (new_store 4 12 1))))))
     CURRENT_BREW_TEMP = Some [91]"
proof -
  let ?st = "update_live 0 CURRENT_BREW_TEMP [90] (update_settings [0, 0, 105] (new_store 4 12 1))"
  have f: "st_step ?st = 1" "st_have_data ?st" "st_stale_after ?st \<le> 20 - st_last_live ?st"
    "settings_byte (st_snapshot ?st) STANDBY = 0"
    "map_of (sn_live (st_snapshot ?st)) CURRENT_BREW_TEMP = Some [90]"
    "settings_byte (st_snapshot ?st) BREW_BOILER_TEMP = 105"
    by code_simp+
  show ?thesis using interpolation_one_degree [OF f(1-5)] by (simp add: f(6))
qed

end
