(* ===== verification/Config.thy ===== *)
theory Config
  imports PyFloat
begin

text \<open>
  The configuration of the bridge, \<open>bridge/r60v_broker/config.py\<close>: the environment
  readers, the settings and the MQTT topics. The environment is a partial map;
  \<open>float()\<close> of a variable gives a \<open>pyfloat\<close>, which may be infinite or NaN.
\<close>

section \<open>Environment readers\<close>

type_synonym environ = "string \<Rightarrow> string option"

definition env_str :: "environ \<Rightarrow> string \<Rightarrow> string \<Rightarrow> string" where
  "env_str env name d = (case env name of None \<Rightarrow> d | Some v \<Rightarrow> v)"

definition env_int :: "environ \<Rightarrow> string \<Rightarrow> int \<Rightarrow> int" where
  "env_int env name d =
     (case env name of
        None \<Rightarrow> d
      | Some v \<Rightarrow> (case py_int 10 v of Inl _ \<Rightarrow> d | Inr n \<Rightarrow> n))"

definition env_float :: "environ \<Rightarrow> string \<Rightarrow> pyfloat \<Rightarrow> pyfloat" where
  "env_float env name d =
     (case env name of
        None \<Rightarrow> d
      | Some v \<Rightarrow> (case py_float v of Inl _ \<Rightarrow> d | Inr x \<Rightarrow> x))"

definition env_bool :: "environ \<Rightarrow> string \<Rightarrow> bool \<Rightarrow> bool" where
  "env_bool env name d =
     (case env name of
        None \<Rightarrow> d
      | Some raw \<Rightarrow> lower (strip raw) \<in> {''1'', ''true'', ''yes'', ''on''})"

section \<open>The settings\<close>

record config =
  cf_machine_host :: string
  cf_machine_port :: int
  cf_frontend_enabled :: bool
  cf_frontend_host :: string
  cf_frontend_port :: int
  cf_push_enabled :: bool
  cf_push_host :: string
  cf_push_port :: int
  cf_mqtt_host :: string
  cf_mqtt_port :: int
  cf_mqtt_username :: string
  cf_mqtt_password :: string
  cf_mqtt_base_topic :: string
  cf_discovery_prefix :: string
  cf_settings_interval :: pyfloat
  cf_live_interval :: pyfloat
  cf_publish_interval :: pyfloat
  cf_request_gap :: pyfloat
  cf_request_timeout :: pyfloat
  cf_device_id :: string
  cf_device_name :: string

definition DEFAULT_HOST :: string where
  "DEFAULT_HOST = ''192.168.1.1''"

definition DEFAULT_PORT :: int where
  "DEFAULT_PORT = 1774"

definition from_env :: "environ \<Rightarrow> config" where
  "from_env env =
     \<lparr>cf_machine_host = env_str env ''R60V_HOST'' DEFAULT_HOST,
      cf_machine_port = env_int env ''R60V_PORT'' DEFAULT_PORT,
      cf_frontend_enabled = env_bool env ''R60V_FRONTEND_ENABLED'' True,
      cf_frontend_host = env_str env ''R60V_FRONTEND_HOST'' ''0.0.0.0'',
      cf_frontend_port = env_int env ''R60V_FRONTEND_PORT'' DEFAULT_PORT,
      cf_push_enabled = env_bool env ''R60V_PUSH_ENABLED'' False,
      cf_push_host = env_str env ''R60V_PUSH_HOST'' ''0.0.0.0'',
      cf_push_port = env_int env ''R60V_PUSH_PORT'' 8788,
      cf_mqtt_host = env_str env ''MQTT_HOST'' [],
      cf_mqtt_port = env_int env ''MQTT_PORT'' 1883,
      cf_mqtt_username = env_str env ''MQTT_USERNAME'' [],
      cf_mqtt_password = env_str env ''MQTT_PASSWORD'' [],
      cf_mqtt_base_topic = env_str env ''R60V_BASE_TOPIC'' ''rocket-r60v'',
      cf_discovery_prefix = env_str env ''MQTT_DISCOVERY_PREFIX'' ''homeassistant'',
      cf_settings_interval = env_float env ''R60V_SETTINGS_INTERVAL'' (Fin 60),
      cf_live_interval = env_float env ''R60V_LIVE_INTERVAL'' (Fin 10),
      cf_publish_interval = env_float env ''R60V_PUBLISH_INTERVAL'' (Fin 5),
      cf_request_gap = env_float env ''R60V_REQUEST_GAP'' (to_float (3 / 10)),
      cf_request_timeout = env_float env ''R60V_REQUEST_TIMEOUT'' (Fin 5),
      cf_device_id = env_str env ''R60V_DEVICE_ID'' ''rocket_r60v'',
      cf_device_name = env_str env ''R60V_DEVICE_NAME'' ''Rocket R60V''\<rparr>"

definition mqtt_enabled :: "config \<Rightarrow> bool" where
  "mqtt_enabled c \<longleftrightarrow> cf_mqtt_host c \<noteq> []"

section \<open>Topics\<close>

definition availability_topic :: "config \<Rightarrow> string" where
  "availability_topic c = cf_mqtt_base_topic c @ ''/status''"

definition state_topic :: "config \<Rightarrow> string \<Rightarrow> string" where
  "state_topic c key = cf_mqtt_base_topic c @ ''/'' @ key @ ''/state''"

definition command_topic :: "config \<Rightarrow> string \<Rightarrow> string" where
  "command_topic c key = cf_mqtt_base_topic c @ ''/'' @ key @ ''/set''"

definition discovery_topic :: "config \<Rightarrow> string \<Rightarrow> string \<Rightarrow> string" where
  "discovery_topic c component key =
     cf_discovery_prefix c @ ''/'' @ component @ ''/'' @ cf_device_id c @ ''/'' @ key @ ''/config''"

definition unique_id :: "config \<Rightarrow> string \<Rightarrow> string" where
  "unique_id c key = cf_device_id c @ ''_'' @ key"

definition climate_current_topic :: "config \<Rightarrow> string \<Rightarrow> string" where
  "climate_current_topic c key = cf_mqtt_base_topic c @ ''/'' @ key @ ''/current''"

definition climate_target_state_topic :: "config \<Rightarrow> string \<Rightarrow> string" where
  "climate_target_state_topic c key = cf_mqtt_base_topic c @ ''/'' @ key @ ''/target''"

definition climate_target_command_topic :: "config \<Rightarrow> string \<Rightarrow> string" where
  "climate_target_command_topic c key = cf_mqtt_base_topic c @ ''/'' @ key @ ''/target/set''"

definition climate_mode_topic :: "config \<Rightarrow> string \<Rightarrow> string" where
  "climate_mode_topic c key = cf_mqtt_base_topic c @ ''/'' @ key @ ''/mode''"

lemmas topic_defs =
  availability_topic_def state_topic_def command_topic_def climate_current_topic_def
  climate_target_state_topic_def climate_target_command_topic_def climate_mode_topic_def

end
