(* ===== verification/Mqtt.thy ===== *)
theory Mqtt
  imports Store Config
begin

text \<open>
  The MQTT side of the bridge: the wrapper of \<open>bridge/r60v_broker/mqtt_bridge.py\<close>
  and the projection of the store in \<open>bridge/r60v_broker/publisher.py\<close>. The
  \<open>paho\<close> client is a log of retained messages and a list of subscriptions. The
  projection consumes the change events of the store. The discovery documents are
  in \<open>Discovery\<close>.
\<close>

section \<open>The wrapper\<close>

record mqtt =
  mq_connected :: bool
  mq_log :: "(string \<times> string) list"
  mq_subs :: "string list"

definition new_mqtt :: mqtt where
  "new_mqtt = \<lparr>mq_connected = False, mq_log = [], mq_subs = []\<rparr>"

definition mq_publish :: "string \<Rightarrow> string \<Rightarrow> mqtt \<Rightarrow> mqtt" where
  "mq_publish topic payload q =
     (if mq_connected q then q\<lparr>mq_log := mq_log q @ [(topic, payload)]\<rparr> else q)"

text \<open>\<open>str(value)\<close>. The floats are tenths of a bar, whose shortest representation has
  one decimal.\<close>

fun py_str :: "pyval \<Rightarrow> string" where
  "py_str (VInt n) = int_str n"
| "py_str (VStr s) = s"
| "py_str (VFloat x) = (if x < 0 then ''-'' @ fmt_1f (- x) else fmt_1f x)"

definition publish_availability :: "config \<Rightarrow> bool \<Rightarrow> mqtt \<Rightarrow> mqtt" where
  "publish_availability c online =
     mq_publish (availability_topic c) (if online then ''online'' else ''offline'')"

definition publish_state :: "config \<Rightarrow> string \<Rightarrow> pyval \<Rightarrow> mqtt \<Rightarrow> mqtt" where
  "publish_state c key v = mq_publish (state_topic c key) (py_str v)"

definition publish_climate :: "config \<Rightarrow> string \<Rightarrow> pyval \<Rightarrow> pyval \<Rightarrow> mqtt \<Rightarrow> mqtt" where
  "publish_climate c key cur target q =
     mq_publish (climate_mode_topic c key) ''heat''
       (mq_publish (climate_target_state_topic c key) (py_str target)
         (mq_publish (climate_current_topic c key) (py_str cur) q))"

definition on_connect :: "config \<Rightarrow> mqtt \<Rightarrow> mqtt" where
  "on_connect c q =
     publish_availability c True
       (q\<lparr>mq_subs := mq_subs q
            @ map (\<lambda>e. command_topic c (en_key e)) (filter en_writable ENTITIES)
            @ map (\<lambda>cl. climate_target_command_topic c (cl_key cl)) CLIMATE_ENTITIES\<rparr>)"

text \<open>\<open>_on_message\<close>: the command handed to the callback, if any.\<close>

definition on_message :: "config \<Rightarrow> string \<Rightarrow> string \<Rightarrow> (string \<times> string) option" where
  "on_message c topic payload =
     (case find (\<lambda>e. en_writable e \<and> topic = command_topic c (en_key e)) ENTITIES of
        Some e \<Rightarrow> Some (en_key e, payload)
      | None \<Rightarrow>
          (case find (\<lambda>cl. topic = climate_target_command_topic c (cl_key cl)) CLIMATE_ENTITIES of
             Some cl \<Rightarrow> Some (cl_key cl, payload)
           | None \<Rightarrow> None))"

definition mq_disconnect :: "config \<Rightarrow> mqtt \<Rightarrow> mqtt" where
  "mq_disconnect c q = (publish_availability c False q)\<lparr>mq_connected := False\<rparr>"

section \<open>The projection of the store\<close>

record publisher =
  pb_last :: "bool option"
  pb_seen :: nat

text \<open>\<open>_on_store_change\<close>, given the verdict read from the store.\<close>

definition on_store_change :: "config \<Rightarrow> bool \<Rightarrow> publisher \<times> mqtt \<Rightarrow> publisher \<times> mqtt" where
  "on_store_change c verdict pq =
     (let (p, q) = pq
      in if Some verdict \<noteq> pb_last p
         then (p\<lparr>pb_last := Some verdict\<rparr>, publish_availability c verdict q)
         else (p, q))"

text \<open>The publisher is the listener 0 of the store; \<open>pb_seen\<close> counts the events it has
  been called for.\<close>

definition PUBLISHER :: nat where
  "PUBLISHER = 0"

definition deliver :: "config \<Rightarrow> store \<Rightarrow> publisher \<times> mqtt \<Rightarrow> publisher \<times> mqtt" where
  "deliver c st pq =
     (let (p, q) = pq;
          evs = filter (\<lambda>e. fst e = PUBLISHER) (drop (pb_seen p) (st_events st));
          (p, q) = fold (\<lambda>e. on_store_change c (snd e)) evs (p, q)
      in (p\<lparr>pb_seen := length (st_events st)\<rparr>, q))"

definition new_publisher :: publisher where
  "new_publisher = \<lparr>pb_last = None, pb_seen = 0\<rparr>"

text \<open>\<open>publish\<close>: an entity whose decoder raises is skipped.\<close>

definition publish_entity :: "config \<Rightarrow> snapshot \<Rightarrow> entity \<Rightarrow> mqtt \<Rightarrow> mqtt" where
  "publish_entity c snap e q =
     (case en_decode e snap of Inl _ \<Rightarrow> q | Inr v \<Rightarrow> publish_state c (en_key e) v q)"

definition publish_thermostat :: "config \<Rightarrow> snapshot \<Rightarrow> climate_entity \<Rightarrow> mqtt \<Rightarrow> mqtt" where
  "publish_thermostat c snap cl q =
     (case (cl_current cl snap, cl_target cl snap) of
        (Inr cur, Inr target) \<Rightarrow> publish_climate c (cl_key cl) cur target q
      | _ \<Rightarrow> q)"

definition publish :: "config \<Rightarrow> time \<Rightarrow> store \<times> mqtt \<Rightarrow> store \<times> mqtt" where
  "publish c now sq =
     (let (st, q) = sq
      in if \<not> st_have_data st then (st, q)
         else
           let st = interpolate_live_temps now st;
               snap = st_snapshot st;
               q = fold (publish_entity c snap) ENTITIES q
           in (st, fold (publish_thermostat c snap) CLIMATE_ENTITIES q))"

section \<open>Availability messages\<close>

definition last_availability :: "config \<Rightarrow> mqtt \<Rightarrow> string option" where
  "last_availability c q =
     (let ms = filter (\<lambda>m. fst m = availability_topic c) (mq_log q)
      in if ms = [] then None else Some (snd (last ms)))"

lemma last_availability_publish:
  "last_availability c (mq_publish topic payload q) =
     (if mq_connected q \<and> topic = availability_topic c then Some payload
      else last_availability c q)"
  by (simp add: last_availability_def mq_publish_def Let_def)

lemma mq_publish_frame [simp, frame_simps]:
  "mq_connected (mq_publish t p q) = mq_connected q" "mq_subs (mq_publish t p q) = mq_subs q"
  by (simp_all add: mq_publish_def)

lemma publish_availability_frame [simp, frame_simps]:
  "mq_connected (publish_availability c b q) = mq_connected q"
  by (simp add: publish_availability_def)

lemma last_availability_publish_availability:
  "mq_connected q \<Longrightarrow>
     last_availability c (publish_availability c b q) = Some (if b then ''online'' else ''offline'')"
  by (simp add: publish_availability_def last_availability_publish)

definition verdict_msg :: "bool \<Rightarrow> string" where
  "verdict_msg b = (if b then ''online'' else ''offline'')"

text \<open>The projection and the wire agree: what was last published is the verdict last
  seen.\<close>

definition mirrored :: "config \<Rightarrow> publisher \<times> mqtt \<Rightarrow> bool" where
  "mirrored c pq \<longleftrightarrow> mq_connected (snd pq)
     \<and> (\<forall>b. pb_last (fst pq) = Some b \<longrightarrow> last_availability c (snd pq) = Some (verdict_msg b))"

lemma mirrored_on_store_change:
  "mirrored c pq \<Longrightarrow>
     mirrored c (on_store_change c b pq) \<and> pb_last (fst (on_store_change c b pq)) = Some b"
  by (cases pq)
    (auto simp: mirrored_def on_store_change_def last_availability_publish_availability verdict_msg_def)

lemma mirrored_fold:
  "mirrored c pq \<Longrightarrow> evs \<noteq> [] \<Longrightarrow>
     mirrored c (fold (\<lambda>e. on_store_change c (snd e)) evs pq)
     \<and> pb_last (fst (fold (\<lambda>e. on_store_change c (snd e)) evs pq)) = Some (snd (last evs))"
proof (induction evs rule: rev_induct)
  case (snoc e evs)
  then show ?case using mirrored_on_store_change [of c _ "snd e"] by (cases "evs = []") auto
qed simp

section \<open>Events of the store\<close>

text \<open>An operation notifies the listeners at most once, at its end: every event it
  appends carries the verdict it leaves, and a change of verdict is announced.\<close>

definition announced :: "store \<Rightarrow> store \<Rightarrow> bool" where
  "announced st st' \<longleftrightarrow>
     (\<exists>evs. st_events st' = st_events st @ evs \<and> (\<forall>e \<in> set evs. snd e = available st')
        \<and> (available st' \<noteq> available st \<longrightarrow> map fst evs = st_listeners st'))"

lemma announced_quiet:
  "st_events st' = st_events st \<Longrightarrow> available st' = available st \<Longrightarrow> announced st st'"
  by (auto simp: announced_def)

lemma announced_notify:
  "st_events st' = st_events st \<Longrightarrow> announced st (notify st')"
proof -
  assume a: "st_events st' = st_events st"
  have "st_events (notify st') = st_events st @ map (\<lambda>l. (l, available st')) (st_listeners st')"
    by (simp add: notify_def a)
  then show ?thesis unfolding announced_def by (intro exI conjI) (auto simp: comp_def)
qed

lemma st_events_frame [simp]:
  "st_events (ease a b st) = st_events st"
  "st_events (interpolate_live_temps now st) = st_events st"
  "st_events (reconcile_clear e st) = st_events st"
  "st_events (subscribe l st) = st_events st" "st_events (unsub l st) = st_events st"
  by (auto simp: ease_def interpolate_live_temps_def reconcile_clear_def subscribe_def unsub_def
      Let_def split: option.split)

lemma available_cong: "st_available st' = st_available st \<Longrightarrow> available st' = available st"
  by (simp add: available_def)

lemma announced_set_available:
  assumes "st_events st' = st_events st" "st_available st' = st_available st"
  shows "announced st (set_available b st')"
proof (cases "st_available st' = Some b")
  case True
  then show ?thesis using assms by (simp add: set_available_def announced_quiet available_cong)
next
  case False
  then show ?thesis
    using announced_notify [of "st'\<lparr>st_available := Some b\<rparr>" st] assms(1)
    by (simp add: set_available_def)
qed

lemma announced_step: "announced st (store_step op st)"
proof (cases op)
  case (Settings d)
  then show ?thesis
    by (simp add: update_settings_def apply_pending_overlay announced_notify)
next
  case (Live now a d)
  then show ?thesis by (simp add: update_live_def announced_notify)
next
  case Success
  then show ?thesis by (simp add: note_success_def announced_set_available)
next
  case Failure
  then show ?thesis
    by (simp add: note_failure_def announced_set_available announced_quiet available_def Let_def)
next
  case Wedged
  then show ?thesis by (simp add: note_wedged_def announced_set_available)
next
  case (Optimistic a d)
  show ?thesis
    unfolding Optimistic store_step.simps
    by (rule apply_optimistic_cases [of a d st]) (simp_all add: announced_quiet announced_notify)
qed (auto intro!: announced_quiet available_cong)

definition is_subscription :: "store_op \<Rightarrow> bool" where
  "is_subscription op \<longleftrightarrow> (case op of Subscribe _ \<Rightarrow> True | Unsubscribe _ \<Rightarrow> True | _ \<Rightarrow> False)"

lemma listeners_frame [simp]:
  "st_listeners (set_available b st) = st_listeners st"
  "st_listeners (ease a b' st) = st_listeners st"
  by (auto simp: set_available_def ease_def Let_def split: option.split)

lemma store_step_listeners:
  "\<not> is_subscription op \<Longrightarrow> st_listeners (store_step op st) = st_listeners st"
proof (cases op)
  case (Optimistic a d)
  show ?thesis
    unfolding Optimistic store_step.simps
    by (rule apply_optimistic_cases [of a d st]) simp_all
qed (auto simp: is_subscription_def update_settings_def apply_pending_overlay update_live_def
    note_success_def note_failure_def note_wedged_def reconcile_clear_def
    interpolate_live_temps_def Let_def)

section \<open>The broker's wiring: every change is delivered\<close>

definition bus_step :: "config \<Rightarrow> store_op \<Rightarrow> store \<times> publisher \<times> mqtt \<Rightarrow> store \<times> publisher \<times> mqtt" where
  "bus_step c op s =
     (let (st, pq) = s; st = store_step op st in (st, deliver c st pq))"

definition bus_inv :: "config \<Rightarrow> store \<times> publisher \<times> mqtt \<Rightarrow> bool" where
  "bus_inv c s \<longleftrightarrow>
     (let (st, p, q) = s
      in st_listeners st = [PUBLISHER] \<and> pb_seen p = length (st_events st)
         \<and> mirrored c (p, q) \<and> (\<forall>b. pb_last p = Some b \<longrightarrow> b = available st)
         \<and> (pb_last p = None \<longrightarrow> available st))"

lemma bus_inv_step:
  assumes "bus_inv c s" "\<not> is_subscription op"
  shows "bus_inv c (bus_step c op s)"
proof -
  obtain st p q where s: "s = (st, p, q)" by (cases s) auto
  let ?st = "store_step op st"
  have inv: "st_listeners st = [PUBLISHER]" "pb_seen p = length (st_events st)" "mirrored c (p, q)"
    "\<forall>b. pb_last p = Some b \<longrightarrow> b = available st" "pb_last p = None \<longrightarrow> available st"
    using assms(1) by (simp_all add: bus_inv_def s)
  obtain evs where evs: "st_events ?st = st_events st @ evs" "\<forall>e \<in> set evs. snd e = available ?st"
    "available ?st \<noteq> available st \<Longrightarrow> map fst evs = st_listeners ?st"
    using announced_step [of st op] by (auto simp: announced_def)
  have l: "st_listeners ?st = [PUBLISHER]" using store_step_listeners [OF assms(2)] inv(1) by simp
  let ?evs = "filter (\<lambda>e. fst e = PUBLISHER) evs"
  define pq where "pq = fold (\<lambda>e. on_store_change c (snd e)) ?evs (p, q)"
  have step: "bus_step c op s = (?st, (fst pq)\<lparr>pb_seen := length (st_events ?st)\<rparr>, snd pq)"
    by (simp add: bus_step_def s deliver_def evs(1) inv(2) pq_def split: prod.split)
  have "mirrored c pq \<and> (\<forall>b. pb_last (fst pq) = Some b \<longrightarrow> b = available ?st)
      \<and> (pb_last (fst pq) = None \<longrightarrow> available ?st)"
  proof (cases "?evs = []")
    case True
    have "filter (\<lambda>e. fst e = x) es \<noteq> []" if "map fst es = [x]" for x and es :: "(nat \<times> bool) list"
      using that by (cases es) auto
    then have "available ?st = available st" using evs(3) l True by metis
    then show ?thesis using inv True by (simp add: pq_def)
  next
    case False
    have "snd (last ?evs) = available ?st"
      using evs(2) last_in_set [OF False] by auto
    then show ?thesis
      using mirrored_fold [OF inv(3) False] by (auto simp: pq_def)
  qed
  then show ?thesis using l by (simp add: bus_inv_def step mirrored_def)
qed

lemma bus_inv_run:
  "bus_inv c s \<Longrightarrow> \<forall>op \<in> set ops. \<not> is_subscription op \<Longrightarrow> bus_inv c (fold (bus_step c) ops s)"
  by (induction ops arbitrary: s) (auto simp: bus_inv_step)

lemma bus_inv_new:
  assumes "mq_connected q"
  shows "bus_inv c (subscribe PUBLISHER (new_store g sa step), new_publisher, q)"
  using assms by (simp add: bus_inv_def mirrored_def new_publisher_def subscribe_def new_store_def available_def)

section \<open>After a reconnect\<close>

lemma on_store_change_same:
  "pb_last (fst pq) = Some b \<Longrightarrow> on_store_change c b pq = pq"
  by (cases pq) (simp add: on_store_change_def)

lemma fold_on_store_change_same:
  "pb_last (fst pq) = Some b \<Longrightarrow> \<forall>e \<in> set evs. snd e = b \<Longrightarrow>
     fold (\<lambda>e. on_store_change c (snd e)) evs pq = pq"
  by (induction evs arbitrary: pq) (simp_all add: on_store_change_same)

lemma deliver_same:
  assumes "pb_last p = Some b" "pb_seen p = length (st_events st)"
    and "st_events st' = st_events st @ evs" "\<forall>e \<in> set evs. snd e = b"
  shows "deliver c st' (p, q) = (p\<lparr>pb_seen := length (st_events st')\<rparr>, q)"
  using assms fold_on_store_change_same [of "(p, q)" b "filter (\<lambda>e. fst e = PUBLISHER) evs" c]
  by (simp add: deliver_def)

lemma stays_offline:
  assumes "op \<noteq> Success" "\<not> available st"
  shows "\<not> available (store_step op st)"
proof -
  have "st_available st = Some False" using assms(2) by (auto simp: available_def split: option.splits)
  then have "st_available (store_step op st) = Some False"
    using assms(1)
    by (cases op) (auto simp: update_settings_fields update_live_fields note_fields apply_optimistic_frame)
  then show ?thesis by (simp add: available_def)
qed

section \<open>Properties\<close>

text \<open>The retained MQTT availability follows the store: in every history of store
  operations the last availability message is the current verdict, and an offline
  verdict has always been announced.\<close>

theorem mqtt_mirrors_verdict:
  assumes "mq_connected q" "\<forall>op \<in> set ops. \<not> is_subscription op"
    and "fold (bus_step c) ops (subscribe PUBLISHER (new_store g sa step), new_publisher, q)
       = (st, p, q')"
  shows "(\<not> available st \<longrightarrow> last_availability c q' = Some ''offline'')
     \<and> (pb_last p \<noteq> None \<longrightarrow>
          last_availability c q' = Some (if available st then ''online'' else ''offline''))"
proof -
  have "bus_inv c (st, p, q')"
    using bus_inv_run [OF bus_inv_new [OF assms(1)] assms(2), of c g sa step] assms(3) by simp
  then have m: "mirrored c (p, q')" "\<forall>b. pb_last p = Some b \<longrightarrow> b = available st"
    "pb_last p = None \<longrightarrow> available st"
    by (simp_all add: bus_inv_def)
  show ?thesis
  proof (cases "pb_last p")
    case None
    then show ?thesis using m(3) by simp
  next
    case (Some b)
    then show ?thesis using m by (simp add: mirrored_def verdict_msg_def)
  qed
qed

definition demo_config :: config where
  "demo_config = from_env (\<lambda>_. None)"

theorem mqtt_mirrors_verdict_witness:
  "\<exists>st p q. fold (bus_step demo_config) [Success, Failure, Failure]
       (subscribe PUBLISHER (new_store 2 12 1), new_publisher, new_mqtt\<lparr>mq_connected := True\<rparr>)
     = (st, p, q)
     \<and> (\<not> available st \<longrightarrow> last_availability demo_config q = Some ''offline'')
     \<and> (pb_last p \<noteq> None \<longrightarrow>
          last_availability demo_config q = Some (if available st then ''online'' else ''offline''))"
proof -
  obtain st p q where s: "fold (bus_step demo_config) [Success, Failure, Failure]
       (subscribe PUBLISHER (new_store 2 12 1), new_publisher, new_mqtt\<lparr>mq_connected := True\<rparr>)
     = (st, p, q)"
    by (cases "fold (bus_step demo_config) [Success, Failure, Failure]
       (subscribe PUBLISHER (new_store 2 12 1), new_publisher, new_mqtt\<lparr>mq_connected := True\<rparr>)")
  show ?thesis
    using s mqtt_mirrors_verdict [OF _ _ s] by (simp add: is_subscription_def)
qed

text \<open>A reconnect of the MQTT client breaks that: it publishes \<open>online\<close> whatever
  the store says, and while the machine stays unreachable no later failure
  corrects it, because the projection compares with what it published itself.\<close>

theorem reconnect_announces_online_while_offline:
  assumes "bus_inv c (st, p, q)" "\<not> available st" "Success \<notin> set ops"
    and "\<forall>op \<in> set ops. \<not> is_subscription op"
    and "fold (bus_step c) ops (st, p, on_connect c q) = (st', p', q')"
  shows "\<not> available st' \<and> last_availability c q' = Some ''online''"
proof -
  have "mq_connected q" "pb_last p = Some False"
    using assms(1,2) by (auto simp: bus_inv_def mirrored_def)
  then have start: "last_availability c (on_connect c q) = Some ''online''"
    by (simp add: on_connect_def last_availability_publish_availability)
  have "\<not> available st' \<and> last_availability c q' = Some ''online''"
    if "fold (bus_step c) ops (st, p, q0) = (st', p', q')" "Success \<notin> set ops"
      "\<not> available st" "pb_last p = Some False" "pb_seen p = length (st_events st)"
      "last_availability c q0 = Some ''online''" for st p q0
    using that
  proof (induction ops arbitrary: st p q0)
    case (Cons op ops)
    let ?st = "store_step op st"
    have off: "\<not> available ?st" using Cons.prems(2,3) by (intro stays_offline) auto
    obtain evs where evs: "st_events ?st = st_events st @ evs" "\<forall>e \<in> set evs. snd e = available ?st"
      using announced_step [of st op] by (auto simp: announced_def)
    have "bus_step c op (st, p, q0) = (?st, p\<lparr>pb_seen := length (st_events ?st)\<rparr>, q0)"
      using deliver_same [OF Cons.prems(4,5) evs(1)] evs(2) off by (simp add: bus_step_def Let_def)
    then show ?case
      using Cons.prems off by (intro Cons.IH [of ?st "p\<lparr>pb_seen := length (st_events ?st)\<rparr>" q0]) auto
  qed auto
  from this [OF assms(5,3,2) \<open>pb_last p = Some False\<close> _ start] assms(1)
  show ?thesis by (simp add: bus_inv_def)
qed

theorem reconnect_announces_online_while_offline_witness:
  "\<exists>st p q. \<not> available st \<and> last_availability demo_config q = Some ''online''"
proof -
  let ?s = "fold (bus_step demo_config) [Wedged]
    (subscribe PUBLISHER (new_store 4 12 1), new_publisher, new_mqtt\<lparr>mq_connected := True\<rparr>)"
  obtain st p q where s: "?s = (st, p, q)" by (cases ?s)
  have i: "bus_inv demo_config (st, p, q)"
    unfolding s [symmetric]
    by (intro bus_inv_run bus_inv_new) (simp_all add: is_subscription_def)
  have "st = note_wedged (subscribe PUBLISHER (new_store 4 12 1))"
    using s by (simp add: bus_step_def Let_def split: prod.splits)
  then have off: "\<not> available st" by (simp add: note_fields)
  obtain st' p' q' where e: "fold (bus_step demo_config) [Failure] (st, p, on_connect demo_config q)
      = (st', p', q')"
    by (cases "fold (bus_step demo_config) [Failure] (st, p, on_connect demo_config q)")
  have "\<not> available st' \<and> last_availability demo_config q' = Some ''online''"
    by (rule reconnect_announces_online_while_offline [OF i off _ _ e]) (simp_all add: is_subscription_def)
  then show ?thesis by blast
qed

text \<open>Commands are routed without confusion: a message on the command topic of a
  writable entity, or on the target topic of a thermostat, is handed over under
  exactly that key, and each of those topics is subscribed on connect.\<close>

theorem command_routing:
  "list_all (\<lambda>e. en_writable e \<longrightarrow>
       on_message c (command_topic c (en_key e)) payload = Some (en_key e, payload)
       \<and> command_topic c (en_key e) \<in> set (mq_subs (on_connect c q))) ENTITIES
   \<and> list_all (\<lambda>cl.
       on_message c (climate_target_command_topic c (cl_key cl)) payload = Some (cl_key cl, payload)
       \<and> climate_target_command_topic c (cl_key cl) \<in> set (mq_subs (on_connect c q)))
      CLIMATE_ENTITIES"
  by (simp add: ENTITIES_def CLIMATE_ENTITIES_def Entity_def en_writable_def on_message_def
      topic_defs on_connect_def publish_availability_def)

end
