(* ===== verification/Wedge.thy ===== *)
theory Wedge
  imports Prelude
begin

text \<open>
  The wedge recovery controller, \<open>bridge/r60v_broker/wedge.py\<close>. A reading of the
  clock is the argument \<open>now\<close> of an operation. Two locales state what the poll
  loops rely on: graded recovery (resume only after a run of good probes) and
  the lengthening back-off; the controller interprets both here, and the
  coordinator of the integration, which mirrors the schedule, interprets them in
  its own theory.
\<close>

section \<open>State and operations\<close>

definition WEDGE_AFTER :: time where
  "WEDGE_AFTER = 45"

definition COOLDOWN_STEPS :: "time list" where
  "COOLDOWN_STEPS = [300, 600, 1200, 1800]"

definition RESUME_AFTER_PROBES :: int where
  "RESUME_AFTER_PROBES = 2"

record wedge =
  wd_wedge_after :: time
  wd_steps :: "time list"
  wd_resume_after :: int
  wd_first_fail_at :: "time option"
  wd_cooldown_until :: "time option"
  wd_cooldown_index :: nat
  wd_probe_successes :: nat

definition new_wedge :: "time \<Rightarrow> time list \<Rightarrow> int \<Rightarrow> wedge" where
  "new_wedge wedge_after steps resume_after_probes =
     \<lparr>wd_wedge_after = wedge_after, wd_steps = steps,
      wd_resume_after = max 1 resume_after_probes, wd_first_fail_at = None,
      wd_cooldown_until = None, wd_cooldown_index = 0, wd_probe_successes = 0\<rparr>"

definition record_success :: "wedge \<Rightarrow> wedge" where
  "record_success w =
     w\<lparr>wd_first_fail_at := None, wd_cooldown_until := None, wd_cooldown_index := 0,
       wd_probe_successes := 0\<rparr>"

definition record_failure :: "time \<Rightarrow> wedge \<Rightarrow> wedge" where
  "record_failure now w =
     (if wd_first_fail_at w = None then w\<lparr>wd_first_fail_at := Some now\<rparr> else w)"

definition record_probe_success :: "time \<Rightarrow> wedge \<Rightarrow> wedge \<times> bool" where
  "record_probe_success now w =
     (let w = w\<lparr>wd_probe_successes := wd_probe_successes w + 1\<rparr>
      in if wd_resume_after w \<le> int (wd_probe_successes w) then (record_success w, True)
         else (w\<lparr>wd_cooldown_until := Some now\<rparr>, False))"

text \<open>The tuple of steps is not empty: the bridge and its tests pass at least one.\<close>

definition begin_cooldown :: "time \<Rightarrow> wedge \<Rightarrow> wedge \<times> time" where
  "begin_cooldown now w =
     (let step = wd_steps w ! min (wd_cooldown_index w) (length (wd_steps w) - 1)
      in (w\<lparr>wd_cooldown_until := Some (now + step),
            wd_cooldown_index := wd_cooldown_index w + 1,
            wd_probe_successes := 0\<rparr>, step))"

definition wedged :: "time \<Rightarrow> wedge \<Rightarrow> bool" where
  "wedged now w =
     (case wd_first_fail_at w of None \<Rightarrow> False | Some t \<Rightarrow> wd_wedge_after w \<le> now - t)"

definition in_cooldown :: "time \<Rightarrow> wedge \<Rightarrow> bool" where
  "in_cooldown now w = (case wd_cooldown_until w of None \<Rightarrow> False | Some u \<Rightarrow> now < u)"

definition awaiting_probe :: "time \<Rightarrow> wedge \<Rightarrow> bool" where
  "awaiting_probe now w = (case wd_cooldown_until w of None \<Rightarrow> False | Some u \<Rightarrow> u \<le> now)"

definition cooldown_remaining :: "time \<Rightarrow> wedge \<Rightarrow> time" where
  "cooldown_remaining now w =
     (if \<not> in_cooldown now w then 0
      else (case wd_cooldown_until w of None \<Rightarrow> 0 | Some u \<Rightarrow> max 0 (u - now)))"

section \<open>Graded recovery\<close>

text \<open>A controller that is out of service until a run of good probes: \<open>resumed\<close> says
  it is back in service, \<open>good\<close> and \<open>bad\<close> record the outcome of a probe.\<close>

definition has_run :: "nat \<Rightarrow> bool list \<Rightarrow> bool" where
  "has_run R oks \<longleftrightarrow> (\<exists>i. i + R \<le> length oks \<and> (\<forall>j < R. oks ! (i + j)))"

definition trailing :: "bool list \<Rightarrow> nat" where
  "trailing oks = length (takeWhile id (rev oks))"

lemma trailing_simps [simp]:
  "trailing [] = 0" "trailing (oks @ [True]) = Suc (trailing oks)" "trailing (oks @ [False]) = 0"
  by (simp_all add: trailing_def)

lemma trailing_ge:
  "k \<le> trailing oks \<longleftrightarrow> k \<le> length oks \<and> (\<forall>j < k. oks ! (length oks - k + j))"
proof (induction oks arbitrary: k rule: rev_induct)
  case (snoc ok oks)
  show ?case
  proof (cases k)
    case (Suc n)
    show ?thesis
    proof (cases ok)
      case True
      have "(\<forall>j < Suc n. (oks @ [True]) ! (length oks - n + j)) \<longleftrightarrow>
          (\<forall>j < n. oks ! (length oks - n + j))" if "n \<le> length oks"
        using that by (auto simp: nth_append less_Suc_eq)
      then show ?thesis using snoc.IH [of n] Suc True by auto
    next
      case False
      have "\<not> (oks @ [False]) ! (length oks - n + n)" if "n \<le> length oks"
        using that by (simp add: nth_append)
      then show ?thesis using Suc False by auto
    qed
  qed simp
qed (simp, metis less_nat_zero_code)

lemma has_run_snoc:
  "has_run R (oks @ [ok]) \<longleftrightarrow> has_run R oks \<or> R \<le> trailing (oks @ [ok])"
proof
  assume "has_run R (oks @ [ok])"
  then obtain i where i: "i + R \<le> Suc (length oks)" "\<forall>j < R. (oks @ [ok]) ! (i + j)"
    by (auto simp: has_run_def)
  show "has_run R oks \<or> R \<le> trailing (oks @ [ok])"
  proof (cases "i + R \<le> length oks")
    case True
    then have "\<forall>j < R. oks ! (i + j)" using i(2) by (auto simp: nth_append)
    with True show ?thesis by (auto simp: has_run_def)
  next
    case False
    with i(1) have "i = length (oks @ [ok]) - R" "R \<le> length (oks @ [ok])" by auto
    with i(2) show ?thesis by (simp only: trailing_ge) blast
  qed
next
  assume "has_run R oks \<or> R \<le> trailing (oks @ [ok])"
  then show "has_run R (oks @ [ok])"
  proof
    assume "has_run R oks"
    then obtain i where "i + R \<le> length oks" "\<forall>j < R. oks ! (i + j)" by (auto simp: has_run_def)
    then have "i + R \<le> length (oks @ [ok])" "\<forall>j < R. (oks @ [ok]) ! (i + j)"
      by (auto simp: nth_append)
    then show ?thesis unfolding has_run_def by blast
  next
    assume "R \<le> trailing (oks @ [ok])"
    then have "length (oks @ [ok]) - R + R \<le> length (oks @ [ok])"
      "\<forall>j < R. (oks @ [ok]) ! (length (oks @ [ok]) - R + j)"
      by (simp_all only: trailing_ge) auto
    then show ?thesis unfolding has_run_def by blast
  qed
qed

lemma has_run_Nil: "1 \<le> R \<Longrightarrow> \<not> has_run R []"
  by (simp add: has_run_def)

locale graded_recovery =
  fixes R :: nat
    and resumed :: "'s \<Rightarrow> bool"
    and probes :: "'s \<Rightarrow> nat"
    and good :: "time \<Rightarrow> 's \<Rightarrow> 's"
    and bad :: "time \<Rightarrow> 's \<Rightarrow> 's"
    and ok :: "'s \<Rightarrow> bool"
  assumes R_pos: "1 \<le> R"
    and good_ok: "ok s \<Longrightarrow> ok (good t s)"
    and bad_ok: "ok s \<Longrightarrow> ok (bad t s)"
    and good_resumes: "ok s \<Longrightarrow> \<not> resumed s \<Longrightarrow> resumed (good t s) \<longleftrightarrow> R \<le> Suc (probes s)"
    and good_counts: "ok s \<Longrightarrow> \<not> resumed s \<Longrightarrow> \<not> resumed (good t s) \<Longrightarrow>
      probes (good t s) = Suc (probes s)"
    and bad_restarts: "ok s \<Longrightarrow> \<not> resumed s \<Longrightarrow> \<not> resumed (bad t s) \<and> probes (bad t s) = 0"
begin

text \<open>Probes are sent only while the controller is out of service.\<close>

definition probe :: "time \<times> bool \<Rightarrow> 's \<Rightarrow> 's" where
  "probe p s = (if resumed s then s else if snd p then good (fst p) s else bad (fst p) s)"

lemma probes_invariant:
  assumes "ok s" "\<not> resumed s" "probes s = 0"
  shows "ok (fold probe ps s) \<and> (resumed (fold probe ps s) \<longleftrightarrow> has_run R (map snd ps))
    \<and> (\<not> resumed (fold probe ps s) \<longrightarrow> probes (fold probe ps s) = trailing (map snd ps))"
proof (induction ps rule: rev_induct)
  case Nil
  then show ?case using assms has_run_Nil [OF R_pos] by simp
next
  case (snoc p ps)
  obtain t b where p: "p = (t, b)" by (cases p)
  define s' where "s' = fold probe ps s"
  have f: "fold probe (ps @ [p]) s = probe p s'" by (simp add: s'_def)
  have IH: "ok s'" "resumed s' \<longleftrightarrow> has_run R (map snd ps)"
    "\<not> resumed s' \<Longrightarrow> probes s' = trailing (map snd ps)"
    using snoc by (auto simp: s'_def)
  show ?case
  proof (cases "resumed s'")
    case True
    then show ?thesis unfolding f using IH by (simp add: probe_def has_run_snoc)
  next
    case False
    show ?thesis
    proof (cases b)
      case True
      then show ?thesis
        unfolding f using False IH good_resumes [of s' t] good_counts [of s' t] good_ok [of s' t]
        by (simp add: probe_def p has_run_snoc)
    next
      case b: False
      then show ?thesis
        unfolding f using False IH bad_restarts [of s' t] bad_ok [of s' t] R_pos
        by (simp add: probe_def p has_run_snoc)
    qed
  qed
qed

lemma resumes_iff_run:
  "ok s \<Longrightarrow> \<not> resumed s \<Longrightarrow> probes s = 0 \<Longrightarrow>
     resumed (fold probe ps s) \<longleftrightarrow> has_run R (map snd ps)"
  using probes_invariant by blast

lemma one_bad_probe_restarts:
  assumes "ok s" "\<not> resumed s" "length ps < R"
  shows "\<not> resumed (fold probe ps (bad t s))"
proof -
  have "\<not> has_run R (map snd ps)" using assms(3) by (auto simp: has_run_def)
  then show ?thesis
    using resumes_iff_run [of "bad t s" ps] bad_restarts [OF assms(1,2), of t] bad_ok [OF assms(1), of t]
    by simp
qed

end

text \<open>The back-off on top of it: the cooldown that \<open>bad\<close> starts lasts the step of the
  schedule at the index, the last step repeated.\<close>

definition schedule :: "time list \<Rightarrow> nat \<Rightarrow> time" where
  "schedule steps n = steps ! min n (length steps - 1)"

locale backoff_recovery = graded_recovery R resumed probes good bad ok
  for R and resumed :: "'s \<Rightarrow> bool" and probes and good and bad and ok +
  fixes index :: "'s \<Rightarrow> nat"
    and resting :: "time \<Rightarrow> 's \<Rightarrow> bool"
    and steps :: "time list"
  assumes bad_index: "ok s \<Longrightarrow> index (bad t s) = Suc (index s)"
    and bad_rests: "ok s \<Longrightarrow> resting t' (bad t s) \<longleftrightarrow> t' < t + schedule steps (index s)"
begin

lemma index_after_failures:
  "ok s \<Longrightarrow> ok (fold bad ts s) \<and> index (fold bad ts s) = index s + length ts"
  by (induction ts arbitrary: s) (auto simp: bad_index bad_ok)

lemma rest_after_failures:
  "ok s \<Longrightarrow> resting t' (bad t (fold bad ts s)) \<longleftrightarrow> t' < t + schedule steps (index s + length ts)"
  using index_after_failures [of s ts] bad_rests by simp

end

section \<open>The controller satisfies both\<close>

definition wedge_ok :: "wedge \<Rightarrow> bool" where
  "wedge_ok w \<longleftrightarrow>
     wd_steps w = COOLDOWN_STEPS \<and> wd_resume_after w = RESUME_AFTER_PROBES"

abbreviation wedge_good :: "time \<Rightarrow> wedge \<Rightarrow> wedge" where
  "wedge_good t w \<equiv> fst (record_probe_success t w)"

abbreviation wedge_bad :: "time \<Rightarrow> wedge \<Rightarrow> wedge" where
  "wedge_bad t w \<equiv> fst (begin_cooldown t w)"

interpretation bridge: backoff_recovery
  "nat RESUME_AFTER_PROBES" "\<lambda>w. wd_cooldown_until w = None" wd_probe_successes
  wedge_good wedge_bad wedge_ok wd_cooldown_index in_cooldown COOLDOWN_STEPS
proof
qed (auto simp: RESUME_AFTER_PROBES_def record_probe_success_def record_success_def
    begin_cooldown_def wedge_ok_def in_cooldown_def schedule_def Let_def)

definition default_wedge :: wedge where
  "default_wedge = new_wedge WEDGE_AFTER COOLDOWN_STEPS RESUME_AFTER_PROBES"

lemma default_wedge_ok: "wedge_ok default_wedge"
  by (simp add: wedge_ok_def default_wedge_def new_wedge_def RESUME_AFTER_PROBES_def)

lemma wedge_ok_ops [simp]:
  "wedge_ok w \<Longrightarrow> wedge_ok (record_success w)" "wedge_ok w \<Longrightarrow> wedge_ok (record_failure t w)"
  "wedge_ok w \<Longrightarrow> wedge_ok (fst (record_probe_success t w))"
  "wedge_ok w \<Longrightarrow> wedge_ok (fst (begin_cooldown t w))"
  by (auto simp: wedge_ok_def record_success_def record_failure_def record_probe_success_def
      begin_cooldown_def Let_def)

lemma cooldown_partition:
  "wd_cooldown_until w = None \<longleftrightarrow> \<not> in_cooldown now w \<and> \<not> awaiting_probe now w"
  "\<not> (in_cooldown now w \<and> awaiting_probe now w)"
  by (auto simp: in_cooldown_def awaiting_probe_def split: option.splits)

section \<open>Properties\<close>

text \<open>The poll loop's probes after a cooldown: one per cycle, until polling resumes.\<close>

definition run_probes :: "(time \<times> bool) list \<Rightarrow> wedge \<Rightarrow> wedge" where
  "run_probes ps w =
     fold (\<lambda>(t, good) w.
             if wd_cooldown_until w = None then w
             else if good then fst (record_probe_success t w) else fst (begin_cooldown t w)) ps w"

lemma run_probes_fold: "run_probes ps w = fold bridge.probe ps w"
proof -
  have "(\<lambda>(t, good) w.
      if wd_cooldown_until w = None then w
      else if good then fst (record_probe_success t w) else fst (begin_cooldown t w))
    = bridge.probe"
    by (auto simp: bridge.probe_def fun_eq_iff)
  then show ?thesis by (simp add: run_probes_def)
qed

lemma has_run_2:
  "has_run 2 xs \<longleftrightarrow> (\<exists>i. Suc i < length xs \<and> xs ! i \<and> xs ! Suc i)"
  unfolding has_run_def numeral_2_eq_2 All_less_Suc by (auto simp: Suc_le_eq)

text \<open>After a cooldown, normal polling resumes exactly when two consecutive
  probes succeeded: whatever the earlier outcomes, a single good probe followed
  by a failed one earns nothing.\<close>

theorem polling_resumes_iff_two_good_probes:
  assumes "wd_steps w = COOLDOWN_STEPS" "wd_resume_after w = RESUME_AFTER_PROBES"
  shows "wd_cooldown_until (run_probes ps (fst (begin_cooldown t w))) = None
     \<longleftrightarrow> (\<exists>i. Suc i < length ps \<and> snd (ps ! i) \<and> snd (ps ! Suc i))"
proof -
  let ?w = "fst (begin_cooldown t w)"
  have "wedge_ok w" using assms by (simp add: wedge_ok_def)
  then have "wedge_ok ?w" "wd_cooldown_until ?w \<noteq> None" "wd_probe_successes ?w = 0"
    by simp_all (simp_all add: begin_cooldown_def Let_def)
  then have "wd_cooldown_until (run_probes ps ?w) = None
      \<longleftrightarrow> has_run (nat RESUME_AFTER_PROBES) (map snd ps)"
    unfolding run_probes_fold by (rule bridge.resumes_iff_run)
  also have "\<dots> \<longleftrightarrow> (\<exists>i. Suc i < length ps \<and> snd (ps ! i) \<and> snd (ps ! Suc i))"
    by (auto simp: RESUME_AFTER_PROBES_def has_run_2)
  finally show ?thesis .
qed

theorem polling_resumes_iff_two_good_probes_witness:
  "wd_cooldown_until (run_probes [(300, True), (305, False), (905, True)]
     (fst (begin_cooldown 0 default_wedge))) = None
   \<longleftrightarrow> (\<exists>i. Suc i < length [(300 :: time, True), (305, False), (905, True)]
        \<and> snd ([(300 :: time, True), (305, False), (905, True)] ! i)
        \<and> snd ([(300 :: time, True), (305, False), (905, True)] ! Suc i))"
  by (rule polling_resumes_iff_two_good_probes)
    (simp_all add: default_wedge_def new_wedge_def RESUME_AFTER_PROBES_def)

text \<open>The back-off schedule: after a success, the cooldown that follows n failed
  recoveries keeps the machine alone for exactly 300, 600, 1200 and from then on
  1800 seconds from its start, and a probe is due from the end of it.\<close>

theorem cooldown_schedule:
  assumes "wd_steps w = COOLDOWN_STEPS" "wd_resume_after w = RESUME_AFTER_PROBES"
    and "w' = fst (begin_cooldown t (fold (\<lambda>t w. fst (begin_cooldown t w)) ts (record_success w)))"
    and "u = t + [300, 600, 1200, 1800] ! min (length ts) 3"
  shows "(in_cooldown now w' \<longleftrightarrow> now < u) \<and> (awaiting_probe now w' \<longleftrightarrow> u \<le> now)
     \<and> cooldown_remaining now w' = max 0 (u - now)"
proof -
  have "wedge_ok w" using assms(1,2) by (simp add: wedge_ok_def)
  then have "wedge_ok (record_success w)" by simp
  from bridge.rest_after_failures [OF this, of _ t ts]
  have r: "in_cooldown now w' \<longleftrightarrow> now < u" for now
    by (simp add: assms(3,4) record_success_def schedule_def COOLDOWN_STEPS_def numeral_3_eq_3)
  have "wd_cooldown_until w' \<noteq> None" by (simp add: assms(3) begin_cooldown_def Let_def)
  then obtain v where v: "wd_cooldown_until w' = Some v" by blast
  have "now < v \<longleftrightarrow> now < u" for now using r [of now] v by (simp add: in_cooldown_def)
  then have "v = u" by (metis less_irrefl linorder_neqE)
  then show ?thesis
    using r v by (auto simp: awaiting_probe_def cooldown_remaining_def in_cooldown_def)
qed

theorem cooldown_schedule_witness:
  "(in_cooldown 1000 (fst (begin_cooldown 400 (fold (\<lambda>t w. fst (begin_cooldown t w)) [0]
       (record_success default_wedge)))) \<longleftrightarrow> (1000 :: time) < 1000)
   \<and> (awaiting_probe 1000 (fst (begin_cooldown 400 (fold (\<lambda>t w. fst (begin_cooldown t w)) [0]
       (record_success default_wedge)))) \<longleftrightarrow> (1000 :: time) \<le> 1000)
   \<and> cooldown_remaining 1000 (fst (begin_cooldown 400 (fold (\<lambda>t w. fst (begin_cooldown t w)) [0]
       (record_success default_wedge)))) = max 0 (1000 - 1000)"
  by (rule cooldown_schedule [OF _ _ refl])
    (simp_all add: default_wedge_def new_wedge_def RESUME_AFTER_PROBES_def)

end
