(* ===== verification/Broker.thy ===== *)
theory Broker
  imports Mqtt Wedge
begin

text \<open>
  The broker daemon, \<open>bridge/r60v_broker/broker.py\<close>, with the subscribers of
  \<open>bridge/r60v_broker/push_server.py\<close>: the poll loop with its wedge recovery, the
  MQTT command path, the write-intent channel. Each task is a function on the
  broker's state. What it awaits, the governor and \<open>asyncio.sleep\<close>, is a record of
  functions on the whole state, so that whatever the other tasks do during an
  await is part of what such a function may do. Store changes are delivered to
  the MQTT projection as they happen. Sends to subscribers, and cancellation at
  shutdown, are outside the model, except that a stalled subscriber is dropped.
\<close>

section \<open>Subscribers\<close>

record push =
  ps_clients :: "nat list"
  ps_stalled :: "nat list"
  ps_latest :: "raw_snap option"
  ps_sent :: "(nat \<times> raw_snap option) list"

definition new_push :: push where
  "new_push = \<lparr>ps_clients = [], ps_stalled = [], ps_latest = None, ps_sent = []\<rparr>"

definition client_count :: "push \<Rightarrow> nat" where
  "client_count ps = length (ps_clients ps)"

definition broadcast :: "raw_snap \<Rightarrow> push \<Rightarrow> push" where
  "broadcast state ps =
     (let ps = ps\<lparr>ps_latest := Some state\<rparr>
      in if ps_clients ps = [] then ps
         else ps\<lparr>ps_sent := ps_sent ps @ map (\<lambda>c. (c, Some state))
                   (filter (\<lambda>c. c \<notin> set (ps_stalled ps)) (ps_clients ps)),
                 ps_clients := filter (\<lambda>c. c \<notin> set (ps_stalled ps)) (ps_clients ps)\<rparr>)"

text \<open>The two ends of \<open>_handler\<close>: a new subscriber is sent the latest snapshot at once.\<close>

definition push_connect :: "nat \<Rightarrow> push \<Rightarrow> push" where
  "push_connect c ps =
     ps\<lparr>ps_clients := (if c \<in> set (ps_clients ps) then ps_clients ps else ps_clients ps @ [c]),
        ps_sent := ps_sent ps @ [(c, ps_latest ps)]\<rparr>"

definition push_disconnect :: "nat \<Rightarrow> push \<Rightarrow> push" where
  "push_disconnect c ps = ps\<lparr>ps_clients := removeAll c (ps_clients ps)\<rparr>"

section \<open>State\<close>

record 'd broker =
  bk_config :: config
  bk_store :: store
  bk_wedge :: wedge
  bk_pub :: publisher
  bk_mqtt :: mqtt
  bk_push :: "push option"
  bk_intents :: "(int \<times> int list) list option"
  bk_commands :: "(string \<times> string) list option"
  bk_tick :: int
  bk_idle :: bool
  bk_now :: time
  bk_dev :: 'd

record 'd device =
  dv_read :: "int \<Rightarrow> int \<Rightarrow> 'd broker \<Rightarrow> int list res \<times> 'd broker"
  dv_write :: "int \<Rightarrow> int list \<Rightarrow> 'd broker \<Rightarrow> unit res \<times> 'd broker"
  dv_close_link :: "'d broker \<Rightarrow> 'd broker"
  dv_sleep :: "time \<Rightarrow> 'd broker \<Rightarrow> 'd broker"

text \<open>A call of the store, and the calls of its listener that follow.\<close>

definition on_store :: "store_op \<Rightarrow> 'd broker \<Rightarrow> 'd broker" where
  "on_store op b =
     (let (st, p, q) = bus_step (bk_config b) op (bk_store b, bk_pub b, bk_mqtt b)
      in b\<lparr>bk_store := st, bk_pub := p, bk_mqtt := q\<rparr>)"

definition on_wedge :: "(wedge \<Rightarrow> wedge) \<Rightarrow> 'd broker \<Rightarrow> 'd broker" where
  "on_wedge f b = b\<lparr>bk_wedge := f (bk_wedge b)\<rparr>"

definition broadcast_state :: "'d broker \<Rightarrow> 'd broker" where
  "broadcast_state b = b\<lparr>bk_push := map_option (broadcast (raw_snapshot (bk_store b))) (bk_push b)\<rparr>"

definition publish_now :: "'d broker \<Rightarrow> 'd broker" where
  "publish_now b =
     (let (st, q) = publish (bk_config b) (bk_now b) (bk_store b, bk_mqtt b)
      in b\<lparr>bk_store := st, bk_mqtt := q\<rparr>)"

section \<open>Polling\<close>

fun poll_live :: "'d device \<Rightarrow> (int \<times> int) list \<Rightarrow> 'd broker \<Rightarrow> unit res \<times> 'd broker" where
  "poll_live dev [] b = (Inr (), b)"
| "poll_live dev ((address, len) # regs) b =
     (case dv_read dev address len b of
        (Inl e, b) \<Rightarrow> (Inl e, b)
      | (Inr data, b) \<Rightarrow> poll_live dev regs (on_store (Live (bk_now b) address data) b))"

definition poll_settings :: "'d device \<Rightarrow> 'd broker \<Rightarrow> unit res \<times> 'd broker" where
  "poll_settings dev b =
     (case dv_read dev SETTINGS_BASE SETTINGS_LEN b of
        (Inl e, b) \<Rightarrow> (Inl e, b)
      | (Inr data, b) \<Rightarrow> (Inr (), on_store (Settings data) b))"

definition poll_failed :: "'d device \<Rightarrow> 'd broker \<Rightarrow> 'd broker" where
  "poll_failed dev b =
     (let b = on_wedge (record_failure (bk_now b)) (on_store Failure b)
      in if wedged (bk_now b) (bk_wedge b) \<and> \<not> in_cooldown (bk_now b) (bk_wedge b)
         then dv_close_link dev
                (on_store Wedged (on_wedge (\<lambda>w. fst (begin_cooldown (bk_now b) w)) b))
         else b)"

definition poll_once :: "'d device \<Rightarrow> bool \<Rightarrow> 'd broker \<Rightarrow> 'd broker" where
  "poll_once dev read_settings b =
     (let (r, b) = (if read_settings then poll_settings dev b else (Inr (), b));
          (r, b) = (case r of Inl e \<Rightarrow> (Inl e, b) | Inr _ \<Rightarrow> poll_live dev LIVE_REGISTERS b)
      in case r of
           Inr _ \<Rightarrow> on_wedge record_success (on_store Success b)
         | Inl _ \<Rightarrow> poll_failed dev b)"

definition probe_link :: "'d device \<Rightarrow> 'd broker \<Rightarrow> bool \<times> 'd broker" where
  "probe_link dev b =
     (case poll_settings dev b of (Inl _, b) \<Rightarrow> (False, b) | (Inr _, b) \<Rightarrow> (True, b))"

definition probe_cycle :: "'d device \<Rightarrow> 'd broker \<Rightarrow> 'd broker" where
  "probe_cycle dev b =
     (case probe_link dev b of
        (True, b) \<Rightarrow>
          let (w, resumed) = record_probe_success (bk_now b) (bk_wedge b);
              b = b\<lparr>bk_wedge := w\<rparr>
          in if resumed then on_store Success b else b
      | (False, b) \<Rightarrow>
          dv_close_link dev
            (on_store Wedged (on_wedge (\<lambda>w. fst (begin_cooldown (bk_now b) w)) b)))"

definition wants_data :: "'d broker \<Rightarrow> bool" where
  "wants_data b \<longleftrightarrow>
     mqtt_enabled (bk_config b)
     \<or> (case bk_push b of None \<Rightarrow> False | Some ps \<Rightarrow> 0 < client_count ps)"

text \<open>One iteration of \<open>_poll_loop\<close> before its sleep; \<open>settings_every\<close> is computed once,
  before the loop.\<close>

definition poll_cycle :: "'d device \<Rightarrow> int \<Rightarrow> 'd broker \<Rightarrow> 'd broker" where
  "poll_cycle dev settings_every b =
     (if wants_data b
      then
        let resumed = bk_idle b;
            b = b\<lparr>bk_idle := False\<rparr>;
            b = (if in_cooldown (bk_now b) (bk_wedge b) then dv_close_link dev b
                 else if awaiting_probe (bk_now b) (bk_wedge b) then probe_cycle dev b
                 else poll_once dev (resumed \<or> bk_tick b mod settings_every = 0) b);
            b = broadcast_state b
        in b\<lparr>bk_tick := bk_tick b + 1\<rparr>
      else b\<lparr>bk_idle := True\<rparr>)"

section \<open>MQTT commands\<close>

definition enqueue_command :: "string \<Rightarrow> string \<Rightarrow> 'd broker \<Rightarrow> 'd broker" where
  "enqueue_command key payload b =
     b\<lparr>bk_commands := map_option (\<lambda>q. q @ [(key, payload)]) (bk_commands b)\<rparr>"

definition find_encoder :: "string \<Rightarrow> (string \<Rightarrow> write_op res) option" where
  "find_encoder key =
     (case Option.bind (map_of ENTITIES_BY_KEY key) en_encode of
        Some enc \<Rightarrow> Some enc
      | None \<Rightarrow> map_option cl_encode_target (map_of CLIMATE_BY_KEY key))"

text \<open>\<open>_apply_command\<close>; an exception other than the two that are caught escapes into
  \<open>_command_loop\<close>, which ends the broker's task group.\<close>

definition apply_command :: "'d device \<Rightarrow> string \<Rightarrow> string \<Rightarrow> 'd broker \<Rightarrow> unit res \<times> 'd broker" where
  "apply_command dev key payload b =
     (case find_encoder key of
        None \<Rightarrow> (Inr (), b)
      | Some enc \<Rightarrow>
          (case enc payload of
             Inl e \<Rightarrow> (if e = ValueError then Inr () else Inl e, b)
           | Inr (address, data) \<Rightarrow>
               (let (r, b) =
                  (case dv_write dev address data b of
                     (Inl e, b) \<Rightarrow> (Inl e, b)
                   | (Inr _, b) \<Rightarrow> poll_settings dev b)
                in case r of
                     Inr _ \<Rightarrow> (Inr (), publish_now (on_store Success b))
                   | Inl e \<Rightarrow>
                       if e = R60VConnectionError then (Inr (), on_store Failure b)
                       else (Inl e, b))))"

definition new_broker :: "config \<Rightarrow> time \<Rightarrow> 'd \<Rightarrow> 'd broker" where
  "new_broker c now d =
     \<lparr>bk_config = c, bk_store = subscribe PUBLISHER (new_store 4 12 1), bk_wedge = default_wedge,
      bk_pub = new_publisher, bk_mqtt = new_mqtt,
      bk_push = (if cf_push_enabled c then Some new_push else None), bk_intents = Some [],
      bk_commands = Some [], bk_tick = 0, bk_idle = True, bk_now = now, bk_dev = d\<rparr>"

section \<open>Frames\<close>

lemma on_store_frame [simp, frame_simps]:
  "bk_store (on_store op b) = store_step op (bk_store b)" "bk_wedge (on_store op b) = bk_wedge b"
  "bk_now (on_store op b) = bk_now b" "bk_intents (on_store op b) = bk_intents b"
  "bk_config (on_store op b) = bk_config b" "bk_push (on_store op b) = bk_push b"
  "bk_dev (on_store op b) = bk_dev b"
  by (simp_all add: on_store_def bus_step_def Let_def split: prod.split)

lemma on_wedge_frame [simp, frame_simps]:
  "bk_store (on_wedge f b) = bk_store b" "bk_wedge (on_wedge f b) = f (bk_wedge b)"
  "bk_now (on_wedge f b) = bk_now b" "bk_dev (on_wedge f b) = bk_dev b"
  by (simp_all add: on_wedge_def)

lemma broadcast_state_frame [simp, frame_simps]:
  "bk_store (broadcast_state b) = bk_store b" "bk_wedge (broadcast_state b) = bk_wedge b"
  "bk_now (broadcast_state b) = bk_now b" "bk_intents (broadcast_state b) = bk_intents b"
  by (simp_all add: broadcast_state_def)

lemma publish_now_frame [frame_simps]:
  "available (bk_store (publish_now b)) = available (bk_store b)"
  "bk_wedge (publish_now b) = bk_wedge b" "bk_now (publish_now b) = bk_now b"
  by (simp_all add: publish_now_def publish_def Let_def available_def split: prod.split)

text \<open>Awaits that leave the store and the wedge controller alone: no other task touched
  them meanwhile.\<close>

definition same_verdicts :: "'d broker \<Rightarrow> 'd broker \<Rightarrow> bool" where
  "same_verdicts b b' \<longleftrightarrow> bk_store b' = bk_store b \<and> bk_wedge b' = bk_wedge b"

definition calm :: "'d device \<Rightarrow> bool" where
  "calm dev \<longleftrightarrow>
     (\<forall>a n b. same_verdicts b (snd (dv_read dev a n b)))
     \<and> (\<forall>a d b. same_verdicts b (snd (dv_write dev a d b)))
     \<and> (\<forall>b. same_verdicts b (dv_close_link dev b))
     \<and> (\<forall>dt b. same_verdicts b (dv_sleep dev dt b))"

lemma calm_simps:
  assumes "calm dev"
  shows "bk_store (snd (dv_read dev a n b)) = bk_store b" "bk_wedge (snd (dv_read dev a n b)) = bk_wedge b"
    "bk_store (snd (dv_write dev a d b)) = bk_store b" "bk_wedge (snd (dv_write dev a d b)) = bk_wedge b"
    "bk_store (dv_close_link dev b) = bk_store b" "bk_wedge (dv_close_link dev b) = bk_wedge b"
    "bk_store (dv_sleep dev dt b) = bk_store b" "bk_wedge (dv_sleep dev dt b) = bk_wedge b"
  using assms by (simp_all add: calm_def same_verdicts_def)

section \<open>A cooldown implies unavailable\<close>

definition quarantine :: "'d broker \<Rightarrow> bool" where
  "quarantine b \<longleftrightarrow> (wd_cooldown_until (bk_wedge b) \<noteq> None \<longrightarrow> \<not> available (bk_store b))"

text \<open>What the other tasks may do during an await of the poll loop: anything, except
  touch the wedge controller (none but the poll loop does) and turn the store
  available while a cooldown or its probes are pending. The intent loop waits for the
  end of a cooldown before it writes; the MQTT command path does not, see
  \<open>mqtt_command_ends_unavailable_in_cooldown\<close> below.\<close>

definition no_success_meanwhile :: "'d broker \<Rightarrow> 'd broker \<Rightarrow> bool" where
  "no_success_meanwhile b b' \<longleftrightarrow> bk_wedge b' = bk_wedge b \<and> (quarantine b \<longrightarrow> quarantine b')"

definition no_success_in_cooldown :: "'d device \<Rightarrow> bool" where
  "no_success_in_cooldown dev \<longleftrightarrow>
     (\<forall>a n b. no_success_meanwhile b (snd (dv_read dev a n b)))
     \<and> (\<forall>b. no_success_meanwhile b (dv_close_link dev b))
     \<and> (\<forall>dt b. no_success_meanwhile b (dv_sleep dev dt b))"

lemma calm_no_success: "calm dev \<Longrightarrow> no_success_in_cooldown dev"
  by (simp add: calm_def same_verdicts_def no_success_in_cooldown_def no_success_meanwhile_def
      quarantine_def)

lemma meanwhile_read:
  assumes "no_success_in_cooldown dev" "dv_read dev a n b = (r, b')"
  shows "no_success_meanwhile b b'"
proof -
  have "no_success_meanwhile b (snd (dv_read dev a n b))"
    using assms(1) by (simp add: no_success_in_cooldown_def)
  then show ?thesis by (simp add: assms(2))
qed

lemma meanwhile_close: "no_success_in_cooldown dev \<Longrightarrow> no_success_meanwhile b (dv_close_link dev b)"
  and meanwhile_sleep: "no_success_in_cooldown dev \<Longrightarrow> no_success_meanwhile b (dv_sleep dev dt b)"
  by (simp_all add: no_success_in_cooldown_def)

lemma quarantine_close:
  "no_success_in_cooldown dev \<Longrightarrow> quarantine b \<Longrightarrow> quarantine (dv_close_link dev b)"
  and quarantine_sleep:
  "no_success_in_cooldown dev \<Longrightarrow> quarantine b \<Longrightarrow> quarantine (dv_sleep dev dt b)"
  using meanwhile_close [of dev b] meanwhile_sleep [of dev b dt]
  by (simp_all add: no_success_meanwhile_def)

lemma quarantine_wedged: "\<not> available (bk_store b) \<Longrightarrow> quarantine b"
  by (simp add: quarantine_def)

lemma poll_settings_meanwhile:
  assumes "no_success_in_cooldown dev" "poll_settings dev b = (r, b')"
  shows "no_success_meanwhile b b'"
proof -
  obtain r1 b1 where e: "dv_read dev SETTINGS_BASE SETTINGS_LEN b = (r1, b1)"
    by (cases "dv_read dev SETTINGS_BASE SETTINGS_LEN b")
  have b1: "no_success_meanwhile b b1" by (rule meanwhile_read [OF assms(1) e])
  have "\<not> available (bk_store b1) \<Longrightarrow> \<not> available (store_step (Settings d) (bk_store b1))" for d
    by (rule stays_offline) simp_all
  then show ?thesis
    using assms(2) b1
    by (auto simp: poll_settings_def e no_success_meanwhile_def quarantine_def split: sum.splits)
qed

lemma poll_live_wedge:
  assumes "no_success_in_cooldown dev"
  shows "bk_wedge (snd (poll_live dev regs b)) = bk_wedge b"
proof (induction regs arbitrary: b)
  case (Cons reg regs)
  obtain a n where reg: "reg = (a, n)" by (cases reg)
  obtain r1 b1 where e: "dv_read dev a n b = (r1, b1)" by (cases "dv_read dev a n b")
  have "bk_wedge b1 = bk_wedge b"
    using meanwhile_read [OF assms e] by (simp add: no_success_meanwhile_def)
  then show ?case by (auto simp: reg e Cons.IH split: sum.split)
qed simp

lemma quarantine_poll_failed:
  assumes "no_success_in_cooldown dev" "wd_cooldown_until (bk_wedge b) = None"
  shows "quarantine (poll_failed dev b)"
proof -
  have r: "wd_cooldown_until (record_failure t w) = wd_cooldown_until w" for t w
    by (simp add: record_failure_def)
  have k: "quarantine (dv_close_link dev (on_store Wedged c))" for c
    by (rule quarantine_close [OF assms(1) quarantine_wedged]) (simp add: note_fields)
  have "poll_failed dev b = dv_close_link dev (on_store Wedged
      (on_wedge (\<lambda>w. fst (begin_cooldown (bk_now b) w)) (on_wedge (record_failure (bk_now b)) (on_store Failure b))))
    \<or> poll_failed dev b = on_wedge (record_failure (bk_now b)) (on_store Failure b)"
    by (simp add: poll_failed_def Let_def)
  then show ?thesis
  proof
    assume "poll_failed dev b = on_wedge (record_failure (bk_now b)) (on_store Failure b)"
    then show ?thesis using assms(2) by (simp add: quarantine_def r)
  qed (simp only: k)
qed

lemma quarantine_poll_once:
  assumes "no_success_in_cooldown dev" "wd_cooldown_until (bk_wedge b) = None"
  shows "quarantine (poll_once dev read_settings b)"
proof -
  obtain r1 b1 where e1: "(if read_settings then poll_settings dev b else (Inr (), b)) = (r1, b1)"
    by (cases "if read_settings then poll_settings dev b else (Inr (), b)")
  have w1: "bk_wedge b1 = bk_wedge b"
    using e1 poll_settings_meanwhile [OF assms(1), of b r1 b1]
    by (cases read_settings) (auto simp: no_success_meanwhile_def)
  obtain r2 b2 where e2: "(case r1 of Inl e \<Rightarrow> (Inl e, b1) | Inr _ \<Rightarrow> poll_live dev LIVE_REGISTERS b1)
      = (r2, b2)"
    by (cases "case r1 of Inl e \<Rightarrow> (Inl e, b1) | Inr _ \<Rightarrow> poll_live dev LIVE_REGISTERS b1")
  have w2: "bk_wedge b2 = bk_wedge b"
    using e2 w1 poll_live_wedge [OF assms(1), of LIVE_REGISTERS b1]
    by (cases r1) (simp_all add: prod_eq_iff)
  show ?thesis
  proof (cases r2)
    case (Inl e)
    then have "poll_once dev read_settings b = poll_failed dev b2"
      by (simp add: poll_once_def e1 e2)
    then show ?thesis using quarantine_poll_failed [OF assms(1)] w2 assms(2) by simp
  next
    case (Inr u)
    then show ?thesis
      by (simp add: poll_once_def e1 e2 quarantine_def record_success_def)
  qed
qed

lemma quarantine_probe_cycle:
  assumes "no_success_in_cooldown dev" "quarantine b" "wd_cooldown_until (bk_wedge b) \<noteq> None"
  shows "quarantine (probe_cycle dev b)"
proof -
  obtain r1 b1 where e: "poll_settings dev b = (r1, b1)" by (cases "poll_settings dev b")
  have k: "bk_wedge b1 = bk_wedge b" "\<not> available (bk_store b1)"
    using poll_settings_meanwhile [OF assms(1) e] assms(2,3)
    by (auto simp: no_success_meanwhile_def quarantine_def)
  show ?thesis
  proof (cases r1)
    case (Inl x)
    then have "probe_cycle dev b = dv_close_link dev
        (on_store Wedged (on_wedge (\<lambda>w. fst (begin_cooldown (bk_now b1) w)) b1))"
      by (simp add: probe_cycle_def probe_link_def e)
    then show ?thesis
      by (simp add: quarantine_close [OF assms(1) quarantine_wedged] note_fields)
  next
    case (Inr u)
    then show ?thesis
      using k
      by (auto simp: probe_cycle_def probe_link_def e quarantine_def record_probe_success_def
          record_success_def Let_def)
  qed
qed

lemma quarantine_poll_cycle:
  assumes "no_success_in_cooldown dev" "quarantine b"
  shows "quarantine (poll_cycle dev k b)"
proof -
  let ?b = "b\<lparr>bk_idle := False\<rparr>"
  have q: "quarantine ?b" using assms(2) by (simp add: quarantine_def)
  let ?c = "if in_cooldown (bk_now ?b) (bk_wedge ?b) then dv_close_link dev ?b
     else if awaiting_probe (bk_now ?b) (bk_wedge ?b) then probe_cycle dev ?b
     else poll_once dev (bk_idle b \<or> bk_tick ?b mod k = 0) ?b"
  have "quarantine ?c"
  proof -
    consider "in_cooldown (bk_now ?b) (bk_wedge ?b)"
      | "\<not> in_cooldown (bk_now ?b) (bk_wedge ?b)" "awaiting_probe (bk_now ?b) (bk_wedge ?b)"
      | "\<not> in_cooldown (bk_now ?b) (bk_wedge ?b)" "\<not> awaiting_probe (bk_now ?b) (bk_wedge ?b)"
      by blast
    then show ?thesis
    proof cases
      case 1
      then show ?thesis using quarantine_close [OF assms(1) q] by simp
    next
      case 2
      then have "wd_cooldown_until (bk_wedge ?b) \<noteq> None"
        by (auto simp: awaiting_probe_def split: option.splits)
      then show ?thesis using 2 quarantine_probe_cycle [OF assms(1) q] by simp
    next
      case 3
      then have "wd_cooldown_until (bk_wedge ?b) = None"
        using cooldown_partition(1) by blast
      then show ?thesis using 3 quarantine_poll_once [OF assms(1), of ?b] by simp
    qed
  qed
  then show ?thesis using assms(2) by (simp add: poll_cycle_def quarantine_def Let_def)
qed

definition poll_iteration :: "'d device \<Rightarrow> int \<Rightarrow> time \<Rightarrow> 'd broker \<Rightarrow> 'd broker" where
  "poll_iteration dev settings_every interval b =
     dv_sleep dev interval (poll_cycle dev settings_every b)"

lemma quarantine_iterations:
  "\<forall>dev \<in> set devs. no_success_in_cooldown dev \<Longrightarrow> quarantine b \<Longrightarrow>
     quarantine (fold (\<lambda>dev. poll_iteration dev k i) devs b)"
  by (induction devs arbitrary: b)
    (simp_all add: poll_iteration_def quarantine_sleep quarantine_poll_cycle)

section \<open>The command table\<close>

lemma map_of_image:
  "map_option f (map_of (map (\<lambda>e. (k e, e)) es) x) = map_of (map (\<lambda>e. (k e, f e)) es) x"
  by (induction es) auto

lemma bind_join: "Option.bind m f = (case map_option f m of None \<Rightarrow> None | Some x \<Rightarrow> x)"
  by (cases m) auto

lemma find_encoder_maps: "find_encoder key =
     (case map_of (map (\<lambda>e. (en_key e, en_encode e)) ENTITIES) key of
        Some (Some enc) \<Rightarrow> Some enc
      | _ \<Rightarrow> map_of (map (\<lambda>c. (cl_key c, cl_encode_target c)) CLIMATE_ENTITIES) key)"
  unfolding find_encoder_def ENTITIES_BY_KEY_def CLIMATE_BY_KEY_def bind_join map_of_image
  by (simp split: option.split)

lemma find_encoder_power: "find_encoder ''power'' = Some (encode_bool STANDBY 0 1)"
  by (simp add: find_encoder_maps ENTITIES_def Entity_def)

lemma find_encoder_climate: "find_encoder ''brew_boiler'' =
     Some (encode_ranged BREW_BOILER_TEMP (fst BREW_TEMP_RANGE_C) (snd BREW_TEMP_RANGE_C))"
   "find_encoder ''steam_boiler'' =
     Some (encode_ranged SERVICE_BOILER_TEMP (fst SERVICE_TEMP_RANGE_C) (snd SERVICE_TEMP_RANGE_C))"
  by (simp_all add: find_encoder_maps ENTITIES_def Entity_def
      CLIMATE_ENTITIES_def)

section \<open>Properties\<close>

text \<open>C7: A cooldown implies unavailable: after any sequence of poll iterations from
  start-up, whatever the machine answers in each of them and whatever the other tasks
  do to the broker during its awaits, short of touching the wedge controller or
  reporting a success to the store while a cooldown is pending, the store never reports
  the machine as available while the wedge controller is in its cooldown.\<close>

theorem cooldown_implies_unavailable:
  assumes "\<forall>dev \<in> set devs. no_success_in_cooldown dev"
    and "b = fold (\<lambda>dev. poll_iteration dev settings_every interval) devs (new_broker c start d)"
    and "in_cooldown t (bk_wedge b)"
  shows "\<not> available (bk_store b)"
proof -
  have "quarantine (new_broker c start d)"
    by (simp add: quarantine_def new_broker_def default_wedge_def new_wedge_def)
  then have "quarantine b" unfolding assms(2) by (rule quarantine_iterations [OF assms(1)])
  then show ?thesis using assms(3) by (auto simp: quarantine_def in_cooldown_def)
qed

text \<open>A machine that never answers, and one that always does; each sleep takes as long
  as asked.\<close>

definition dead_machine :: "unit device" where
  "dead_machine =
     \<lparr>dv_read = \<lambda>a n b. (Inl R60VConnectionError, b), dv_write = \<lambda>a d b. (Inl R60VConnectionError, b),
      dv_close_link = \<lambda>b. b, dv_sleep = \<lambda>dt b. b\<lparr>bk_now := bk_now b + dt\<rparr>\<rparr>"

definition good_machine :: "unit device" where
  "good_machine =
     \<lparr>dv_read = \<lambda>a n b. (Inr (replicate (nat n) 1), b), dv_write = \<lambda>a d b. (Inr (), b),
      dv_close_link = \<lambda>b. b, dv_sleep = \<lambda>dt b. b\<lparr>bk_now := bk_now b + dt\<rparr>\<rparr>"

lemma calm_machines [simp]: "calm dead_machine" "calm good_machine"
  by (simp_all add: calm_def same_verdicts_def dead_machine_def good_machine_def)

definition mqtt_config :: config where
  "mqtt_config =
     \<lparr>cf_machine_host = ''r60v'', cf_machine_port = 1774, cf_frontend_enabled = False,
      cf_frontend_host = [], cf_frontend_port = 1774, cf_push_enabled = False, cf_push_host = [],
      cf_push_port = 8788, cf_mqtt_host = ''broker'', cf_mqtt_port = 1883, cf_mqtt_username = [],
      cf_mqtt_password = [], cf_mqtt_base_topic = ''r'', cf_discovery_prefix = [],
      cf_settings_interval = Fin 60, cf_live_interval = Fin 10, cf_publish_interval = Fin 5,
      cf_request_gap = Fin 1, cf_request_timeout = Fin 5, cf_device_id = [], cf_device_name = []\<rparr>"

theorem cooldown_implies_unavailable_witness:
  "\<not> available (bk_store (fold (\<lambda>dev. poll_iteration dev 6 60)
      [dead_machine, dead_machine, dead_machine] (new_broker mqtt_config 0 ())))"
  by (rule cooldown_implies_unavailable [OF _ refl, where t = 200])
    (simp add: calm_no_success, code_simp)

text \<open>C8: While a cooldown lasts the poll loop leaves the machine alone: for as many
  iterations as fit in what remains of it, the run is the same whatever reads and
  writes would do, since neither is called.\<close>

theorem cooldown_leaves_machine_alone:
  assumes "calm dev" "\<forall>b. bk_now (dv_close_link dev b) = bk_now b"
    and "\<forall>b. bk_now (dv_sleep dev interval b) = bk_now b + interval" "0 < interval"
    and "of_nat n * interval \<le> cooldown_remaining (bk_now b) (bk_wedge b)"
  shows "(poll_iteration dev settings_every interval ^^ n) b
    = (poll_iteration (dev\<lparr>dv_read := rd, dv_write := wr\<rparr>) settings_every interval ^^ n) b"
  using assms(5)
proof (induction n arbitrary: b)
  case (Suc n)
  let ?f = "poll_iteration dev settings_every interval"
  let ?g = "poll_iteration (dev\<lparr>dv_read := rd, dv_write := wr\<rparr>) settings_every interval"
  have pos: "0 < cooldown_remaining (bk_now b) (bk_wedge b)"
    using Suc.prems assms(4) by (intro less_le_trans [OF _ Suc.prems]) (simp add: add_pos_nonneg)
  then have cd: "in_cooldown (bk_now b) (bk_wedge b)"
    by (simp add: cooldown_remaining_def split: if_splits)
  have fg: "?f b = ?g b" using cd by (simp add: poll_iteration_def poll_cycle_def Let_def)
  have w: "bk_wedge (?f b) = bk_wedge b" "bk_now (?f b) = bk_now b + interval"
    using cd calm_simps(6,8) [OF assms(1)] assms(2,3)
    by (simp_all add: poll_iteration_def poll_cycle_def Let_def)
  have "of_nat n * interval \<le> cooldown_remaining (bk_now (?f b)) (bk_wedge (?f b))"
    using Suc.prems cd assms(4) unfolding w
    by (cases "n = 0")
      (auto simp: cooldown_remaining_def in_cooldown_def algebra_simps split: option.splits)
  from Suc.IH [OF this] show ?case by (simp add: funpow_Suc_right fg del: funpow.simps)
qed simp

theorem cooldown_leaves_machine_alone_witness:
  "(poll_iteration dead_machine 6 60 ^^ 4)
      ((new_broker mqtt_config 0 ())\<lparr>bk_wedge := fst (begin_cooldown 0 default_wedge)\<rparr>)
   = (poll_iteration (dead_machine\<lparr>dv_read := dv_read good_machine,
        dv_write := dv_write good_machine\<rparr>) 6 60 ^^ 4)
      ((new_broker mqtt_config 0 ())\<lparr>bk_wedge := fst (begin_cooldown 0 default_wedge)\<rparr>)"
  by (rule cooldown_leaves_machine_alone)
    (simp_all, simp_all add: dead_machine_def new_broker_def begin_cooldown_def default_wedge_def
      new_wedge_def COOLDOWN_STEPS_def cooldown_remaining_def in_cooldown_def)

text \<open>An MQTT command is not held back by the cooldown: it writes at once, and when
  that works the machine is reported as available while the wedge controller
  still counts down.\<close>

theorem mqtt_command_ends_unavailable_in_cooldown:
  assumes "calm dev" "in_cooldown (bk_now b) (bk_wedge b)"
    and "find_encoder key = Some enc" "enc payload = Inr (address, data)"
    and "dv_write dev address data b = (Inr (), b1)"
    and "dv_read dev SETTINGS_BASE SETTINGS_LEN b1 = (Inr block, b2)"
  defines "b' \<equiv> snd (apply_command dev key payload b)"
  shows "available (bk_store b') \<and> in_cooldown (bk_now b) (bk_wedge b')"
proof -
  have w: "bk_wedge b1 = bk_wedge b" using calm_simps(4) [OF assms(1), of address data b] assms(5) by simp
  then have w2: "bk_wedge b2 = bk_wedge b"
    using calm_simps(2) [OF assms(1), of SETTINGS_BASE SETTINGS_LEN b1] assms(6) by simp
  have e: "b' = publish_now (on_store Success (on_store (Settings block) b2))"
    using assms(3-6) by (simp add: b'_def apply_command_def poll_settings_def Let_def)
  have "available (bk_store (on_store Success (on_store (Settings block) b2)))"
    by (simp add: note_fields available_def)
  then have "available (bk_store b')" unfolding e by (simp add: publish_now_frame)
  moreover have "bk_wedge b' = bk_wedge b" unfolding e by (simp add: publish_now_frame w2)
  ultimately show ?thesis using assms(2) by simp
qed

theorem mqtt_command_ends_unavailable_in_cooldown_witness:
  "let b = (new_broker mqtt_config 0 ())\<lparr>bk_wedge := fst (begin_cooldown 0 default_wedge)\<rparr>;
       b' = snd (apply_command good_machine ''power'' ''ON'' b)
   in available (bk_store b') \<and> in_cooldown (bk_now b) (bk_wedge b')"
  unfolding Let_def
  by (rule mqtt_command_ends_unavailable_in_cooldown
      [where enc = "encode_bool STANDBY 0 1" and address = STANDBY and data = "[0]"
        and block = "replicate (nat SETTINGS_LEN) 1"])
    (simp_all add: find_encoder_power, simp_all add: good_machine_def new_broker_def
      begin_cooldown_def default_wedge_def new_wedge_def COOLDOWN_STEPS_def in_cooldown_def,
      code_simp)

text \<open>A payload that \<open>float()\<close> reads as an infinity, sent as the target of either
  thermostat, raises an \<open>OverflowError\<close> that \<open>_apply_command\<close> does not catch: it
  leaves the command loop, and with it the broker.\<close>

theorem infinite_setpoint_escapes:
  assumes "key \<in> {''brew_boiler'', ''steam_boiler''}" "py_float payload = Inr (Inf negative)"
  shows "apply_command dev key payload b = (Inl OverflowError, b)"
  using assms
  by (auto simp: apply_command_def find_encoder_climate encode_ranged_def)

theorem infinite_setpoint_escapes_witness:
  "apply_command good_machine ''brew_boiler'' ''inf'' (new_broker mqtt_config 0 ())
     = (Inl OverflowError, new_broker mqtt_config 0 ())"
  by (rule infinite_setpoint_escapes [where negative = False]) (simp, code_simp)

end
