(* ===== verification/Intents.thy ===== *)
theory Intents
  imports Broker Json
begin

text \<open>
  The write-intent channel of \<open>bridge/r60v_broker/broker.py\<close>: a WebSocket command is
  validated, queued, reflected in the store and broadcast; a single consumer waits
  out any cooldown, writes with retries, removes the command's overlay and reads the
  settings back. \<open>wait_cooldown\<close> is the only loop without a static bound; it returns
  whenever sleeping advances the clock.
\<close>

section \<open>Write intents\<close>

definition WRITE_RETRIES :: nat where
  "WRITE_RETRIES = 2"

definition WRITE_RETRY_BACKOFF :: time where
  "WRITE_RETRY_BACKOFF = 1 / 2"

definition INTENT_QUEUE_MAX :: nat where
  "INTENT_QUEUE_MAX = 32"

fun as_bytes :: "json list \<Rightarrow> int list option" where
  "as_bytes [] = Some []"
| "as_bytes (j # js) =
     (case as_int j of
        None \<Rightarrow> None
      | Some n \<Rightarrow> if n < 0 \<or> 255 < n then None else map_option ((#) n) (as_bytes js))"

fun parse_command :: "json \<Rightarrow> (int \<times> int list) option" where
  "parse_command (JObj kvs) =
     (case (Option.bind (map_of kvs ''address'') as_int, map_of kvs ''data'') of
        (Some address, Some (JList (j # js))) \<Rightarrow>
          map_option (Pair address) (as_bytes (j # js))
      | _ \<Rightarrow> None)"
| "parse_command _ = None"

definition on_ws_command :: "json \<Rightarrow> 'd broker \<Rightarrow> 'd broker" where
  "on_ws_command frame b =
     (case parse_command frame of
        None \<Rightarrow> b
      | Some (address, data) \<Rightarrow>
          (case bk_intents b of
             None \<Rightarrow> b
           | Some q \<Rightarrow>
               if INTENT_QUEUE_MAX \<le> length q then b
               else broadcast_state (on_store (Optimistic address data)
                      (b\<lparr>bk_intents := Some (q @ [(address, data)])\<rparr>))))"

text \<open>\<open>_handle_inbound\<close> of the push server, given what \<open>json.loads\<close> returned, \<open>None\<close> when
  it raised.\<close>

definition handle_inbound :: "json option \<Rightarrow> 'd broker \<Rightarrow> 'd broker" where
  "handle_inbound parsed b =
     (case parsed of
        Some (JObj kvs) \<Rightarrow>
          if map_of kvs ''type'' = Some (JStr ''command'') then on_ws_command (JObj kvs) b else b
      | _ \<Rightarrow> b)"

partial_function (option) wait_cooldown :: "'d device \<Rightarrow> 'd broker \<Rightarrow> 'd broker option" where
  "wait_cooldown dev b =
     (if in_cooldown (bk_now b) (bk_wedge b)
      then wait_cooldown dev
             (dv_sleep dev (min (cooldown_remaining (bk_now b) (bk_wedge b) + 1 / 20) 5) b)
      else Some b)"

text \<open>The retries, with the number left: whether it wrote.\<close>

fun write_tries :: "'d device \<Rightarrow> nat \<Rightarrow> int \<Rightarrow> int list \<Rightarrow> 'd broker \<Rightarrow> bool res \<times> 'd broker" where
  "write_tries dev n address data b =
     (case dv_write dev address data b of
        (Inr _, b) \<Rightarrow> (Inr True, b)
      | (Inl e, b) \<Rightarrow>
          if e \<noteq> R60VConnectionError then (Inl e, b)
          else (case n of
                  0 \<Rightarrow> (Inr False, b)
                | Suc m \<Rightarrow> write_tries dev m address data (dv_sleep dev WRITE_RETRY_BACKOFF b)))"

declare write_tries.simps [simp del]

lemma write_tries_simps [simp]:
  "write_tries dev 0 a d b =
     (case dv_write dev a d b of
        (Inr _, b) \<Rightarrow> (Inr True, b)
      | (Inl e, b) \<Rightarrow> if e \<noteq> R60VConnectionError then (Inl e, b) else (Inr False, b))"
  "write_tries dev (Suc n) a d b =
     (case dv_write dev a d b of
        (Inr _, b) \<Rightarrow> (Inr True, b)
      | (Inl e, b) \<Rightarrow>
          if e \<noteq> R60VConnectionError then (Inl e, b)
          else write_tries dev n a d (dv_sleep dev WRITE_RETRY_BACKOFF b))"
  by (simp_all add: write_tries.simps split: prod.split sum.split)

definition intent_bytes :: "int \<Rightarrow> int list \<Rightarrow> (int \<times> int) list" where
  "intent_bytes address data =
     map (\<lambda>(offset, byte). (address + int offset, byte)) (enumerate 0 data)"

definition reconcile :: "'d device \<Rightarrow> bool \<Rightarrow> int \<Rightarrow> int list \<Rightarrow> 'd broker \<Rightarrow> unit res \<times> 'd broker" where
  "reconcile dev wrote address data b =
     (let b = on_store (Reconcile (intent_bytes address data)) b;
          b = (if wrote then b else on_store Failure b)
      in case poll_settings dev b of
           (Inr _, b) \<Rightarrow> (Inr (), broadcast_state (on_store Success b))
         | (Inl e, b) \<Rightarrow>
             if e = R60VConnectionError then (Inr (), broadcast_state (on_store Failure b))
             else (Inl e, b))"

definition write_and_reconcile :: "'d device \<Rightarrow> int \<Rightarrow> int list \<Rightarrow> 'd broker
    \<Rightarrow> (unit res \<times> 'd broker) option" where
  "write_and_reconcile dev address data b =
     map_option
       (\<lambda>b. case write_tries dev WRITE_RETRIES address data b of
              (Inl e, b) \<Rightarrow> (Inl e, b)
            | (Inr wrote, b) \<Rightarrow> reconcile dev wrote address data b)
       (wait_cooldown dev b)"

text \<open>One round of \<open>_write_intent_loop\<close> when an intent is queued: any exception is
  logged and the loop goes on.\<close>

definition intent_round :: "'d device \<Rightarrow> 'd broker \<Rightarrow> 'd broker option" where
  "intent_round dev b =
     (case bk_intents b of
        Some ((address, data) # q) \<Rightarrow>
          map_option snd (write_and_reconcile dev address data (b\<lparr>bk_intents := Some q\<rparr>))
      | _ \<Rightarrow> Some b)"

section \<open>Waiting out a cooldown\<close>

text \<open>Time never runs backwards, and a sleep lasts at least as long as asked.\<close>

definition advancing :: "'d device \<Rightarrow> bool" where
  "advancing dev \<longleftrightarrow>
     (\<forall>a n b. bk_now b \<le> bk_now (snd (dv_read dev a n b)))
     \<and> (\<forall>a d b. bk_now b \<le> bk_now (snd (dv_write dev a d b)))
     \<and> (\<forall>dt b. bk_now b + dt \<le> bk_now (dv_sleep dev dt b))"

lemma advancing_machines [simp]: "advancing dead_machine" "advancing good_machine"
  by (simp_all add: advancing_def dead_machine_def good_machine_def)

declare wait_cooldown.simps [code]

lemma remaining_pos: "in_cooldown t w \<longleftrightarrow> 0 < cooldown_remaining t w"
  by (auto simp: cooldown_remaining_def in_cooldown_def split: option.splits)

lemma remaining_step:
  "t + dt \<le> t' \<Longrightarrow> cooldown_remaining t' w \<le> max 0 (cooldown_remaining t w - dt)"
  by (auto simp: cooldown_remaining_def in_cooldown_def split: option.splits)

text \<open>The wedge controller belongs to the poll loop. During the awaits of a write intent it
  begins or ends no cooldown when this holds of the device; the store may change.\<close>

definition wedge_kept :: "'d device \<Rightarrow> bool" where
  "wedge_kept dev \<longleftrightarrow>
     (\<forall>a d b. bk_wedge (snd (dv_write dev a d b)) = bk_wedge b)
     \<and> (\<forall>dt b. bk_wedge (dv_sleep dev dt b) = bk_wedge b)"

lemma calm_wedge_kept [simp]: "calm dev \<Longrightarrow> wedge_kept dev"
  by (simp add: calm_def same_verdicts_def wedge_kept_def)

text \<open>The loop ends, outside the cooldown, and calls nothing but \<open>sleep\<close>.\<close>

lemma wait_cooldown_bounded:
  assumes "wedge_kept dev" "advancing dev" "dv_sleep dev' = dv_sleep dev"
    and "cooldown_remaining (bk_now b) (bk_wedge b) \<le> 5 * of_nat n"
  shows "\<exists>b'. wait_cooldown dev b = Some b' \<and> wait_cooldown dev' b = Some b'
    \<and> (calm dev \<longrightarrow> same_verdicts b b') \<and> \<not> in_cooldown (bk_now b') (bk_wedge b')"
  using assms(4)
proof (induction n arbitrary: b)
  case 0
  then have "\<not> in_cooldown (bk_now b) (bk_wedge b)" by (simp add: remaining_pos)
  then show ?case by (simp add: wait_cooldown.simps same_verdicts_def)
next
  case (Suc n)
  show ?case
  proof (cases "in_cooldown (bk_now b) (bk_wedge b)")
    case False
    then show ?thesis by (simp add: wait_cooldown.simps same_verdicts_def)
  next
    case True
    let ?rem = "cooldown_remaining (bk_now b) (bk_wedge b)"
    let ?b = "dv_sleep dev (min (?rem + 1 / 20) 5) b"
    have w: "bk_wedge ?b = bk_wedge b" using assms(1) by (simp add: wedge_kept_def)
    have "bk_now b + min (?rem + 1 / 20) 5 \<le> bk_now ?b" using assms(2) by (simp add: advancing_def)
    from remaining_step [OF this, of "bk_wedge b"]
    have "cooldown_remaining (bk_now ?b) (bk_wedge ?b) \<le> 5 * of_nat n"
      using Suc.prems w by (auto simp: algebra_simps min_def split: if_splits)
    from Suc.IH [OF this] obtain b' where b': "wait_cooldown dev ?b = Some b'"
      "wait_cooldown dev' ?b = Some b'" "calm dev \<longrightarrow> same_verdicts ?b b'"
      "\<not> in_cooldown (bk_now b') (bk_wedge b')"
      by blast
    have "calm dev \<longrightarrow> same_verdicts b b'"
      using b'(3) by (simp add: same_verdicts_def calm_simps)
    moreover have "wait_cooldown dev b = Some b'" "wait_cooldown dev' b = Some b'"
      using True b'(1,2) assms(3) by (simp_all add: wait_cooldown.simps [of _ b])
    ultimately show ?thesis using b'(4) by blast
  qed
qed

lemma wait_cooldown_ends:
  assumes "wedge_kept dev" "advancing dev" "dv_sleep dev' = dv_sleep dev"
  obtains b' where "wait_cooldown dev b = Some b'" "wait_cooldown dev' b = Some b'"
    "calm dev \<longrightarrow> same_verdicts b b'" "\<not> in_cooldown (bk_now b') (bk_wedge b')"
proof -
  obtain n :: nat where "cooldown_remaining (bk_now b) (bk_wedge b) \<le> of_nat n"
    using real_arch_simple by blast
  then have "cooldown_remaining (bk_now b) (bk_wedge b) \<le> 5 * of_nat n"
    by (rule order_trans) simp
  with wait_cooldown_bounded [OF assms] that show thesis by blast
qed

lemma wait_cooldown_returns:
  assumes "calm dev" "advancing dev" "dv_sleep dev' = dv_sleep dev"
  obtains b' where "wait_cooldown dev b = Some b'" "wait_cooldown dev' b = Some b'"
    "same_verdicts b b'" "\<not> in_cooldown (bk_now b') (bk_wedge b')"
  using wait_cooldown_ends [OF calm_wedge_kept [OF assms(1)] assms(2,3)] assms(1) that by blast

section \<open>Writing\<close>

lemma write_tries_calm:
  assumes "calm dev" "write_tries dev n a d b = (r, b')"
  shows "same_verdicts b b'"
  using assms(2)
proof (induction n arbitrary: b)
  case 0
  then show ?case
    using calm_simps(3,4) [OF assms(1), of a d b]
    by (auto simp: same_verdicts_def split: prod.splits sum.splits if_splits)
next
  case (Suc n)
  obtain r1 b1 where e: "dv_write dev a d b = (r1, b1)" by (cases "dv_write dev a d b")
  have b1: "same_verdicts b b1"
    using calm_simps(3,4) [OF assms(1), of a d b] by (simp add: same_verdicts_def e)
  have "same_verdicts b1 (dv_sleep dev WRITE_RETRY_BACKOFF b1)" using assms(1) by (simp add: calm_def)
  then show ?case
    using Suc.prems b1 Suc.IH [of "dv_sleep dev WRITE_RETRY_BACKOFF b1"]
    by (auto simp: e same_verdicts_def split: sum.splits if_splits)
qed

text \<open>The only exceptions of the two machine operations are connection errors.\<close>

definition connection_errors_only :: "'d device \<Rightarrow> bool" where
  "connection_errors_only dev \<longleftrightarrow>
     (\<forall>a n b e. fst (dv_read dev a n b) = Inl e \<longrightarrow> e = R60VConnectionError)
     \<and> (\<forall>a d b e. fst (dv_write dev a d b) = Inl e \<longrightarrow> e = R60VConnectionError)"

lemma write_tries_absorbs:
  assumes "connection_errors_only dev"
  shows "\<exists>wrote. fst (write_tries dev n a d b) = Inr wrote"
proof (induction n arbitrary: b)
  case 0
  obtain r1 b1 where e: "dv_write dev a d b = (r1, b1)" by (cases "dv_write dev a d b")
  have "r1 = Inl x \<Longrightarrow> x = R60VConnectionError" for x
    using assms e unfolding connection_errors_only_def by (metis fst_conv)
  then show ?case by (cases r1) (auto simp: e)
next
  case (Suc n)
  obtain r1 b1 where e: "dv_write dev a d b = (r1, b1)" by (cases "dv_write dev a d b")
  have "r1 = Inl x \<Longrightarrow> x = R60VConnectionError" for x
    using assms e unfolding connection_errors_only_def by (metis fst_conv)
  then show ?case using Suc.IH by (cases r1) (auto simp: e)
qed

lemma write_tries_all_fail:
  assumes "\<forall>b. fst (dv_write dev a d b) = Inl R60VConnectionError"
  shows "fst (write_tries dev n a d b) = Inr False"
proof (induction n arbitrary: b)
  case 0
  show ?case using assms [rule_format, of b] by (cases "dv_write dev a d b") simp
next
  case (Suc n)
  show ?case using assms [rule_format, of b] Suc.IH by (cases "dv_write dev a d b") simp
qed

lemma reconcile_cases:
  obtains c r e where
    "bk_store c = (let st = reconcile_clear (intent_bytes a d) (bk_store b)
       in if wrote then st else note_failure st)"
    "bk_now c = bk_now b" "bk_wedge c = bk_wedge b"
    "dv_read dev SETTINGS_BASE SETTINGS_LEN c = (r, e)"
    "reconcile dev wrote a d b =
       (case r of
          Inr data \<Rightarrow> (Inr (), broadcast_state (on_store Success (on_store (Settings data) e)))
        | Inl x \<Rightarrow> if x = R60VConnectionError then (Inr (), broadcast_state (on_store Failure e))
                   else (Inl x, e))"
proof -
  define c where "c = (let b = on_store (Reconcile (intent_bytes a d)) b
    in if wrote then b else on_store Failure b)"
  obtain r e where e: "dv_read dev SETTINGS_BASE SETTINGS_LEN c = (r, e)"
    by (cases "dv_read dev SETTINGS_BASE SETTINGS_LEN c")
  show thesis
  proof (rule that [OF _ _ _ e])
    show "reconcile dev wrote a d b =
       (case r of
          Inr data \<Rightarrow> (Inr (), broadcast_state (on_store Success (on_store (Settings data) e)))
        | Inl x \<Rightarrow> if x = R60VConnectionError then (Inr (), broadcast_state (on_store Failure e))
                   else (Inl x, e))"
      using e by (cases wrote; cases r) (simp_all add: reconcile_def c_def poll_settings_def)
  qed (simp_all add: c_def Let_def)
qed

lemma drop_intent_bytes:
  "map_of (drop_bytes (intent_bytes a d) m) x =
     (if \<exists>k < length d. x = a + int k \<and> map_of m x = Some (d ! k) then None else map_of m x)"
proof -
  have i: "intent_bytes a d = map (\<lambda>k. (a + int k, d ! k)) [0..<length d]"
    by (rule nth_equalityI) (simp_all add: intent_bytes_def nth_enumerate_eq)
  have dist: "distinct (map fst (intent_bytes a d))"
    by (simp add: i distinct_map inj_on_def comp_def)
  have "map_of (intent_bytes a d) x = Some y \<longleftrightarrow> (\<exists>k < length d. x = a + int k \<and> y = d ! k)" for y
    unfolding map_of_eq_Some_iff [OF dist] by (auto simp: i)
  note ib = this
  show ?thesis
  proof (cases "\<exists>k < length d. x = a + int k")
    case True
    then obtain k where k: "k < length d" "x = a + int k" by blast
    then have "map_of (intent_bytes a d) x = Some (d ! k)" using ib by blast
    then show ?thesis using k by (auto simp: map_of_drop_bytes [OF dist])
  next
    case False
    then have "map_of (intent_bytes a d) x = None" using ib by (cases "map_of (intent_bytes a d) x") auto
    then show ?thesis using False by (auto simp: map_of_drop_bytes [OF dist])
  qed
qed

text \<open>A device whose reads and writes do something else while a cooldown lasts.\<close>

definition blind_in_cooldown :: "(int \<Rightarrow> int \<Rightarrow> 'd broker \<Rightarrow> int list res \<times> 'd broker)
    \<Rightarrow> (int \<Rightarrow> int list \<Rightarrow> 'd broker \<Rightarrow> unit res \<times> 'd broker) \<Rightarrow> 'd device \<Rightarrow> 'd device" where
  "blind_in_cooldown rd wr dev =
     dev\<lparr>dv_read := \<lambda>a n b. if in_cooldown (bk_now b) (bk_wedge b) then rd a n b
                            else dv_read dev a n b,
         dv_write := \<lambda>a d b. if in_cooldown (bk_now b) (bk_wedge b) then wr a d b
                             else dv_write dev a d b\<rparr>"

lemma blind_simps [simp]:
  "dv_sleep (blind_in_cooldown rd wr dev) = dv_sleep dev"
  "\<not> in_cooldown (bk_now b) (bk_wedge b) \<Longrightarrow>
     dv_read (blind_in_cooldown rd wr dev) a n b = dv_read dev a n b"
  "\<not> in_cooldown (bk_now b) (bk_wedge b) \<Longrightarrow>
     dv_write (blind_in_cooldown rd wr dev) a d b = dv_write dev a d b"
  by (simp_all add: blind_in_cooldown_def)

lemma cooldown_stays_over:
  "\<not> in_cooldown t w \<Longrightarrow> t \<le> t' \<Longrightarrow> \<not> in_cooldown t' w"
  by (auto simp: in_cooldown_def split: option.splits)

lemma write_tries_clock:
  assumes "wedge_kept dev" "advancing dev" "\<not> in_cooldown (bk_now b) (bk_wedge b)"
  shows "write_tries (blind_in_cooldown rd wr dev) n a d b = write_tries dev n a d b
    \<and> bk_now b \<le> bk_now (snd (write_tries dev n a d b))
    \<and> bk_wedge (snd (write_tries dev n a d b)) = bk_wedge b"
  using assms(3)
proof (induction n arbitrary: b)
  case (Suc n)
  obtain r1 c where e: "dv_write dev a d b = (r1, c)" by (cases "dv_write dev a d b")
  let ?c = "dv_sleep dev WRITE_RETRY_BACKOFF c"
  have "bk_now b \<le> bk_now (snd (dv_write dev a d b))"
    "bk_now c + WRITE_RETRY_BACKOFF \<le> bk_now ?c"
    using assms(2) by (simp_all add: advancing_def)
  then have t: "bk_now b \<le> bk_now c" "bk_now b \<le> bk_now ?c"
    by (simp_all add: e WRITE_RETRY_BACKOFF_def)
  have "bk_wedge (snd (dv_write dev a d b)) = bk_wedge b" "bk_wedge ?c = bk_wedge c"
    using assms(1) by (simp_all add: wedge_kept_def)
  then have w: "bk_wedge c = bk_wedge b" "bk_wedge ?c = bk_wedge b" by (simp_all add: e)
  then have "\<not> in_cooldown (bk_now ?c) (bk_wedge ?c)"
    using cooldown_stays_over [OF Suc.prems t(2)] by simp
  from Suc.IH [OF this] show ?case using Suc.prems t w by (auto simp: e split: sum.split)
next
  case 0
  obtain r1 c where e: "dv_write dev a d b = (r1, c)" by (cases "dv_write dev a d b")
  have "bk_now b \<le> bk_now (snd (dv_write dev a d b))" using assms(2) by (simp add: advancing_def)
  moreover have "bk_wedge (snd (dv_write dev a d b)) = bk_wedge b"
    using assms(1) by (simp add: wedge_kept_def)
  ultimately show ?case using 0 by (auto simp: e split: sum.split)
qed

section \<open>Properties\<close>

text \<open>C9: Write intents respect the cooldown: when the poll loop begins or ends no
  cooldown during the awaits of the intent and the clock advances, draining an intent
  behaves the same if every read and write that is issued during a cooldown is
  replaced by anything else, that is, it issues none, and the wait for the cooldown to
  end is finite. The cooldown is looked at once, before the tries: see
  \<open>write_retried_inside_cooldown\<close> for one that begins between them.\<close>

theorem write_intents_respect_cooldown:
  assumes "wedge_kept dev" "advancing dev"
  shows "intent_round dev b \<noteq> None
    \<and> intent_round (blind_in_cooldown rd wr dev) b = intent_round dev b"
proof (cases "\<exists>a d q. bk_intents b = Some ((a, d) # q)")
  case False
  then show ?thesis by (auto simp: intent_round_def split: option.split list.split)
next
  case True
  then obtain a d q where q: "bk_intents b = Some ((a, d) # q)" by blast
  let ?b = "b\<lparr>bk_intents := Some q\<rparr>" and ?dev = "blind_in_cooldown rd wr dev"
  obtain b' where b': "wait_cooldown dev ?b = Some b'" "wait_cooldown ?dev ?b = Some b'"
    "\<not> in_cooldown (bk_now b') (bk_wedge b')"
    by (rule wait_cooldown_ends [OF assms, of ?dev ?b]) auto
  obtain r c where t: "write_tries dev WRITE_RETRIES a d b' = (r, c)"
    by (cases "write_tries dev WRITE_RETRIES a d b'")
  have c: "write_tries ?dev WRITE_RETRIES a d b' = (r, c)"
    "\<not> in_cooldown (bk_now c) (bk_wedge c)"
    using write_tries_clock [OF assms b'(3), of rd wr WRITE_RETRIES a d] t
      cooldown_stays_over [OF b'(3), of "bk_now c"] by simp_all
  have "reconcile ?dev wrote a d c = reconcile dev wrote a d c" for wrote
    using c(2) by (cases wrote) (simp_all add: reconcile_def poll_settings_def)
  then show ?thesis
    by (simp add: intent_round_def q write_and_reconcile_def b' t c(1) split: sum.split)
qed

text \<open>A broker whose machine is in its first cooldown and whose queue holds one intent
  for the settings byte 1, reflected in the store.\<close>

definition waiting_broker :: "unit broker" where
  "waiting_broker = on_ws_command
     (JObj [(''address'', JInt 1), (''data'', JList [JInt 7])])
     (on_store (Settings [1, 1, 1])
        ((new_broker mqtt_config 0 ())\<lparr>bk_wedge := fst (begin_cooldown 0 default_wedge)\<rparr>))"

theorem write_intents_respect_cooldown_witness:
  "intent_round good_machine waiting_broker \<noteq> None
   \<and> intent_round (blind_in_cooldown (\<lambda>a n b. (Inl TypeError, b)) (\<lambda>a d b. (Inl TypeError, b))
        good_machine) waiting_broker
     = intent_round good_machine waiting_broker"
  by (rule write_intents_respect_cooldown) simp_all

text \<open>The machine refuses the first write, and while the intent sleeps before its second try
  the poll loop begins a cooldown: the second write goes out in it. The device logs for
  each write whether it was issued in a cooldown.\<close>

definition wedging_machine :: "bool list device" where
  "wedging_machine =
     \<lparr>dv_read = \<lambda>a n b. (Inl R60VConnectionError, b),
      dv_write = \<lambda>a d b. let c = in_cooldown (bk_now b) (bk_wedge b)
         in (if c then Inr () else Inl R60VConnectionError, b\<lparr>bk_dev := bk_dev b @ [c]\<rparr>),
      dv_close_link = \<lambda>b. b,
      dv_sleep = \<lambda>dt b. b\<lparr>bk_now := bk_now b + dt, bk_wedge := fst (begin_cooldown (bk_now b) (bk_wedge b))\<rparr>\<rparr>"

lemma write_retried_inside_cooldown:
  "map_option bk_dev (intent_round wedging_machine
      ((new_broker mqtt_config 0 [])\<lparr>bk_intents := Some [(1, [7])]\<rparr>)) = Some [False, True]"
  by code_simp

text \<open>C10: When the machine raises only connection errors, no other task changes the store
  or the wedge controller during the awaits and the clock advances, draining an intent
  always ends, whether or not the write succeeds, and what it leaves of the overlay is
  exactly what newer commands put there: a pending byte is removed if and only if
  it is the byte this command set at its address. Any other exception leaves the
  command's bytes in the overlay: \<open>unexpected_write_error_leaks_overlay\<close> below.\<close>

theorem write_intent_settles:
  assumes "calm dev" "advancing dev" "connection_errors_only dev"
    and "bk_intents b = Some ((a, d) # q)"
  shows "\<exists>b'. intent_round dev b = Some b' \<and>
    (\<forall>x. map_of (st_pending (bk_store b')) x =
       (if \<exists>k < length d. x = a + int k \<and> map_of (st_pending (bk_store b)) x = Some (d ! k)
        then None else map_of (st_pending (bk_store b)) x))"
proof -
  let ?b = "b\<lparr>bk_intents := Some q\<rparr>"
  obtain b1 where b1: "wait_cooldown dev ?b = Some b1" "same_verdicts ?b b1"
    by (rule wait_cooldown_returns [OF assms(1,2) refl, of ?b]) auto
  obtain wrote b2 where b2: "write_tries dev WRITE_RETRIES a d b1 = (Inr wrote, b2)"
    using write_tries_absorbs [OF assms(3), of WRITE_RETRIES a d b1]
    by (cases "write_tries dev WRITE_RETRIES a d b1") auto
  have st: "bk_store b2 = bk_store b"
    using write_tries_calm [OF assms(1) b2] b1(2) by (simp add: same_verdicts_def)
  have p: "st_pending (bk_store (snd (reconcile dev wrote a d b2)))
      = drop_bytes (intent_bytes a d) (st_pending (bk_store b))"
  proof (rule reconcile_cases [of a d b2 wrote dev])
    fix c r e
    assume c: "bk_store c = (let st = reconcile_clear (intent_bytes a d) (bk_store b2)
        in if wrote then st else note_failure st)"
      and e: "dv_read dev SETTINGS_BASE SETTINGS_LEN c = (r, e)"
      and r: "reconcile dev wrote a d b2 =
       (case r of
          Inr data \<Rightarrow> (Inr (), broadcast_state (on_store Success (on_store (Settings data) e)))
        | Inl x \<Rightarrow> if x = R60VConnectionError then (Inr (), broadcast_state (on_store Failure e))
                   else (Inl x, e))"
    have "bk_store e = bk_store c"
      using calm_simps(1) [OF assms(1), of SETTINGS_BASE SETTINGS_LEN c] by (simp add: e)
    then show ?thesis
      using c by (simp add: r st note_fields update_settings_fields Let_def split: sum.split)
  qed
  have "intent_round dev b = Some (snd (reconcile dev wrote a d b2))"
    by (simp add: intent_round_def assms(4) write_and_reconcile_def b1(1) b2)
  then show ?thesis using p by (auto simp: drop_intent_bytes)
qed

theorem write_intent_settles_witness:
  "\<exists>b'. intent_round dead_machine waiting_broker = Some b' \<and>
    (\<forall>x. map_of (st_pending (bk_store b')) x =
       (if \<exists>k < length [7 :: int]. x = 1 + int k
             \<and> map_of (st_pending (bk_store waiting_broker)) x = Some ([7] ! k)
        then None else map_of (st_pending (bk_store waiting_broker)) x))"
proof (rule write_intent_settles)
  show "bk_intents waiting_broker = Some ((1, [7]) # [])" by code_simp
qed (simp_all, simp add: connection_errors_only_def dead_machine_def)

text \<open>C11: A write the machine keeps refusing heals itself: after the retries the
  settings read shows the machine's own byte again, instead of the intended one,
  and the machine counts as available.\<close>

theorem failed_write_self_heals:
  assumes "calm dev" "advancing dev"
    and "\<forall>b. fst (dv_write dev a d b) = Inl R60VConnectionError"
    and "\<forall>b. fst (dv_read dev SETTINGS_BASE SETTINGS_LEN b) = Inr block"
    and "bk_intents b = Some ((a, d) # q)" "bk_store b = store_run hist (new_store g sa step)"
    and "0 \<le> a" "k < length d" "nat a + k < length block"
    and "map_of (st_pending (bk_store b)) (a + int k) = Some (d ! k)"
  shows "\<exists>b'. intent_round dev b = Some b' \<and> available (bk_store b')
    \<and> settings (bk_store b') ! (nat a + k) = block ! (nat a + k)"
proof -
  let ?b = "b\<lparr>bk_intents := Some q\<rparr>"
  obtain b1 where b1: "wait_cooldown dev ?b = Some b1" "same_verdicts ?b b1"
    by (rule wait_cooldown_returns [OF assms(1,2) refl, of ?b]) auto
  obtain b2 where b2: "write_tries dev WRITE_RETRIES a d b1 = (Inr False, b2)"
    using write_tries_all_fail [OF assms(3), of WRITE_RETRIES b1]
    by (cases "write_tries dev WRITE_RETRIES a d b1") auto
  have st: "bk_store b2 = bk_store b"
    using write_tries_calm [OF assms(1) b2] b1(2) by (simp add: same_verdicts_def)
  have ok: "pending_ok (st_pending (bk_store b))"
    using overlay_inv_run [OF overlay_inv_new, of hist g sa step] assms(6)
    by (simp add: overlay_inv_def)
  let ?m = "drop_bytes (intent_bytes a d) (st_pending (bk_store b))"
  have none: "map_of ?m (int (nat a + k)) = None"
    using assms(7,8,10) by (auto simp: drop_intent_bytes)
  show ?thesis
  proof (rule reconcile_cases [of a d b2 False dev])
    fix c r e
    assume c: "bk_store c = (let st = reconcile_clear (intent_bytes a d) (bk_store b2)
        in if False then st else note_failure st)"
      and e: "dv_read dev SETTINGS_BASE SETTINGS_LEN c = (r, e)"
      and r: "reconcile dev False a d b2 =
       (case r of
          Inr data \<Rightarrow> (Inr (), broadcast_state (on_store Success (on_store (Settings data) e)))
        | Inl x \<Rightarrow> if x = R60VConnectionError then (Inr (), broadcast_state (on_store Failure e))
                   else (Inl x, e))"
    have "r = Inr block" using assms(4) [rule_format, of c] by (simp add: e)
    moreover have "bk_store e = bk_store c"
      using calm_simps(1) [OF assms(1), of SETTINGS_BASE SETTINGS_LEN c] by (simp add: e)
    ultimately show ?thesis
      using c none pending_ok_drop_bytes [OF ok, of "intent_bytes a d"] assms(9)
      by (simp add: intent_round_def assms(5) write_and_reconcile_def b1(1) b2 r st available_def
          note_fields update_settings_fields Let_def nth_overlay)
  qed
qed

lemma waiting_broker_facts:
  "bk_intents waiting_broker = Some ((1, [7]) # [])"
  "bk_store waiting_broker =
     store_run [Subscribe PUBLISHER, Settings [1, 1, 1], Optimistic 1 [7]] (new_store 4 12 1)"
  "map_of (st_pending (bk_store waiting_broker)) (1 + int 0) = Some ([7] ! 0)"
  by code_simp+

theorem failed_write_self_heals_witness:
  "\<exists>b'. intent_round (good_machine\<lparr>dv_write := dv_write dead_machine\<rparr>) waiting_broker = Some b'
     \<and> available (bk_store b')
     \<and> settings (bk_store b') ! (nat 1 + 0) = replicate (nat SETTINGS_LEN) 1 ! (nat 1 + 0)"
  by (rule failed_write_self_heals [OF _ _ _ _ waiting_broker_facts(1,2) _ _ _ waiting_broker_facts(3)])
    (simp_all add: calm_def same_verdicts_def advancing_def good_machine_def dead_machine_def
      SETTINGS_LEN_def)

text \<open>Any other exception of the governed write skips the reconcile: the overlay of
  that command is never removed, so from then on no poll can show the machine's
  byte at its addresses.\<close>

theorem unexpected_write_error_leaks_overlay:
  assumes "calm dev" "\<not> in_cooldown (bk_now b) (bk_wedge b)"
    and "bk_intents b = Some ((a, d) # q)" "bk_store b = store_run hist (new_store g sa step)"
    and "dv_write dev a d (b\<lparr>bk_intents := Some q\<rparr>) = (Inl x, b')" "x \<noteq> R60VConnectionError"
    and "0 \<le> a" "map_of (st_pending (bk_store b)) (a + int k) = Some (d ! k)"
    and "\<forall>op \<in> set polls. (case op of Optimistic _ _ \<Rightarrow> False | Reconcile _ \<Rightarrow> False | _ \<Rightarrow> True)"
    and "nat a + k < length (settings (store_run polls (bk_store b')))"
  shows "intent_round dev b = Some b'
    \<and> settings (store_run polls (bk_store b')) ! (nat a + k) = d ! k"
proof -
  let ?b = "b\<lparr>bk_intents := Some q\<rparr>"
  have "wait_cooldown dev ?b = Some ?b" using assms(2) by (simp add: wait_cooldown.simps)
  moreover have "write_tries dev WRITE_RETRIES a d ?b = (Inl x, b')"
    using assms(5,6) by (simp add: write_tries.simps)
  ultimately have r: "intent_round dev b = Some b'"
    by (simp add: intent_round_def assms(3) write_and_reconcile_def)
  have st: "bk_store b' = bk_store b"
    using calm_simps(3) [OF assms(1), of a d ?b] assms(5) by simp
  have "overlay_inv (store_run (hist @ polls) (new_store g sa step))"
    by (simp only: overlay_inv_run overlay_inv_new)
  then have "overlay_inv (store_run polls (bk_store b'))" by (simp add: st assms(4))
  moreover have "map_of (st_pending (store_run polls (bk_store b'))) (int (nat a + k)) = Some (d ! k)"
    using assms(7,8) by (simp add: store_run_pending [OF assms(9)] st)
  ultimately show ?thesis using r assms(10) by (simp add: overlay_inv_def)
qed

theorem unexpected_write_error_leaks_overlay_witness:
  "intent_round (good_machine\<lparr>dv_write := \<lambda>a d b. (Inl AttributeError, b)\<rparr>)
       (waiting_broker\<lparr>bk_wedge := default_wedge\<rparr>)
     = Some (waiting_broker\<lparr>bk_wedge := default_wedge, bk_intents := Some []\<rparr>)
   \<and> settings (store_run [Settings [3, 3, 3], Success]
       (bk_store (waiting_broker\<lparr>bk_wedge := default_wedge, bk_intents := Some []\<rparr>)))
       ! (nat 1 + 0) = [7] ! 0"
proof (rule unexpected_write_error_leaks_overlay [where x = AttributeError])
  show "bk_store (waiting_broker\<lparr>bk_wedge := default_wedge\<rparr>)
      = store_run [Subscribe PUBLISHER, Settings [1, 1, 1], Optimistic 1 [7]] (new_store 4 12 1)"
    using waiting_broker_facts(2) by simp
  show "bk_intents (waiting_broker\<lparr>bk_wedge := default_wedge\<rparr>) = Some ((1, [7]) # [])"
    using waiting_broker_facts(1) by simp
  show "map_of (st_pending (bk_store (waiting_broker\<lparr>bk_wedge := default_wedge\<rparr>))) (1 + int 0)
      = Some ([7] ! 0)"
    using waiting_broker_facts(3) by simp
qed (simp_all add: calm_def same_verdicts_def good_machine_def in_cooldown_def default_wedge_def
    new_wedge_def waiting_broker_facts(2) update_settings_fields note_fields)

lemma as_bytes_range: "as_bytes js = Some d \<Longrightarrow> length d = length js \<and> list_all is_byte d"
  by (induction js arbitrary: d) (auto simp: is_byte_def split: option.splits if_splits)

lemma parse_command_bytes:
  assumes "parse_command frame = Some (a, d)"
  shows "d \<noteq> []" "list_all is_byte d"
proof -
  obtain j js where "as_bytes (j # js) = Some d"
    using assms
    by (cases frame)
      (auto simp del: as_bytes.simps split: option.splits json.splits list.splits)
  from as_bytes_range [OF this] show "d \<noteq> []" "list_all is_byte d" by auto
qed

text \<open>Whatever the subscribers send, the queue of write intents never exceeds its
  bound, and every intent in it writes at least one byte and only bytes.\<close>

theorem intents_bounded:
  assumes "bk_intents b0 = Some []"
  shows "case bk_intents (fold handle_inbound msgs b0) of
      None \<Rightarrow> False
    | Some q \<Rightarrow> length q \<le> INTENT_QUEUE_MAX \<and> (\<forall>(a, d) \<in> set q. d \<noteq> [] \<and> list_all is_byte d)"
proof -
  define ok where "ok b \<longleftrightarrow> (\<exists>q. bk_intents b = Some q \<and> length q \<le> INTENT_QUEUE_MAX
      \<and> (\<forall>(a, d) \<in> set q. d \<noteq> [] \<and> list_all is_byte d))" for b :: "'a broker"
  have "ok (on_ws_command frame b)" if "ok b" for frame b
    using that parse_command_bytes [of frame]
    by (auto simp: ok_def on_ws_command_def split: option.split)
  then have "ok (handle_inbound msg b)" if "ok b" for msg b
    using that by (auto simp: handle_inbound_def split: option.split json.split)
  then have "ok b \<Longrightarrow> ok (fold handle_inbound msgs b)" for b
    by (induction msgs arbitrary: b) auto
  moreover have "ok b0" using assms by (simp add: ok_def)
  ultimately have "ok (fold handle_inbound msgs b0)" by blast
  then show ?thesis by (auto simp: ok_def)
qed

theorem intents_bounded_witness:
  "case bk_intents (fold handle_inbound [Some (JObj []), None] (new_broker mqtt_config 0 ())) of
      None \<Rightarrow> False
    | Some q \<Rightarrow> length q \<le> INTENT_QUEUE_MAX \<and> (\<forall>(a, d) \<in> set q. d \<noteq> [] \<and> list_all is_byte d)"
  by (rule intents_bounded) (simp add: new_broker_def)

text \<open>C12: Once the cache has data, a well-formed command whose bytes all lie within the cached
  settings, while the queue has room, is queued last and shown at once: the cache holds
  its bytes and every subscriber that is not stalled is sent a snapshot that holds them.
  A full queue drops the command, and one outside of the cached block is queued unseen.\<close>

theorem command_queued_and_shown:
  assumes "map_of kvs ''type'' = Some (JStr ''command'')" "parse_command (JObj kvs) = Some (a, d)"
    and "bk_intents b = Some q" "length q < INTENT_QUEUE_MAX"
    and "bk_store b = store_run hist (new_store g sa step)" "st_have_data (bk_store b)"
    and "0 \<le> a" "nat a + length d \<le> length (settings (bk_store b))" "k < length d"
    and "bk_push b = Some ps" "c \<in> set (ps_clients ps)" "c \<notin> set (ps_stalled ps)"
  defines "b' \<equiv> handle_inbound (Some (JObj kvs)) b"
  shows "bk_intents b' = Some (q @ [(a, d)]) \<and> settings (bk_store b') ! (nat a + k) = d ! k
    \<and> (\<exists>ps'. bk_push b' = Some ps' \<and> (c, Some (raw_snapshot (bk_store b'))) \<in> set (ps_sent ps'))"
proof -
  define b1 where "b1 = on_store (Optimistic a d) (b\<lparr>bk_intents := Some (q @ [(a, d)])\<rparr>)"
  have e: "b' = broadcast_state b1"
    using assms(1-4) by (simp add: b'_def handle_inbound_def on_ws_command_def b1_def)
  have bytes: "list_all is_byte d" "d \<noteq> []" using parse_command_bytes [OF assms(2)] by simp_all
  have acc: "apply_optimistic a d (bk_store b) = (bk_store b1, True)"
    using assms(6-8) bytes by (auto simp: apply_optimistic_def b1_def is_byte_def list_all_iff list_ex_iff)
  have "overlay_inv (store_run (hist @ [Optimistic a d]) (new_store g sa step))"
    by (simp only: overlay_inv_run overlay_inv_new)
  then have inv: "overlay_inv (bk_store b1)" using assms(5) by (simp add: b1_def)
  have "map_of (st_pending (bk_store b1)) (int (nat a + k)) = Some (d ! k)"
    using optimistic_pending [OF acc assms(9)] assms(7) by simp
  moreover have "length (settings (fst (apply_optimistic a d st))) = length (settings st)" for st
    by (rule apply_optimistic_cases [of a d st]) simp_all
  from this [of "bk_store b"] have "length (settings (bk_store b1)) = length (settings (bk_store b))"
    by (simp add: acc)
  ultimately have "settings (bk_store b1) ! (nat a + k) = d ! k"
    using inv assms(8,9) by (simp add: overlay_inv_def)
  then show ?thesis
    using assms(10-12) by (auto simp: e b1_def broadcast_state_def broadcast_def Let_def)
qed

theorem command_queued_and_shown_witness:
  "let b' = handle_inbound (Some (JObj [(''type'', JStr ''command''), (''address'', JInt 1),
         (''data'', JList [JInt 9])]))
       (waiting_broker\<lparr>bk_push := Some (push_connect 3 new_push)\<rparr>)
   in bk_intents b' = Some ([(1, [7])] @ [(1, [9])]) \<and> settings (bk_store b') ! (nat 1 + 0) = [9] ! 0
      \<and> (\<exists>ps'. bk_push b' = Some ps' \<and> (3, Some (raw_snapshot (bk_store b'))) \<in> set (ps_sent ps'))"
  unfolding Let_def
proof (rule command_queued_and_shown)
  show "bk_store (waiting_broker\<lparr>bk_push := Some (push_connect 3 new_push)\<rparr>)
      = store_run [Subscribe PUBLISHER, Settings [1, 1, 1], Optimistic 1 [7]] (new_store 4 12 1)"
    using waiting_broker_facts(2) by simp
qed (simp_all add: waiting_broker_facts(1), code_simp+)

end
