(* ===== verification/Governor.thy ===== *)
theory Governor
  imports Protocol "HOL-Library.Multiset" "HOL-Library.Product_Lexorder"
begin

text \<open>
  The device governor, \<open>bridge/r60v_broker/governor.py\<close>: the priority queue of jobs,
  their futures, and the single worker. A future is named by the sequence number
  of its job. The client that executes a job is an argument \<open>exec\<close>. The worker is
  a state machine whose steps are those between two awaits of \<open>_run\<close>; submitting,
  cancelling a waiting caller, stopping and starting happen between them in any
  order. The queue is used through the contract \<open>priority_queue\<close>.
\<close>

section \<open>Jobs, futures, the queue\<close>

datatype op = Read int int | Write int "int list"

datatype outcome = Data "int list" | Ack frame

datatype future = Waiting | Finished "outcome res" | Cancelled

record job =
  jb_priority :: int
  jb_seq :: nat
  jb_op :: op

definition PRIORITY_COMMAND :: int where
  "PRIORITY_COMMAND = 0"

definition PRIORITY_POLL :: int where
  "PRIORITY_POLL = 10"

definition job_key :: "job \<Rightarrow> int \<times> nat" where
  "job_key j = (jb_priority j, jb_seq j)"

text \<open>\<open>asyncio.PriorityQueue\<close>: \<open>get\<close> removes the least tuple; the sequence numbers are
  distinct, so no comparison reaches the operation.\<close>

definition pq_put :: "job \<Rightarrow> job list \<Rightarrow> job list" where
  "pq_put j q = j # q"

fun least :: "job \<Rightarrow> job list \<Rightarrow> job" where
  "least j [] = j"
| "least j (k # q) = least (if job_key k < job_key j then k else j) q"

definition pq_get :: "job list \<Rightarrow> (job \<times> job list) option" where
  "pq_get q =
     (case q of [] \<Rightarrow> None | j # js \<Rightarrow> let m = least j js in Some (m, remove1 m q))"

section \<open>The queue contract\<close>

locale priority_queue =
  fixes put :: "'e \<Rightarrow> 'q \<Rightarrow> 'q"
    and get :: "'q \<Rightarrow> ('e \<times> 'q) option"
    and elems :: "'q \<Rightarrow> 'e multiset"
    and key :: "'e \<Rightarrow> 'k :: linorder"
  assumes elems_put: "elems (put e q) = add_mset e (elems q)"
    and get_None: "get q = None \<longleftrightarrow> elems q = {#}"
    and get_Some: "get q = Some (e, q') \<Longrightarrow>
      e \<in># elems q \<and> elems q' = elems q - {#e#} \<and> (\<forall>x \<in># elems q. key e \<le> key x)"
begin

lemma get_elems: "get q = Some (e, q') \<Longrightarrow> elems q = add_mset e (elems q')"
  using get_Some by fastforce

lemma get_least: "get q = Some (e, q') \<Longrightarrow> x \<in># elems q \<Longrightarrow> key e \<le> key x"
  using get_Some by blast

lemma get_from_nonempty: "elems q \<noteq> {#} \<Longrightarrow> \<exists>e q'. get q = Some (e, q')"
  using get_None [of q] by (cases "get q") auto

fun drained :: "nat \<Rightarrow> 'q \<Rightarrow> 'e list" where
  "drained 0 q = []"
| "drained (Suc n) q = (case get q of None \<Rightarrow> [] | Some (e, q') \<Rightarrow> e # drained n q')"

lemma drained_sorted:
  "size (elems q) \<le> n \<Longrightarrow>
     sorted (map key (drained n q)) \<and> mset (drained n q) = elems q"
proof (induction n arbitrary: q)
  case (Suc n)
  show ?case
  proof (cases "get q")
    case None
    then have "elems q = {#}" by (simp add: get_None)
    then show ?thesis by (simp add: None)
  next
    case (Some p)
    then obtain e q' where p: "get q = Some (e, q')" by (cases p) auto
    have IH: "sorted (map key (drained n q')) \<and> mset (drained n q') = elems q'"
      using Suc.IH [of q'] Suc.prems get_elems [OF p] by simp
    have "key e \<le> key x" if "x \<in> set (drained n q')" for x
    proof -
      have "x \<in># elems q'" using that IH by (metis set_mset_mset)
      then show ?thesis using get_least [OF p] get_elems [OF p] by simp
    qed
    then show ?thesis using IH p get_elems [OF p] by simp
  qed
qed simp

end

lemma least_in: "least j q \<in> set (j # q)"
  by (induction j q rule: least.induct) auto

lemma least_le: "x \<in> set (j # q) \<Longrightarrow> job_key (least j q) \<le> job_key x"
proof (induction j q arbitrary: x rule: least.induct)
  case (2 j k q)
  let ?m = "if job_key k < job_key j then k else j"
  have m: "job_key ?m \<le> job_key j" "job_key ?m \<le> job_key k" by auto
  have h: "job_key (least ?m q) \<le> job_key ?m" by (rule 2(1)) simp
  show ?case
  proof (cases "x \<in> set q")
    case True
    then have "job_key (least ?m q) \<le> job_key x" by (intro 2(1)) simp
    then show ?thesis by simp
  next
    case False
    then have "job_key ?m \<le> job_key x" using 2(2) m by auto
    with h have "job_key (least ?m q) \<le> job_key x" by (rule order_trans)
    then show ?thesis by simp
  qed
qed simp

interpretation jobs: priority_queue pq_put pq_get mset job_key
proof
  fix q e q'
  assume "pq_get q = Some (e, q')"
  then obtain j js where q: "q = j # js" "e = least j js" "q' = remove1 e q"
    by (auto simp: pq_get_def Let_def split: list.splits)
  have "e \<in> set q" using least_in [of j js] q by simp
  moreover have "job_key e \<le> job_key x" if "x \<in> set q" for x
    using least_le [of x j js] that q by simp
  ultimately show "e \<in># mset q \<and> mset q' = mset q - {#e#} \<and> (\<forall>x \<in># mset q. job_key e \<le> job_key x)"
    by (simp add: q(3))
qed (auto simp: pq_put_def pq_get_def Let_def split: list.split)

section \<open>The governor\<close>

datatype worker = Stopped | Idle | Throttling job | Busy job

text \<open>\<open>gv_started\<close> records the jobs handed to the client, in order; \<open>gv_resolved\<close> the
  futures the worker has set.\<close>

record governor =
  gv_min_interval :: time
  gv_queue :: "job list"
  gv_counter :: nat
  gv_worker :: worker
  gv_last_op_at :: time
  gv_futures :: "nat \<Rightarrow> future option"
  gv_started :: "job list"
  gv_resolved :: "nat list"

definition new_governor :: "time \<Rightarrow> governor" where
  "new_governor min_interval =
     \<lparr>gv_min_interval = min_interval, gv_queue = [], gv_counter = 0, gv_worker = Stopped,
      gv_last_op_at = 0, gv_futures = (\<lambda>_. None), gv_started = [], gv_resolved = []\<rparr>"

definition gv_start :: "governor \<Rightarrow> governor" where
  "gv_start g = (if gv_worker g = Stopped then g\<lparr>gv_worker := Idle\<rparr> else g)"

text \<open>Stopping cancels the worker wherever it is; the future of a job under way is not
  resolved.\<close>

definition gv_stop :: "governor \<Rightarrow> governor" where
  "gv_stop g = g\<lparr>gv_worker := Stopped\<rparr>"

definition submit :: "int \<Rightarrow> op \<Rightarrow> governor \<Rightarrow> nat \<times> governor" where
  "submit priority op g =
     (let n = gv_counter g
      in (n, g\<lparr>gv_counter := n + 1, gv_futures := (gv_futures g)(n \<mapsto> Waiting),
               gv_queue := pq_put \<lparr>jb_priority = priority, jb_seq = n, jb_op = op\<rparr> (gv_queue g)\<rparr>))"

definition gv_read :: "int \<Rightarrow> int \<Rightarrow> governor \<Rightarrow> nat \<times> governor" where
  "gv_read address len = submit PRIORITY_POLL (Read address len)"

definition gv_write :: "int \<Rightarrow> int list \<Rightarrow> governor \<Rightarrow> nat \<times> governor" where
  "gv_write address data = submit PRIORITY_COMMAND (Write address data)"

text \<open>A caller that stops waiting cancels its future; the job stays queued.\<close>

definition gv_cancel :: "nat \<Rightarrow> governor \<Rightarrow> governor" where
  "gv_cancel n g =
     (if gv_futures g n = Some Waiting
      then g\<lparr>gv_futures := (gv_futures g)(n \<mapsto> Cancelled)\<rparr> else g)"

definition gv_take :: "governor \<Rightarrow> governor option" where
  "gv_take g =
     (if gv_worker g \<noteq> Idle then None
      else map_option (\<lambda>(j, q). g\<lparr>gv_worker := Throttling j, gv_queue := q\<rparr>)
             (pq_get (gv_queue g)))"

definition throttle_over :: "time \<Rightarrow> governor \<Rightarrow> bool" where
  "throttle_over now g \<longleftrightarrow>
     gv_min_interval g \<le> 0 \<or> gv_min_interval g \<le> now - gv_last_op_at g"

definition gv_begin :: "time \<Rightarrow> governor \<Rightarrow> governor option" where
  "gv_begin now g =
     (case gv_worker g of
        Throttling j \<Rightarrow>
          if throttle_over now g
          then Some (g\<lparr>gv_worker := Busy j, gv_last_op_at := now,
                       gv_started := gv_started g @ [j]\<rparr>)
          else None
      | _ \<Rightarrow> None)"

definition resolve :: "nat \<Rightarrow> outcome res \<Rightarrow> governor \<Rightarrow> governor" where
  "resolve n r g =
     (if gv_futures g n = Some Waiting
      then g\<lparr>gv_futures := (gv_futures g)(n \<mapsto> Finished r), gv_resolved := gv_resolved g @ [n]\<rparr>
      else g)"

definition gv_finish :: "outcome res \<Rightarrow> governor \<Rightarrow> governor option" where
  "gv_finish r g =
     (case gv_worker g of
        Busy j \<Rightarrow> Some ((resolve (jb_seq j) r g)\<lparr>gv_worker := Idle\<rparr>)
      | _ \<Rightarrow> None)"

section \<open>Steps and reachable states\<close>

inductive gstep :: "governor \<Rightarrow> governor \<Rightarrow> bool" where
  submit: "gstep g (snd (submit p op g))"
| cancel: "gstep g (gv_cancel n g)"
| start: "gstep g (gv_start g)"
| stop: "gstep g (gv_stop g)"
| get_job: "gv_take g = Some g' \<Longrightarrow> gstep g g'"
| begin_job: "gv_begin now g = Some g' \<Longrightarrow> gstep g g'"
| finish: "gv_finish r g = Some g' \<Longrightarrow> gstep g g'"

inductive_cases gstepE: "gstep g g'"

inductive reachable :: "governor \<Rightarrow> bool" where
  new: "reachable (new_governor i)"
| step: "reachable g \<Longrightarrow> gstep g g' \<Longrightarrow> reachable g'"

text \<open>The job at hand, if any, before it is handed to the client.\<close>

fun in_hand :: "worker \<Rightarrow> job list" where
  "in_hand (Throttling j) = [j]"
| "in_hand _ = []"

fun running :: "worker \<Rightarrow> job list" where
  "running (Busy j) = [j]"
| "running _ = []"

section \<open>The invariant\<close>

text \<open>Within a priority, the earlier submission first.\<close>

definition fifo :: "job \<Rightarrow> job \<Rightarrow> bool" where
  "fifo j k \<longleftrightarrow> (jb_priority j = jb_priority k \<longrightarrow> jb_seq j < jb_seq k)"

text \<open>The jobs taken off the queue, in order, and the jobs waiting in it: their sequence
  numbers are distinct and below the counter, and each priority is served in the
  order of submission.\<close>

definition order_ok :: "nat \<Rightarrow> job list \<Rightarrow> job list \<Rightarrow> bool" where
  "order_ok n issued queue \<longleftrightarrow>
     (\<forall>j \<in> set issued \<union> set queue. jb_seq j < n) \<and> distinct (map jb_seq (issued @ queue))
     \<and> sorted_wrt fifo issued \<and> (\<forall>j \<in> set issued. \<forall>k \<in> set queue. fifo j k)"

lemma order_ok_put:
  assumes "order_ok n issued queue"
  shows "order_ok (Suc n) issued (pq_put \<lparr>jb_priority = p, jb_seq = n, jb_op = op\<rparr> queue)"
proof -
  have "jb_seq j < n" if "j \<in> set issued \<union> set queue" for j using assms that by (simp add: order_ok_def)
  then have "n \<notin> jb_seq ` set issued" "n \<notin> jb_seq ` set queue" by auto
  then show ?thesis using assms by (auto simp: order_ok_def pq_put_def fifo_def less_Suc_eq)
qed

lemma order_ok_drop: "order_ok n (issued @ xs) queue \<Longrightarrow> order_ok n issued queue"
  by (auto simp: order_ok_def sorted_wrt_append)

lemma pq_get_split:
  assumes "pq_get q = Some (j, q')"
  shows "mset q = add_mset j (mset q')" "set q = insert j (set q')"
    "\<forall>k \<in> set q. job_key j \<le> job_key k"
proof -
  show m: "mset q = add_mset j (mset q')" using jobs.get_elems [OF assms] .
  then show "set q = insert j (set q')" by (metis set_mset_add_mset_insert set_mset_mset)
  show "\<forall>k \<in> set q. job_key j \<le> job_key k" using jobs.get_least [OF assms] by simp
qed

lemma order_ok_get:
  assumes "order_ok n issued queue" "pq_get queue = Some (j, queue')"
  shows "order_ok n (issued @ [j]) queue'"
proof -
  note s = pq_get_split [OF assms(2)]
  have m: "mset ((issued @ [j]) @ queue') = mset (issued @ queue)" using s(1) by simp
  then have "mset (map jb_seq ((issued @ [j]) @ queue')) = mset (map jb_seq (issued @ queue))"
    by (simp only: mset_map)
  moreover have "distinct (map jb_seq (issued @ queue))" using assms(1) by (simp add: order_ok_def)
  ultimately have d: "distinct (map jb_seq ((issued @ [j]) @ queue'))"
    by (metis mset_eq_imp_distinct_iff)
  have lt: "fifo j k" if "k \<in> set queue'" for k
  proof -
    have "job_key j \<le> job_key k" using s(2,3) that by blast
    moreover have "jb_seq j \<noteq> jb_seq k" using d that by auto
    ultimately show ?thesis by (auto simp: fifo_def job_key_def less_eq_prod_def)
  qed
  have "\<forall>i \<in> set issued. \<forall>k \<in> set queue. fifo i k" using assms(1) by (simp add: order_ok_def)
  then have "\<forall>i \<in> set issued. fifo i j" "\<forall>i \<in> set issued. \<forall>k \<in> set queue'. fifo i k"
    using s(2) by simp_all
  then show ?thesis
    using assms(1) d lt s(2) by (auto simp: order_ok_def sorted_wrt_append)
qed

text \<open>Futures: none beyond the counter, and each resolved at most once.\<close>

definition futures_ok :: "nat \<Rightarrow> (nat \<Rightarrow> future option) \<Rightarrow> nat list \<Rightarrow> bool" where
  "futures_ok n fs resolved \<longleftrightarrow>
     (\<forall>k. n \<le> k \<longrightarrow> fs k = None) \<and> distinct resolved
     \<and> (\<forall>k. k \<in> set resolved \<longleftrightarrow> (\<exists>r. fs k = Some (Finished r)))"

lemma futures_ok_submit: "futures_ok n fs rs \<Longrightarrow> futures_ok (Suc n) (fs(n \<mapsto> Waiting)) rs"
  by (auto simp: futures_ok_def)

lemma futures_ok_cancel:
  "futures_ok n fs rs \<Longrightarrow> fs k = Some Waiting \<Longrightarrow> futures_ok n (fs(k \<mapsto> Cancelled)) rs"
  by (auto simp: futures_ok_def)

lemma futures_ok_finish:
  "futures_ok n fs rs \<Longrightarrow> fs k = Some Waiting \<Longrightarrow>
     futures_ok n (fs(k \<mapsto> Finished r)) (rs @ [k])"
  by (auto simp: futures_ok_def)

definition governor_inv :: "governor \<Rightarrow> bool" where
  "governor_inv g \<longleftrightarrow>
     order_ok (gv_counter g) (gv_started g @ in_hand (gv_worker g)) (gv_queue g)
     \<and> futures_ok (gv_counter g) (gv_futures g) (gv_resolved g)"

lemma governor_inv_step:
  assumes "gstep g g'" "governor_inv g"
  shows "governor_inv g'"
proof -
  have o: "order_ok (gv_counter g) (gv_started g @ in_hand (gv_worker g)) (gv_queue g)"
    and f: "futures_ok (gv_counter g) (gv_futures g) (gv_resolved g)"
    using assms(2) by (simp_all add: governor_inv_def)
  show ?thesis
    using assms(1)
  proof (cases rule: gstep.cases)
    case (submit p op)
    then show ?thesis
      using order_ok_put [OF o] futures_ok_submit [OF f]
      by (simp add: governor_inv_def submit_def Let_def)
  next
    case (cancel n)
    then show ?thesis
      using o f futures_ok_cancel [OF f] by (simp add: governor_inv_def gv_cancel_def)
  next
    case start
    then show ?thesis
      using o f by (cases "gv_worker g = Stopped") (simp_all add: governor_inv_def gv_start_def)
  next
    case stop
    then show ?thesis
      using order_ok_drop [OF o] f by (simp add: governor_inv_def gv_stop_def)
  next
    case get_job
    then obtain j q where "gv_worker g = Idle" "pq_get (gv_queue g) = Some (j, q)"
      "g' = g\<lparr>gv_worker := Throttling j, gv_queue := q\<rparr>"
      by (auto simp: gv_take_def split: if_splits)
    then show ?thesis using order_ok_get [OF o] f by (simp add: governor_inv_def)
  next
    case (begin_job now)
    then obtain j where "gv_worker g = Throttling j"
      "g' = g\<lparr>gv_worker := Busy j, gv_last_op_at := now, gv_started := gv_started g @ [j]\<rparr>"
      by (auto simp: gv_begin_def split: worker.splits if_splits)
    then show ?thesis using o f by (simp add: governor_inv_def)
  next
    case (finish r)
    then obtain j where "gv_worker g = Busy j"
      "g' = (resolve (jb_seq j) r g)\<lparr>gv_worker := Idle\<rparr>"
      by (auto simp: gv_finish_def split: worker.splits)
    then show ?thesis
      using o f futures_ok_finish [OF f] by (simp add: governor_inv_def resolve_def)
  qed
qed

lemma governor_inv_new: "governor_inv (new_governor i)"
  by (simp add: governor_inv_def new_governor_def order_ok_def futures_ok_def)

lemma reachable_inv: "reachable g \<Longrightarrow> governor_inv g"
  by (induction rule: reachable.induct) (auto intro: governor_inv_new governor_inv_step)

section \<open>The worker as a loop\<close>

text \<open>One job from the queue to its future, when nothing interferes: the worker is idle
  and the queue not empty.\<close>

definition worker_round :: "(op \<Rightarrow> 'd \<Rightarrow> outcome res \<times> 'd) \<Rightarrow> governor \<times> 'd \<Rightarrow> governor \<times> 'd" where
  "worker_round exec gd =
     (let (g, d) = gd in
      case gv_take g of
        None \<Rightarrow> (g, d)
      | Some g1 \<Rightarrow>
          (case gv_begin (gv_last_op_at g1 + max 0 (gv_min_interval g1)) g1 of
             None \<Rightarrow> (g, d)
           | Some g2 \<Rightarrow>
               (case running (gv_worker g2) of
                  [] \<Rightarrow> (g, d)
                | j # _ \<Rightarrow>
                    let (r, d) = exec (jb_op j) d
                    in (case gv_finish r g2 of None \<Rightarrow> (g, d) | Some g3 \<Rightarrow> (g3, d)))))"

fun worker_rounds :: "nat \<Rightarrow> (op \<Rightarrow> 'd \<Rightarrow> outcome res \<times> 'd) \<Rightarrow> governor \<times> 'd \<Rightarrow> governor \<times> 'd" where
  "worker_rounds 0 exec gd = gd"
| "worker_rounds (Suc n) exec gd = worker_rounds n exec (worker_round exec gd)"

lemma reachable_worker_round:
  assumes "reachable g"
  shows "reachable (fst (worker_round exec (g, d)))"
proof (cases "gv_take g")
  case None
  then show ?thesis using assms by (simp add: worker_round_def)
next
  case (Some g1)
  have 1: "reachable g1" using assms gstep.get_job [OF Some] by (rule reachable.step)
  show ?thesis
  proof (cases "gv_begin (gv_last_op_at g1 + max 0 (gv_min_interval g1)) g1")
    case None
    then show ?thesis using assms Some by (simp add: worker_round_def)
  next
    case g2: (Some g2)
    have 2: "reachable g2" using 1 gstep.begin_job [OF g2] by (rule reachable.step)
    have "reachable g3" if "gv_finish r g2 = Some g3" for r g3
      using 2 gstep.finish [OF that] by (rule reachable.step)
    then show ?thesis
      using assms Some g2
      by (auto simp: worker_round_def split: list.split prod.split option.split)
  qed
qed

lemma reachable_worker_rounds:
  "reachable g \<Longrightarrow> reachable (fst (worker_rounds n exec (g, d)))"
proof (induction n arbitrary: g d)
  case (Suc n)
  then show ?case
    using reachable_worker_round [OF Suc.prems, of exec d]
    by (cases "worker_round exec (g, d)") simp
qed simp

lemma worker_round_step:
  assumes "gv_worker g = Idle" "pq_get (gv_queue g) = Some (j, q)"
  shows "\<exists>g'. worker_round exec (g, d) = (g', snd (exec (jb_op j) d))
     \<and> gv_worker g' = Idle \<and> gv_queue g' = q \<and> gv_started g' = gv_started g @ [j]
     \<and> gv_futures g' = (if gv_futures g (jb_seq j) = Some Waiting
          then (gv_futures g)(jb_seq j \<mapsto> Finished (fst (exec (jb_op j) d))) else gv_futures g)"
proof -
  obtain r d' where e: "exec (jb_op j) d = (r, d')" by (cases "exec (jb_op j) d")
  have "throttle_over (gv_last_op_at g + max 0 (gv_min_interval g))
      (g\<lparr>gv_worker := Throttling j, gv_queue := q\<rparr>)"
    by (simp add: throttle_over_def)
  then show ?thesis
    using assms e
    by (simp add: worker_round_def gv_take_def gv_begin_def gv_finish_def resolve_def)
qed

lemma pq_get_nonempty:
  assumes "Suc n = length q"
  shows "\<exists>j q'. pq_get q = Some (j, q')"
proof -
  have "mset q \<noteq> {#}" using assms by auto
  then show ?thesis by (rule jobs.get_from_nonempty)
qed

lemma worker_rounds_drain:
  "gv_worker g = Idle \<Longrightarrow> n = length (gv_queue g) \<Longrightarrow>
     gv_queue (fst (worker_rounds n exec (g, d))) = []
     \<and> gv_worker (fst (worker_rounds n exec (g, d))) = Idle
     \<and> gv_started (fst (worker_rounds n exec (g, d))) = gv_started g @ jobs.drained n (gv_queue g)"
proof (induction n arbitrary: g d)
  case (Suc n)
  obtain j q where q: "pq_get (gv_queue g) = Some (j, q)"
    using pq_get_nonempty [OF Suc.prems(2)] by blast
  obtain g' where g': "worker_round exec (g, d) = (g', snd (exec (jb_op j) d))"
    "gv_worker g' = Idle" "gv_queue g' = q" "gv_started g' = gv_started g @ [j]"
    using worker_round_step [OF Suc.prems(1) q, of exec d] by blast
  have "size (mset (gv_queue g)) = Suc (size (mset q))" using pq_get_split(1) [OF q] by simp
  then have n: "n = length (gv_queue g')" using Suc.prems(2) g'(3) by simp
  have dr: "jobs.drained (Suc n) (gv_queue g) = j # jobs.drained n q"
    by (simp only: jobs.drained.simps q option.case prod.case)
  show ?case
    using Suc.IH [OF g'(2) n, of "snd (exec (jb_op j) d)"]
    unfolding worker_rounds.simps g'(1,3,4) dr append_assoc append_Cons append_Nil .
qed simp

lemma worker_rounds_finish:
  "gv_worker g = Idle \<Longrightarrow> n = length (gv_queue g) \<Longrightarrow> j \<in> set (gv_queue g) \<Longrightarrow>
   gv_futures g (jb_seq j) = Some Waiting \<Longrightarrow>
     \<exists>r. gv_futures (fst (worker_rounds n exec (g, d))) (jb_seq j) = Some (Finished r)"
proof -
  have keep: "gv_futures g k = Some (Finished r) \<Longrightarrow>
      gv_futures (fst (worker_rounds n exec (g, d))) k = Some (Finished r)"
    if "gv_worker g = Idle" "n = length (gv_queue g)" for n g d k r
    using that
  proof (induction n arbitrary: g d)
    case (Suc n)
    obtain i q where q: "pq_get (gv_queue g) = Some (i, q)"
      using pq_get_nonempty [OF Suc.prems(3)] by blast
    obtain g' where g': "worker_round exec (g, d) = (g', snd (exec (jb_op i) d))"
      "gv_worker g' = Idle" "gv_queue g' = q"
      "gv_futures g' = (if gv_futures g (jb_seq i) = Some Waiting
          then (gv_futures g)(jb_seq i \<mapsto> Finished (fst (exec (jb_op i) d))) else gv_futures g)"
      using worker_round_step [OF Suc.prems(2) q, of exec d] by blast
    have "size (mset (gv_queue g)) = Suc (size (mset q))" using pq_get_split(1) [OF q] by simp
    then have n: "n = length (gv_queue g')" using Suc.prems(3) g'(3) by simp
    have "gv_futures g' k = Some (Finished r)" using g'(4) Suc.prems(1) by auto
    from Suc.IH [OF this g'(2) n] show ?case unfolding worker_rounds.simps g'(1) .
  qed simp
  show "gv_worker g = Idle \<Longrightarrow> n = length (gv_queue g) \<Longrightarrow> j \<in> set (gv_queue g) \<Longrightarrow>
      gv_futures g (jb_seq j) = Some Waiting \<Longrightarrow> ?thesis"
  proof (induction n arbitrary: g d)
    case (Suc n)
    obtain i q where q: "pq_get (gv_queue g) = Some (i, q)"
      using pq_get_nonempty [OF Suc.prems(2)] by blast
    obtain g' where g': "worker_round exec (g, d) = (g', snd (exec (jb_op i) d))"
      "gv_worker g' = Idle" "gv_queue g' = q"
      "gv_futures g' = (if gv_futures g (jb_seq i) = Some Waiting
          then (gv_futures g)(jb_seq i \<mapsto> Finished (fst (exec (jb_op i) d))) else gv_futures g)"
      using worker_round_step [OF Suc.prems(1) q, of exec d] by blast
    have "size (mset (gv_queue g)) = Suc (size (mset q))" using pq_get_split(1) [OF q] by simp
    then have n: "n = length (gv_queue g')" using Suc.prems(2) g'(3) by simp
    show ?case
    proof (cases "jb_seq i = jb_seq j")
      case True
      then have "gv_futures g' (jb_seq j) = Some (Finished (fst (exec (jb_op i) d)))"
        using g'(4) Suc.prems(4) by simp
      then show ?thesis using keep [OF g'(2) n] g'(1) by auto
    next
      case False
      then have "j \<in> set (gv_queue g')" using pq_get_split(2) [OF q] Suc.prems(3) g'(3) by auto
      moreover have "gv_futures g' (jb_seq j) = Some Waiting" using g'(4) Suc.prems(4) False by auto
      ultimately show ?thesis using Suc.IH [OF g'(2) n] g'(1) by simp
    qed
  qed simp
qed

section \<open>Properties\<close>

text \<open>C2: The worker always takes the most urgent waiting job: no waiting job has a
  smaller priority, and among those of its priority it is the oldest, so a user's
  command never waits behind a poll that has not started.\<close>

theorem commands_beat_polls:
  assumes "reachable g" "gv_take g = Some g'" "gv_worker g' = Throttling j" "k \<in> set (gv_queue g')"
  shows "jb_priority j < jb_priority k \<or> jb_priority j = jb_priority k \<and> jb_seq j < jb_seq k"
proof -
  have q: "pq_get (gv_queue g) = Some (j, gv_queue g')"
    using assms(2,3) by (auto simp: gv_take_def split: if_splits)
  have o: "order_ok (gv_counter g) (gv_started g @ in_hand (gv_worker g)) (gv_queue g)"
    using reachable_inv [OF assms(1)] by (simp add: governor_inv_def)
  have "job_key j \<le> job_key k" using pq_get_split(2,3) [OF q] assms(4) by blast
  moreover have "fifo j k"
    using order_ok_get [OF o q] assms(4) by (simp add: order_ok_def)
  ultimately show ?thesis by (auto simp: job_key_def less_eq_prod_def fifo_def)
qed

definition demo_governor :: governor where
  "demo_governor = snd (gv_write 0x4A [0] (snd (gv_read 0xB000 1 (snd (gv_read 0 0x73
     (gv_start (new_governor 0)))))))"

lemma demo_reachable: "reachable demo_governor"
  unfolding demo_governor_def gv_write_def gv_read_def
  by (intro reachable.step [OF _ gstep.submit] reachable.step [OF _ gstep.start] reachable.new)

theorem commands_beat_polls_witness:
  "\<exists>g' j. gv_take demo_governor = Some g' \<and> gv_worker g' = Throttling j
     \<and> jb_op j = Write 0x4A [0]
     \<and> (jb_priority j < PRIORITY_POLL \<or> jb_priority j = PRIORITY_POLL \<and> jb_seq j < 1)"
proof -
  let ?g = "demo_governor\<lparr>gv_worker := Throttling \<lparr>jb_priority = 0, jb_seq = 2, jb_op = Write 0x4A [0]\<rparr>,
     gv_queue := remove1 \<lparr>jb_priority = 0, jb_seq = 2, jb_op = Write 0x4A [0]\<rparr> (gv_queue demo_governor)\<rparr>"
  have t: "gv_take demo_governor = Some ?g"
    by (simp add: demo_governor_def gv_take_def gv_write_def gv_read_def submit_def pq_get_def
        pq_put_def gv_start_def new_governor_def job_key_def Let_def PRIORITY_COMMAND_def
        PRIORITY_POLL_def less_prod_def)
  have k: "\<lparr>jb_priority = PRIORITY_POLL, jb_seq = 1, jb_op = Read 0xB000 1\<rparr> \<in> set (gv_queue ?g)"
    by (simp add: demo_governor_def gv_write_def gv_read_def submit_def pq_put_def gv_start_def
        new_governor_def Let_def)
  show ?thesis
    using t commands_beat_polls [OF demo_reachable t _ k] by (intro exI conjI) auto
qed

text \<open>In every history of submissions, cancellations, stops and restarts, jobs of
  one priority reach the machine in the order they were submitted.\<close>

theorem same_priority_fifo:
  assumes "reachable g" "i < k" "k < length (gv_started g)"
    and "jb_priority (gv_started g ! i) = jb_priority (gv_started g ! k)"
  shows "jb_seq (gv_started g ! i) < jb_seq (gv_started g ! k)"
proof -
  have "order_ok (gv_counter g) (gv_started g @ in_hand (gv_worker g)) (gv_queue g)"
    using reachable_inv [OF assms(1)] by (simp add: governor_inv_def)
  then have "sorted_wrt fifo (gv_started g)" by (simp add: order_ok_def sorted_wrt_append)
  then have "fifo (gv_started g ! i) (gv_started g ! k)"
    using assms(2,3) by (simp add: sorted_wrt_iff_nth_less)
  then show ?thesis using assms(4) by (simp add: fifo_def)
qed

definition demo_exec :: "op \<Rightarrow> unit \<Rightarrow> outcome res \<times> unit" where
  "demo_exec op u = (Inr (Data [1]), u)"

definition demo_served :: governor where
  "demo_served = fst (worker_rounds 3 demo_exec (demo_governor, ()))"

lemma demo_served_reachable: "reachable demo_served"
  unfolding demo_served_def by (rule reachable_worker_rounds [OF demo_reachable])

theorem same_priority_fifo_witness:
  "jb_seq (gv_started demo_served ! 1) < jb_seq (gv_started demo_served ! 2)"
proof (rule same_priority_fifo [OF demo_served_reachable])
  show "2 < length (gv_started demo_served)" by code_simp
  show "jb_priority (gv_started demo_served ! 1) = jb_priority (gv_started demo_served ! 2)"
    by code_simp
qed simp

text \<open>A caller's result is set at most once and never changed: neither a later
  step of the worker, nor a cancellation, nor a stop touches a finished future,
  and a cancelled one is never resolved.\<close>

theorem futures_settle_once:
  assumes "reachable g" "gstep g g'" "gv_futures g n = Some f" "f \<noteq> Waiting"
  shows "gv_futures g' n = Some f"
proof -
  have c: "n \<noteq> gv_counter g"
    using reachable_inv [OF assms(1)] assms(3) by (auto simp: governor_inv_def futures_ok_def)
  show ?thesis
    using assms(2)
  proof (cases rule: gstep.cases)
    case (submit p op)
    then show ?thesis using assms(3) c by (simp add: submit_def Let_def)
  next
    case (cancel k)
    then show ?thesis using assms(3,4) by (auto simp: gv_cancel_def)
  next
    case get_job
    then show ?thesis using assms(3) by (auto simp: gv_take_def split: if_splits)
  next
    case (begin_job now)
    then show ?thesis using assms(3) by (auto simp: gv_begin_def split: worker.splits if_splits)
  next
    case (finish r)
    then show ?thesis
      using assms(3,4) by (auto simp: gv_finish_def resolve_def split: worker.splits)
  qed (use assms(3) in \<open>auto simp: gv_start_def gv_stop_def\<close>)
qed

theorem futures_settle_once_witness:
  "gv_futures (gv_cancel 0 demo_served) 0 = Some (Finished (Inr (Data [1])))"
proof (rule futures_settle_once [OF demo_served_reachable gstep.cancel])
  have "(case gv_futures demo_served 0 of Some (Finished (Inr (Data d))) \<Rightarrow> d = [1] | _ \<Rightarrow> False)"
    by code_simp
  then show "gv_futures demo_served 0 = Some (Finished (Inr (Data [1])))"
    by (auto split: option.splits future.splits sum.splits outcome.splits)
qed simp

text \<open>C3: Left alone, the worker serves the whole queue: after one round per waiting
  job the queue is empty, the jobs were handed over sorted by priority and then
  by submission, each exactly once, and every caller that still waits has its
  result.\<close>

theorem worker_drains_in_order:
  assumes "reachable g" "gv_worker g = Idle"
    and "g' = fst (worker_rounds (length (gv_queue g)) exec (g, d))"
  shows "gv_queue g' = []
     \<and> gv_started g' = gv_started g @ sort_key job_key (gv_queue g)
     \<and> (\<forall>j \<in> set (gv_queue g). gv_futures g (jb_seq j) = Some Waiting \<longrightarrow>
          (\<exists>r. gv_futures g' (jb_seq j) = Some (Finished r)))"
proof -
  let ?n = "length (gv_queue g)"
  have o: "order_ok (gv_counter g) (gv_started g @ in_hand (gv_worker g)) (gv_queue g)"
    using reachable_inv [OF assms(1)] by (simp add: governor_inv_def)
  then have "inj_on jb_seq (set (gv_queue g))" by (simp add: order_ok_def distinct_map)
  then have inj: "inj_on job_key (set (gv_queue g))"
    by (auto simp: inj_on_def job_key_def)
  have "sorted (map job_key (jobs.drained ?n (gv_queue g)))
      \<and> mset (jobs.drained ?n (gv_queue g)) = mset (gv_queue g)"
    by (rule jobs.drained_sorted) simp
  then have "sort_key job_key (gv_queue g) = jobs.drained ?n (gv_queue g)"
    using inj by (intro sort_key_inj_key_eq) auto
  then show ?thesis
    using worker_rounds_drain [OF assms(2) refl, of exec d] worker_rounds_finish [OF assms(2) refl]
    by (auto simp: assms(3))
qed

theorem worker_drains_in_order_witness:
  "gv_queue demo_served = []
   \<and> gv_started demo_served = gv_started demo_governor @ sort_key job_key (gv_queue demo_governor)
   \<and> (\<exists>r. gv_futures demo_served 2 = Some (Finished r))"
proof -
  let ?j = "\<lparr>jb_priority = 0, jb_seq = 2, jb_op = Write 0x4A [0]\<rparr>"
  have "gv_worker demo_governor = Idle"
    by (simp add: demo_governor_def gv_write_def gv_read_def submit_def gv_start_def
        new_governor_def Let_def)
  moreover have "length (gv_queue demo_governor) = 3" by code_simp
  then have "demo_served =
      fst (worker_rounds (length (gv_queue demo_governor)) demo_exec (demo_governor, ()))"
    by (simp only: demo_served_def)
  ultimately have d: "gv_queue demo_served = []
   \<and> gv_started demo_served = gv_started demo_governor @ sort_key job_key (gv_queue demo_governor)
   \<and> (\<forall>j \<in> set (gv_queue demo_governor). gv_futures demo_governor (jb_seq j) = Some Waiting \<longrightarrow>
          (\<exists>r. gv_futures demo_served (jb_seq j) = Some (Finished r)))"
    by (rule worker_drains_in_order [OF demo_reachable])
  have "?j \<in> set (gv_queue demo_governor)" "gv_futures demo_governor (jb_seq ?j) = Some Waiting"
    by (simp_all add: demo_governor_def gv_write_def gv_read_def submit_def pq_put_def
        gv_start_def new_governor_def PRIORITY_COMMAND_def Let_def)
  with d have "\<exists>r. gv_futures demo_served (jb_seq ?j) = Some (Finished r)" by blast
  with d show ?thesis by simp
qed

end
