(* ===== verification/Emulator.thy ===== *)
theory Emulator
  imports State
begin

text \<open>
  The emulated machine, \<open>bridge/r60v_broker/emulator.py\<close>: the memory model and the
  request handler of one connection. Bytes read and written are ints in 0..255;
  the settings are a bytearray of 256. Addresses come from the parser and may be
  negative there, so the slices and item assignments are Python's. The wall
  clock fields of \<open>datetime.now()\<close> are an argument. A write that fails half way
  keeps the bytes already written, so \<open>em_write\<close> returns the machine as well as the
  error.
\<close>

section \<open>The machine model\<close>

record machine =
  mm_settings :: "int list"
  mm_brew :: rat
  mm_service :: rat
  mm_pressure :: rat
  mm_display :: string

definition init_defaults :: "int list" where
  "init_defaults =
     fold (\<lambda>(a, v) s. s[nat a := v])
       [(TEMPERATURE_UNIT, 0), (LANGUAGE, 0), (BREW_BOILER_TEMP, 105), (SERVICE_BOILER_TEMP, 123),
        (KP_COFFEE, 15), (KP_GROUP, 40), (KI_COFFEE, 1), (KI_GROUP, 1), (KD_COFFEE, 65),
        (KD_GROUP, 5), (WATER_FEED, 1), (ACTIVE_PROFILE, 0), (WAND_WASH_TIME, 15),
        (SERVICE_BOILER_ENABLE, 1), (STANDBY, 0), (GROUP_TEMP, 95),
        (TOTAL_COFFEE_COUNT, 0xF4), (TOTAL_COFFEE_COUNT + 1, 0x01),
        (AUTO_ON_HOUR, 14), (AUTO_ON_MINUTE, 0), (AUTO_OFF_HOUR, 8), (AUTO_OFF_MINUTE, 0)]
       (replicate 0x100 0)"

definition new_machine :: machine where
  "new_machine =
     \<lparr>mm_settings = init_defaults, mm_brew = 92, mm_service = 118, mm_pressure = 0,
      mm_display = ''READY''\<rparr>"

section \<open>Reads\<close>

text \<open>\<open>bytes(n)\<close>, and \<open>int.to_bytes(n, "little")\<close>.\<close>

definition zero_bytes :: "int \<Rightarrow> int list res" where
  "zero_bytes n = (if n < 0 then Inl ValueError else Inr (replicate (nat n) 0))"

fun to_bytes_le :: "nat \<Rightarrow> int \<Rightarrow> int list" where
  "to_bytes_le 0 v = []"
| "to_bytes_le (Suc n) v = v mod 256 # to_bytes_le n (v div 256)"

definition int_bytes :: "int \<Rightarrow> int \<Rightarrow> int list res" where
  "int_bytes value len =
     (let value = max 0 value; n = nat (max len 1)
      in if 256 ^ n \<le> value then Inl OverflowError
         else let bs = py_slice (to_bytes_le n value) 0 len
              in if bs \<noteq> [] then Inr bs else zero_bytes len)"

definition read_live :: "int list \<Rightarrow> machine \<Rightarrow> int \<Rightarrow> int \<Rightarrow> int list res" where
  "read_live clock m address len =
     (if address = CURRENT_BREW_TEMP then int_bytes (rhe (mm_brew m)) len
      else if address = CURRENT_SERVICE_TEMP then int_bytes (rhe (mm_service m)) len
      else if address = CURRENT_PRESSURE then int_bytes (rhe (fl (mm_pressure m * 10))) len
      else if address = DISPLAY
        then Inr (py_slice (ljust len 32 (map (\<lambda>c. int (code c)) (mm_display m))) 0 len)
      else if address = DATE_TIME then Inr (py_slice (ljust len 0 clock) 0 len)
      else zero_bytes len)"

definition em_read :: "int list \<Rightarrow> machine \<Rightarrow> int \<Rightarrow> int \<Rightarrow> int list res" where
  "em_read clock m address len =
     (if address < 0x100
      then Inr (ljust len 0 (py_slice (mm_settings m) address (address + len)))
      else read_live clock m address len)"

section \<open>Writes and dynamics\<close>

fun em_write_bytes :: "int \<Rightarrow> int list \<Rightarrow> machine \<Rightarrow> unit res \<times> machine" where
  "em_write_bytes i [] m = (Inr (), m)"
| "em_write_bytes i (v # vs) m =
     (case py_set_item (mm_settings m) i (v AND 255) of
        Inl e \<Rightarrow> (Inl e, m)
      | Inr s \<Rightarrow> em_write_bytes (i + 1) vs (m\<lparr>mm_settings := s\<rparr>))"

definition em_write :: "int \<Rightarrow> int list \<Rightarrow> machine \<Rightarrow> unit res \<times> machine" where
  "em_write address data m =
     (if 0x100 \<le> address then (Inr (), m) else em_write_bytes address data m)"

definition warm_step :: "rat \<Rightarrow> rat \<Rightarrow> rat" where
  "warm_step current target = fl (fl (target - current) * fl (15 / 100))"

definition em_tick :: "machine \<Rightarrow> machine" where
  "em_tick m =
     (let s = mm_settings m;
          on = (s ! nat STANDBY = 0);
          brew_target = (if on then s ! nat BREW_BOILER_TEMP else 20);
          brew = fl (mm_brew m + warm_step (mm_brew m) (of_int brew_target));
          svc_target = (if s ! nat SERVICE_BOILER_ENABLE \<noteq> 0 \<and> on
                        then s ! nat SERVICE_BOILER_TEMP else 20);
          service = fl (mm_service m + warm_step (mm_service m) (of_int svc_target))
      in m\<lparr>mm_brew := brew, mm_service := service\<rparr>)"

section \<open>The request handler\<close>

text \<open>\<open>_process\<close>: \<open>None\<close> drops the client. The debug line of a write formats
  \<open>bytes(frame.data)\<close>, which raises on a negative value after the write was done.\<close>

definition process :: "int list \<Rightarrow> string \<Rightarrow> machine \<Rightarrow> string option res \<times> machine" where
  "process clock raw m =
     (case parse_frame True raw of
        Inl _ \<Rightarrow> (Inr None, m)
      | Inr frame \<Rightarrow>
          if fr_command frame = READ then
            (bind_res (em_read clock m (fr_address frame) (fr_length frame))
               (\<lambda>data. map_sum id Some
                  (build_frame READ (fr_address frame) (fr_length frame) data)), m)
          else
            (case em_write (fr_address frame) (fr_data frame) m of
               (Inl e, m) \<Rightarrow> (Inl e, m)
             | (Inr _, m) \<Rightarrow>
                 (bind_res (py_bytes (fr_data frame))
                    (\<lambda>_. map_sum id Some
                       (build_ack WRITE (fr_address frame) (fr_length frame))), m)))"

text \<open>\<open>_read_rest\<close>: how many bytes follow the envelope; \<open>None\<close> stands for the early
  return of an empty string when the length field of a write is malformed.\<close>

definition rest_count :: "string \<Rightarrow> int option" where
  "rest_count envelope =
     (if [hd envelope] = WRITE
      then (case py_int 16 (take 4 (drop 5 envelope)) of
              Inl _ \<Rightarrow> None
            | Inr len \<Rightarrow> Some (len * 2 + 2))
      else Some 2)"

text \<open>One round of \<open>_handle_client\<close> on the bytes the client has sent: the reply, the
  bytes left, and the machine; \<open>None\<close> when the connection ends, be it the end of
  the input, a bad frame or an exception.\<close>

definition serve_one :: "int list \<Rightarrow> string \<Rightarrow> machine \<Rightarrow> (string \<times> string) option \<times> machine" where
  "serve_one clock input m =
     (if length input < 9 then (None, m)
      else
        let envelope = take 9 input; input = drop 9 input in
        (case (case rest_count envelope of
                 None \<Rightarrow> Some ([], input)
               | Some n \<Rightarrow>
                   if n < 0 \<or> int (length input) < n then None
                   else Some (take (nat n) input, drop (nat n) input)) of
           None \<Rightarrow> (None, m)
         | Some (rest, input) \<Rightarrow>
             (case process clock (decode_ascii envelope @ decode_ascii rest) m of
                (Inr (Some reply), m) \<Rightarrow> (Some (reply, input), m)
              | (_, m) \<Rightarrow> (None, m))))"

lemma serve_one_shorter:
  "serve_one clock input m = (Some (reply, input'), m') \<Longrightarrow> length input' < length input"
  by (auto simp: serve_one_def Let_def split: if_splits option.splits prod.splits sum.splits)

function handle_client :: "int list \<Rightarrow> string \<Rightarrow> machine \<Rightarrow> string \<times> machine" where
  "handle_client clock input m =
     (case serve_one clock input m of
        (None, m) \<Rightarrow> ([], m)
      | (Some (reply, input), m) \<Rightarrow>
          let (out, m) = handle_client clock input m in (reply @ out, m))"
  by auto
termination
  by (relation "measure (\<lambda>(_, input, _). length input)") (auto dest: serve_one_shorter [OF sym])

declare handle_client.simps [simp del]

section \<open>Facts on the memory\<close>

definition mem_ok :: "machine \<Rightarrow> bool" where
  "mem_ok m \<longleftrightarrow> length (mm_settings m) = 0x100 \<and> list_all is_byte (mm_settings m)"

lemma new_machine_ok: "mem_ok new_machine"
  by code_simp

lemma list_all_update: "list_all P xs \<Longrightarrow> P x \<Longrightarrow> list_all P (xs[i := x])"
  by (auto simp: list_all_iff dest!: subsetD [OF set_update_subset_insert])

lemma em_write_bytes_ok:
  "mem_ok m \<Longrightarrow> mem_ok (snd (em_write_bytes i vs m))"
proof (induction i vs m rule: em_write_bytes.induct)
  case (2 i v vs m)
  show ?case
  proof (cases "py_set_item (mm_settings m) i (v AND 255)")
    case (Inr s)
    then have "mem_ok (m\<lparr>mm_settings := s\<rparr>)"
      using 2(2) by (auto simp: py_set_item_def mem_ok_def list_all_update Let_def split: if_splits)
    then show ?thesis using 2(1) [OF Inr] by (simp add: Inr)
  qed (use 2(2) in simp)
qed simp

lemma em_write_ok: "mem_ok m \<Longrightarrow> mem_ok (snd (em_write a d m))"
  by (simp add: em_write_def em_write_bytes_ok)

lemma process_ok: "mem_ok m \<Longrightarrow> mem_ok (snd (process clock raw m))"
  using em_write_ok [of m]
  by (auto simp: process_def split: sum.splits prod.splits) (metis snd_conv)+

lemma serve_one_ok: "mem_ok m \<Longrightarrow> mem_ok (snd (serve_one clock input m))"
proof -
  assume m: "mem_ok m"
  show ?thesis
    using process_ok [OF m]
    by (auto simp: serve_one_def m Let_def split: option.splits prod.splits sum.splits)
      (metis snd_conv)+
qed

lemma em_write_bytes_in_range:
  "0 \<le> i \<Longrightarrow> i + int (length vs) \<le> int (length (mm_settings m)) \<Longrightarrow>
     em_write_bytes i vs m =
       (Inr (), m\<lparr>mm_settings := write_at (mm_settings m) (nat i) (map (\<lambda>v. v AND 255) vs)\<rparr>)"
proof (induction vs arbitrary: i m)
  case (Cons v vs)
  have "nat (i + 1) = Suc (nat i)" using Cons.prems(1) by simp
  then show ?case using Cons by (simp add: py_set_item_def Let_def)
qed simp

lemma map_and_255: "list_all is_byte d \<Longrightarrow> map (\<lambda>v. v AND 255) d = d"
  by (auto simp: list_all_iff intro!: map_idI)

lemma em_write_settings:
  assumes "0 \<le> a" "a + int (length d) \<le> 0x100" "a < 0x100" "mem_ok m" "list_all is_byte d"
  shows "em_write a d m = (Inr (), m\<lparr>mm_settings := write_at (mm_settings m) (nat a) d\<rparr>)"
  using assms by (simp add: em_write_def em_write_bytes_in_range mem_ok_def map_and_255)

lemma em_read_settings:
  assumes "0 \<le> a" "0 \<le> n" "a + n \<le> 0x100" "a < 0x100" "mem_ok m"
  shows "em_read clock m a n = Inr (take (nat n) (drop (nat a) (mm_settings m)))"
  using assms by (simp add: em_read_def py_slice_in_range ljust_def mem_ok_def)

section \<open>The memory contract\<close>

text \<open>What a client of the machine relies on: a write of bytes inside the block
  succeeds, and a later read of the block shows it and nothing else changed.\<close>

locale register_file =
  fixes rd :: "'m \<Rightarrow> int \<Rightarrow> int \<Rightarrow> int list res"
    and wr :: "int \<Rightarrow> int list \<Rightarrow> 'm \<Rightarrow> unit res \<times> 'm"
    and block :: "'m \<Rightarrow> int list"
    and ok :: "'m \<Rightarrow> bool"
    and size :: int
  assumes block_size: "ok m \<Longrightarrow> int (length (block m)) = size \<and> list_all is_byte (block m)"
    and wr_block: "ok m \<Longrightarrow> 0 \<le> a \<Longrightarrow> d \<noteq> [] \<Longrightarrow> a + int (length d) \<le> size \<Longrightarrow> list_all is_byte d \<Longrightarrow>
      fst (wr a d m) = Inr () \<and> ok (snd (wr a d m))
      \<and> block (snd (wr a d m)) = write_at (block m) (nat a) d"
    and rd_block: "ok m \<Longrightarrow> 0 \<le> a \<Longrightarrow> 0 < n \<Longrightarrow> a + n \<le> size \<Longrightarrow>
      rd m a n = Inr (take (nat n) (drop (nat a) (block m)))"
begin

lemma rd_after_wr:
  assumes "ok m" "0 \<le> a" "d \<noteq> []" "a + int (length d) \<le> size" "list_all is_byte d"
    and "0 \<le> b" "0 < n" "b + n \<le> size"
  shows "rd (snd (wr a d m)) b n = Inr (take (nat n) (drop (nat b) (write_at (block m) (nat a) d)))"
  using wr_block [OF assms(1-5)] rd_block assms(6-8) by simp

lemma write_at_take_drop:
  "i + length d \<le> length xs \<Longrightarrow> take (length d) (drop i (write_at xs i d)) = d"
  by (intro nth_equalityI) (auto simp: nth_write_at)

lemma rd_own_wr:
  assumes "ok m" "0 \<le> a" "d \<noteq> []" "a + int (length d) \<le> size" "list_all is_byte d"
  shows "rd (snd (wr a d m)) a (int (length d)) = Inr d"
proof -
  have "nat a + length d \<le> length (block m)"
    using block_size [OF assms(1)] assms(2,4) by linarith
  then show ?thesis
    using rd_after_wr [OF assms assms(2), of "int (length d)"] assms(3,4)
    by (simp add: write_at_take_drop)
qed

lemma wr_twice:
  assumes "ok m" "0 \<le> a" "d \<noteq> []" "a + int (length d) \<le> size" "list_all is_byte d"
  shows "block (snd (wr a d (snd (wr a d m)))) = block (snd (wr a d m))"
proof -
  have "write_at (write_at xs i d) i d = write_at xs i d" for xs :: "int list" and i
    by (intro nth_equalityI) (auto simp: nth_write_at)
  then show ?thesis using wr_block [OF assms] wr_block [OF _ assms(2-5), of "snd (wr a d m)"] by simp
qed

end

interpretation emulator: register_file "em_read clock" em_write mm_settings mem_ok "0x100" for clock
proof
  fix m a d
  assume "mem_ok m" "0 \<le> a" "d \<noteq> []" "a + int (length d) \<le> 0x100" "list_all is_byte d"
  then have "em_write a d m = (Inr (), m\<lparr>mm_settings := write_at (mm_settings m) (nat a) d\<rparr>)"
    by (intro em_write_settings) (auto simp: neq_Nil_conv)
  then show "fst (em_write a d m) = Inr () \<and> mem_ok (snd (em_write a d m))
      \<and> mm_settings (snd (em_write a d m)) = write_at (mm_settings m) (nat a) d"
    using em_write_ok [OF \<open>mem_ok m\<close>, of a d] by simp
qed (auto simp: mem_ok_def em_read_settings)

text \<open>Requests as the builders make them.\<close>

lemma process_read:
  assumes "build_read a n = Inr raw" "is_addr a" "is_addr n"
  shows "process clock raw m =
    (bind_res (em_read clock m a n) (\<lambda>data. map_sum id Some (build_frame READ a n data)), m)"
  using assms parse_build_frame [of READ a n "[]" raw True]
  by (auto simp: process_def build_read_def)

lemma process_write:
  assumes "build_write a d = Inr raw" "is_addr a" "is_addr (int (length d))" "list_all is_byte d"
  shows "process clock raw m =
    (case em_write a d m of
       (Inl e, m) \<Rightarrow> (Inl e, m)
     | (Inr _, m) \<Rightarrow> (map_sum id Some (build_ack WRITE a (int (length d))), m))"
  using assms parse_build_frame [of WRITE a "int (length d)" d raw True]
  by (auto simp: process_def build_write_def READ_def WRITE_def map_and_255 py_bytes_def
      split: prod.splits sum.splits)

section \<open>Properties\<close>

text \<open>Over the wire the machine is a memory: a write frame for bytes of the
  settings block is acknowledged with its own envelope, and a read frame then
  answers with the block as it was except for exactly the bytes written.\<close>

theorem write_then_read:
  assumes "mem_ok m" "0 \<le> a" "d \<noteq> []" "a + int (length d) \<le> 0x100" "list_all is_byte d"
    and "0 \<le> b" "0 < n" "b + n \<le> 0x100"
    and "build_write a d = Inr w" "build_read b n = Inr r"
  shows "\<exists>m' ack reply f. process clock w m = (Inr (Some ack), m')
     \<and> build_ack WRITE a (int (length d)) = Inr ack
     \<and> process clock r m' = (Inr (Some reply), m') \<and> parse_frame True reply = Inr f
     \<and> fr_address f = b \<and> length (fr_data f) = nat n
     \<and> (\<forall>j < nat n. fr_data f ! j =
          (if nat a \<le> nat b + j \<and> nat b + j < nat a + length d then d ! (nat b + j - nat a)
           else mm_settings m ! (nat b + j)))"
proof -
  let ?m = "snd (em_write a d m)"
  have ad: "is_addr a" "is_addr (int (length d))" "is_addr b" "is_addr n"
    using assms(2-8) by (auto simp: is_addr_def neq_Nil_conv)
  have wr: "em_write a d m = (Inr (), ?m)" "mem_ok ?m"
    using emulator.wr_block [OF assms(1-5)] by (simp_all add: prod_eq_iff)
  obtain ack where ack: "build_ack WRITE a (int (length d)) = Inr ack"
    by (simp add: build_ack_Inr)
  have w: "process clock w m = (Inr (Some ack), ?m)"
    using process_write [OF assms(9) ad(1,2) assms(5), of clock m] wr(1) ack
    by (cases "em_write a d m") simp
  let ?data = "take (nat n) (drop (nat b) (write_at (mm_settings m) (nat a) d))"
  have rd: "em_read clock ?m b n = Inr ?data"
    using emulator.rd_after_wr [OF assms(1-8)] .
  obtain reply where reply: "build_frame READ b n ?data = Inr reply" by (simp add: build_frame_Inr)
  have r: "process clock r ?m = (Inr (Some reply), ?m)"
    using process_read [OF assms(10) ad(3,4), of clock ?m] rd reply by simp
  have "list_all is_byte (mm_settings ?m)" using wr(2) by (simp add: mem_ok_def)
  moreover have "mm_settings ?m = write_at (mm_settings m) (nat a) d"
    using emulator.wr_block [OF assms(1-5)] by simp
  ultimately have bt: "list_all is_byte ?data"
    by (auto simp: list_all_iff dest: in_set_takeD in_set_dropD)
  have len: "length ?data = nat n" using assms(1,6-8) by (simp add: mem_ok_def)
  obtain f where f: "parse_frame True reply = Inr f" "fr_address f = b" "fr_data f = ?data"
    using parse_build_frame [OF _ ad(3,4) reply, of True] by (simp add: map_and_255 [OF bt])
  have "?data ! j = (if nat a \<le> nat b + j \<and> nat b + j < nat a + length d
      then d ! (nat b + j - nat a) else mm_settings m ! (nat b + j))" if "j < nat n" for j
    using that assms(1,6-8) by (simp add: mem_ok_def nth_write_at)
  then show ?thesis using w ack r f len by auto
qed

theorem write_then_read_witness:
  "\<exists>m' ack reply f. process [] ''w004700010164'' new_machine = (Inr (Some ack), m')
     \<and> build_ack WRITE 0x47 (int (length [1 :: int])) = Inr ack
     \<and> process [] ''r00460003FF'' m' = (Inr (Some reply), m') \<and> parse_frame True reply = Inr f
     \<and> fr_address f = 0x46 \<and> length (fr_data f) = nat 3
     \<and> (\<forall>j < nat 3. fr_data f ! j =
          (if nat 0x47 \<le> nat 0x46 + j \<and> nat 0x46 + j < nat 0x47 + length [1 :: int]
           then [1] ! (nat 0x46 + j - nat 0x47)
           else mm_settings new_machine ! (nat 0x46 + j)))"
proof -
  have "build_write 0x47 [1] = Inr ''w004700010164''" "build_read 0x46 3 = Inr ''r00460003FF''"
    by code_simp+
  then show ?thesis
    by (intro write_then_read) (simp_all add: new_machine_ok is_byte_def)
qed

text \<open>A write that crosses the end of the 256-byte memory is neither refused nor
  ignored: the bytes up to the end are stored, then \<open>IndexError\<close> escapes the
  handler, so the client gets no reply to a write that was half performed.\<close>

theorem write_across_end_is_partial:
  assumes "mem_ok m" "0 \<le> a" "a < 0x100" "0x100 < a + int (length d)" "list_all is_byte d"
    and "length d < 0x10000" "build_write a d = Inr w"
  shows "process clock w m = (Inl IndexError,
     m\<lparr>mm_settings := write_at (mm_settings m) (nat a) (take (nat (0x100 - a)) d)\<rparr>)"
proof -
  have part: "em_write_bytes i (xs @ v # ys) m =
      (Inl IndexError, m\<lparr>mm_settings := write_at (mm_settings m) (nat i) xs\<rparr>)"
    if "list_all is_byte xs" "0 \<le> i" "i + int (length xs) = int (length (mm_settings m))"
    for i xs v ys m
    using that
  proof (induction xs arbitrary: i m)
    case Nil
    then show ?case by (simp add: py_set_item_def Let_def)
  next
    case (Cons x xs)
    have "nat (i + 1) = Suc (nat i)" using Cons.prems(2) by simp
    then show ?case using Cons by (simp add: py_set_item_def Let_def)
  qed
  let ?k = "nat (0x100 - a)"
  have k: "?k < length d" using assms(3,4) by linarith
  then have "d = take ?k d @ d ! ?k # drop (Suc ?k) d" by (rule id_take_nth_drop)
  moreover have "list_all is_byte (take ?k d)"
    using assms(5) by (auto simp: list_all_iff dest: in_set_takeD)
  ultimately have "em_write a d m = (Inl IndexError,
      m\<lparr>mm_settings := write_at (mm_settings m) (nat a) (take ?k d)\<rparr>)"
    using assms(1-3) k part [of "take ?k d" a m "d ! ?k" "drop (Suc ?k) d"]
    by (simp add: em_write_def mem_ok_def)
  then show ?thesis
    using process_write [OF assms(7) _ _ assms(5), of clock m] assms(2,3,6)
    by (simp add: is_addr_def)
qed

theorem write_across_end_is_partial_witness:
  "process [] ''w00FF00020506F0'' new_machine = (Inl IndexError,
     new_machine\<lparr>mm_settings :=
       write_at (mm_settings new_machine) (nat 0xFF) (take (nat (0x100 - 0xFF)) [5, 6])\<rparr>)"
proof -
  have "build_write 0xFF [5, 6] = Inr ''w00FF00020506F0''" by code_simp
  then show ?thesis
    by (intro write_across_end_is_partial) (simp_all add: new_machine_ok is_byte_def)
qed

end
