(* ===== verification/Frontend.thy ===== *)
theory Frontend
  imports Governor Emulator
begin

text \<open>
  The native-protocol front-end of the bridge, \<open>bridge/r60v_broker/tcp_frontend.py\<close>:
  reading one request from a LAN client and answering it through the governor. A
  call of the governor, \<open>await governor.read(...)\<close>, is a function \<open>gov\<close> of the job
  and the state behind it; \<open>gov_call\<close> is that function for the governor's own model
  around any executor of jobs, and \<open>em_exec\<close> is the executor that talks to the
  emulated machine over a perfect link.
\<close>

section \<open>Calls of the governor\<close>

definition gov_call :: "(op \<Rightarrow> 'd \<Rightarrow> outcome res \<times> 'd) \<Rightarrow> int \<Rightarrow> op \<Rightarrow> governor \<times> 'd
    \<Rightarrow> outcome res \<times> (governor \<times> 'd)" where
  "gov_call exec priority op gd =
     (let (n, g) = submit priority op (fst gd);
          (g, d) = worker_rounds (length (gv_queue g)) exec (g, snd gd)
      in (case gv_futures g n of Some (Finished r) \<Rightarrow> r | _ \<Rightarrow> Inl CancelledError, (g, d)))"

definition gov_op :: "(op \<Rightarrow> 'd \<Rightarrow> outcome res \<times> 'd) \<Rightarrow> op \<Rightarrow> governor \<times> 'd
    \<Rightarrow> outcome res \<times> (governor \<times> 'd)" where
  "gov_op exec op =
     gov_call exec (case op of Read _ _ \<Rightarrow> PRIORITY_POLL | Write _ _ \<Rightarrow> PRIORITY_COMMAND) op"

definition quiescent :: "governor \<Rightarrow> bool" where
  "quiescent g \<longleftrightarrow> gv_worker g = Idle \<and> gv_queue g = []"

lemma gov_call_quiescent:
  assumes "quiescent g"
  shows "\<exists>g'. gov_call exec p op (g, d) = (fst (exec op d), (g', snd (exec op d))) \<and> quiescent g'"
proof -
  define j where "j = \<lparr>jb_priority = p, jb_seq = gv_counter g, jb_op = op\<rparr>"
  define g1 where "g1 = snd (submit p op g)"
  have g1: "gv_worker g1 = Idle" "gv_queue g1 = [j]" "gv_futures g1 (gv_counter g) = Some Waiting"
    "submit p op g = (gv_counter g, g1)"
    using assms by (simp_all add: g1_def submit_def quiescent_def j_def pq_put_def Let_def)
  have q: "pq_get (gv_queue g1) = Some (j, [])" by (simp add: g1 pq_get_def)
  obtain g' where g': "worker_round exec (g1, d) = (g', snd (exec op d))"
    "gv_worker g' = Idle" "gv_queue g' = []"
    "gv_futures g' (gv_counter g) = Some (Finished (fst (exec op d)))"
    using worker_round_step [OF g1(1) q, of exec d] g1(3) by (auto simp: j_def)
  show ?thesis
    using g1 g' by (simp add: gov_call_def quiescent_def)
qed

section \<open>One request\<close>

text \<open>\<open>_read_request\<close> on the bytes sent so far: the frame text and what follows it.\<close>

definition read_request :: "string \<Rightarrow> (string \<times> string) res" where
  "read_request input =
     (if length input < 9 then Inl IncompleteReadError
      else
        let envelope = take 9 input;
            input = drop 9 input;
            count =
              (if [hd envelope] = WRITE
               then (case py_int 16 (take 4 (drop 5 envelope)) of
                       Inl _ \<Rightarrow> 2
                     | Inr len \<Rightarrow> len * 2 + 2)
               else 2)
        in if count < 0 then Inl ValueError
           else if int (length input) < count then Inl IncompleteReadError
           else Inr (decode_ascii envelope @ decode_ascii (take (nat count) input),
                     drop (nat count) input))"

text \<open>\<open>_dispatch\<close>: \<open>None\<close> drops the client; only \<open>R60VConnectionError\<close> of the governor
  is caught.\<close>

definition dispatch :: "(op \<Rightarrow> 'w \<Rightarrow> outcome res \<times> 'w) \<Rightarrow> string \<Rightarrow> 'w \<Rightarrow> string option res \<times> 'w" where
  "dispatch gov raw w =
     (case parse_frame True raw of
        Inl _ \<Rightarrow> (Inr None, w)
      | Inr frame \<Rightarrow>
          if fr_command frame = READ then
            (case gov (Read (fr_address frame) (fr_length frame)) w of
               (Inl e, w) \<Rightarrow> (if e = R60VConnectionError then Inr None else Inl e, w)
             | (Inr (Data data), w) \<Rightarrow>
                 (map_sum id Some
                    (build_frame READ (fr_address frame) (fr_length frame) data), w)
             | (Inr (Ack _), w) \<Rightarrow> (Inl TypeError, w))
          else
            (case gov (Write (fr_address frame) (fr_data frame)) w of
               (Inl e, w) \<Rightarrow> (if e = R60VConnectionError then Inr None else Inl e, w)
             | (Inr _, w) \<Rightarrow>
                 (map_sum id Some
                    (build_ack WRITE (fr_address frame) (fr_length frame)), w)))"

text \<open>One round of \<open>_handle_client\<close>: the reply and the input left, or the end of the
  connection.\<close>

definition frontend_round :: "(op \<Rightarrow> 'w \<Rightarrow> outcome res \<times> 'w) \<Rightarrow> string \<Rightarrow> 'w
    \<Rightarrow> (string \<times> string) option \<times> 'w" where
  "frontend_round gov input w =
     (case read_request input of
        Inl _ \<Rightarrow> (None, w)
      | Inr (raw, input) \<Rightarrow>
          (case dispatch gov raw w of
             (Inr (Some response), w) \<Rightarrow> (Some (response, input), w)
           | (_, w) \<Rightarrow> (None, w)))"

lemma read_request_shorter: "read_request input = Inr (raw, rest) \<Longrightarrow> length rest < length input"
  by (auto simp: read_request_def Let_def split: if_splits)

lemma frontend_round_shorter:
  "frontend_round gov input w = (Some (reply, rest), w') \<Longrightarrow> length rest < length input"
  by (auto simp: frontend_round_def dest: read_request_shorter
      split: sum.splits prod.splits option.splits)

function frontend_client :: "(op \<Rightarrow> 'w \<Rightarrow> outcome res \<times> 'w) \<Rightarrow> string \<Rightarrow> 'w \<Rightarrow> string \<times> 'w" where
  "frontend_client gov input w =
     (case frontend_round gov input w of
        (None, w) \<Rightarrow> ([], w)
      | (Some (response, input), w) \<Rightarrow>
          let (out, w) = frontend_client gov input w in (response @ out, w))"
  by auto
termination
  by (relation "measure (\<lambda>(_, input, _). length input)")
    (auto dest: frontend_round_shorter [OF sym])

declare frontend_client.simps [simp del]

section \<open>A perfect link to the emulated machine\<close>

definition em_exec :: "int list \<Rightarrow> op \<Rightarrow> machine \<Rightarrow> outcome res \<times> machine" where
  "em_exec clock op m =
     (case (case op of Read a l \<Rightarrow> build_read a l | Write a d \<Rightarrow> build_write a d) of
        Inl e \<Rightarrow> (Inl e, m)
      | Inr raw \<Rightarrow>
          (case process clock raw m of
             (Inr (Some reply), m) \<Rightarrow>
               (case parse_frame True reply of
                  Inl _ \<Rightarrow> (Inl R60VConnectionError, m)
                | Inr f \<Rightarrow>
                    (Inr (case op of Read _ _ \<Rightarrow> Data (fr_data f) | Write _ _ \<Rightarrow> Ack f), m))
           | (_, m) \<Rightarrow> (Inl R60VConnectionError, m)))"

definition live_ok :: "int list \<Rightarrow> machine \<Rightarrow> bool" where
  "live_ok clock m \<longleftrightarrow> mem_ok m \<and> list_all is_byte clock"

lemma to_bytes_le_ok: "list_all is_byte (to_bytes_le n v)"
  by (induction n arbitrary: v) (auto simp: is_byte_def)

lemma list_all_py_slice: "list_all P xs \<Longrightarrow> list_all P (py_slice xs i j)"
  by (auto simp: py_slice_def list_all_iff Let_def dest: in_set_takeD in_set_dropD)

lemma list_all_ljust: "list_all P xs \<Longrightarrow> P c \<Longrightarrow> list_all P (ljust n c xs)"
  by (auto simp: ljust_def list_all_iff)

lemma zero_bytes_ok: "zero_bytes n = Inr d \<Longrightarrow> list_all is_byte d"
  by (auto simp: zero_bytes_def list_all_iff is_byte_def split: if_splits)

lemma int_bytes_ok: "int_bytes v n = Inr d \<Longrightarrow> list_all is_byte d"
  using list_all_py_slice [OF to_bytes_le_ok]
  by (auto simp: int_bytes_def Let_def dest: zero_bytes_ok split: if_splits)

lemma read_live_ok:
  assumes "list_all is_byte clock" "read_live clock m a n = Inr d"
  shows "list_all is_byte d"
proof -
  have disp: "list_all is_byte (map (\<lambda>c. int (code c)) s)" for s
  proof -
    have "code c \<le> 255" for c using nat_of_char_less_256 [of c] unfolding code_def by linarith
    then show ?thesis by (auto simp: list_all_iff is_byte_def)
  qed
  have z: "is_byte 0" "is_byte 32" by (simp_all add: is_byte_def)
  note sl = list_all_py_slice [OF list_all_ljust]
  show ?thesis
    using assms(2) unfolding read_live_def
    by (auto split: if_splits dest: int_bytes_ok zero_bytes_ok
        simp: sl [OF disp z(2)] sl [OF assms(1) z(1)])
qed

lemma em_read_ok:
  assumes "live_ok clock m" "em_read clock m a n = Inr d"
  shows "list_all is_byte d"
  using assms read_live_ok [of clock m a n d]
  by (auto simp: em_read_def live_ok_def mem_ok_def is_byte_def [of 0]
      intro!: list_all_ljust list_all_py_slice split: if_splits)

lemma em_exec_read:
  assumes "live_ok clock m" "is_addr a" "is_addr n" "em_read clock m a n = Inr d"
  shows "em_exec clock (Read a n) m = (Inr (Data d), m)"
proof -
  obtain raw where raw: "build_read a n = Inr raw" by (auto simp: build_read_def build_frame_Inr)
  obtain reply where reply: "build_frame READ a n d = Inr reply" by (simp add: build_frame_Inr)
  have p: "process clock raw m = (Inr (Some reply), m)"
    using process_read [OF raw assms(2,3), of clock m] assms(4) reply by simp
  obtain f where "parse_frame True reply = Inr f" "fr_data f = d"
    using parse_build_frame [OF _ assms(2,3) reply, of True] map_and_255 [OF em_read_ok [OF assms(1,4)]]
    by auto
  then show ?thesis using raw p by (simp add: em_exec_def)
qed

lemma em_exec_write:
  assumes "is_addr a" "is_addr (int (length d))" "list_all is_byte d"
    and "em_write a d m = (Inr (), m')"
  shows "\<exists>f. em_exec clock (Write a d) m = (Inr (Ack f), m')"
proof -
  obtain raw where raw: "build_write a d = Inr raw" by (simp add: build_write_def build_frame_Inr)
  obtain ack where ack: "build_ack WRITE a (int (length d)) = Inr ack" by (simp add: build_ack_Inr)
  have p: "process clock raw m = (Inr (Some ack), m')"
    using process_write [OF raw assms(1-3), of clock m] assms(4) ack by simp
  obtain f where "parse_frame True ack = Inr f"
    using parse_build_ack [OF _ assms(1,2) ack, of True] by auto
  then show ?thesis using raw p by (simp add: em_exec_def)
qed

section \<open>Properties\<close>

text \<open>C30: A LAN client cannot tell the bridge from the machine: on every frame that
  the machine itself would answer, the front-end, going through the idle governor
  and a fresh frame on the machine's link, gives the very same reply text and
  leaves the machine in the same state.\<close>

theorem frontend_transparent:
  assumes "quiescent g" "live_ok clock m"
    and "parse_frame True raw = Inr f" "is_addr (fr_address f)" "is_addr (fr_length f)"
    and "list_all is_byte (fr_data f)" "length (fr_data f) < 0x10000"
    and "process clock raw m = (Inr (Some reply), m')"
  shows "\<exists>g'. dispatch (gov_op (em_exec clock)) raw (g, m) = (Inr (Some reply), (g', m'))
     \<and> quiescent g'"
proof (cases "fr_command f = READ")
  case True
  obtain d where d: "em_read clock m (fr_address f) (fr_length f) = Inr d" "m' = m"
    "build_frame READ (fr_address f) (fr_length f) d = Inr reply"
    using assms(3,8) True
    by (cases "em_read clock m (fr_address f) (fr_length f)")
      (auto simp: process_def build_frame_Inr)
  have x: "em_exec clock (Read (fr_address f) (fr_length f)) m = (Inr (Data d), m)"
    by (rule em_exec_read [OF assms(2,4,5) d(1)])
  obtain g' where "gov_op (em_exec clock) (Read (fr_address f) (fr_length f)) (g, m)
      = (Inr (Data d), (g', m))" "quiescent g'"
    using gov_call_quiescent [OF assms(1), of "em_exec clock" PRIORITY_POLL
        "Read (fr_address f) (fr_length f)" m] x
    by (auto simp: gov_op_def)
  then show ?thesis using assms(3) True d by (simp add: dispatch_def)
next
  case False
  obtain ack where ack: "build_ack WRITE (fr_address f) (fr_length f) = Inr ack"
    by (simp add: build_ack_Inr)
  obtain m1 where w: "em_write (fr_address f) (fr_data f) m = (Inr (), m1)" "m' = m1" "reply = ack"
    using assms(3,6,8) False ack
    by (cases "em_write (fr_address f) (fr_data f) m")
      (auto simp: process_def py_bytes_def split: sum.splits)
  have "is_addr (int (length (fr_data f)))" using assms(7) by (simp add: is_addr_def)
  then obtain a where x: "em_exec clock (Write (fr_address f) (fr_data f)) m = (Inr (Ack a), m1)"
    using em_exec_write [OF assms(4) _ assms(6) w(1), of clock] by blast
  obtain g' where "gov_op (em_exec clock) (Write (fr_address f) (fr_data f)) (g, m)
      = (Inr (Ack a), (g', m1))" "quiescent g'"
    using gov_call_quiescent [OF assms(1), of "em_exec clock" PRIORITY_COMMAND
        "Write (fr_address f) (fr_data f)" m] x
    by (auto simp: gov_op_def)
  then show ?thesis using assms(3) False w ack by (simp add: dispatch_def)
qed

theorem frontend_transparent_witness:
  "\<exists>g'. dispatch (gov_op (em_exec [])) ''r00020002F6'' (gv_start (new_governor 0), new_machine)
       = (Inr (Some ''r00020002697BDE''), (g', new_machine)) \<and> quiescent g'"
proof -
  obtain f where f: "parse_frame True ''r00020002F6'' = Inr f" "fr_address f = 2" "fr_length f = 2"
    "fr_data f = []"
  proof -
    have "build_frame READ 2 2 [] = Inr ''r00020002F6''" by code_simp
    from parse_build_frame [OF _ _ _ this, of True] that show ?thesis by (simp add: is_addr_def)
  qed
  have "map_sum id (map_option (\<lambda>s. s = ''r00020002697BDE'')) (fst (process [] ''r00020002F6'' new_machine))
      = Inr (Some True)"
    by code_simp
  then have "fst (process [] ''r00020002F6'' new_machine) = Inr (Some ''r00020002697BDE'')"
    by (cases "fst (process [] ''r00020002F6'' new_machine)") auto
  moreover have "snd (process [] ''r00020002F6'' new_machine) = new_machine"
    using f by (simp add: process_def em_read_def READ_def parse_frame_InrD)
  ultimately have p: "process [] ''r00020002F6'' new_machine = (Inr (Some ''r00020002697BDE''), new_machine)"
    by (simp add: prod_eq_iff)
  show ?thesis
    by (rule frontend_transparent [OF _ _ f(1) _ _ _ _ p])
      (simp_all add: f quiescent_def gv_start_def new_governor_def live_ok_def new_machine_ok is_addr_def)
qed

end
