(* ===== verification/Bridged.thy ===== *)
theory Bridged
  imports Intents Frontend
begin

text \<open>
  The bridge on its machine: the device that \<open>broker.py\<close>'s loops call, made of the
  governor (\<open>governor.py\<close>) over a perfect link to the emulated machine (\<open>emulator.py\<close>), and
  what a queue of write intents does when nothing disturbs it: each write reaches the
  memory in order, no overlay is left, and the cache is the memory's settings block.
\<close>

section \<open>The device\<close>

definition data_of :: "outcome res \<Rightarrow> int list res" where
  "data_of r = bind_res r (\<lambda>o'. case o' of Data d \<Rightarrow> Inr d | Ack _ \<Rightarrow> Inl AssertionError)"

definition bridged_machine :: "int list \<Rightarrow> (governor \<times> machine) device" where
  "bridged_machine clock =
     \<lparr>dv_read = (\<lambda>a n b. case gov_op (em_exec clock) (Read a n) (bk_dev b) of
        (r, gd) \<Rightarrow> (data_of r, b\<lparr>bk_dev := gd\<rparr>)),
      dv_write = (\<lambda>a d b. case gov_op (em_exec clock) (Write a d) (bk_dev b) of
        (r, gd) \<Rightarrow> (bind_res r (\<lambda>_. Inr ()), b\<lparr>bk_dev := gd\<rparr>)),
      dv_close_link = (\<lambda>b. b), dv_sleep = (\<lambda>dt b. b\<lparr>bk_now := bk_now b + dt\<rparr>)\<rparr>"

text \<open>The governor is idle and the machine behind it is \<open>m\<close>.\<close>

definition on_machine :: "int list \<Rightarrow> machine \<Rightarrow> (governor \<times> machine) broker \<Rightarrow> bool" where
  "on_machine clock m b \<longleftrightarrow> quiescent (fst (bk_dev b)) \<and> snd (bk_dev b) = m \<and> live_ok clock m"

definition settings_block :: "machine \<Rightarrow> int list" where
  "settings_block m = take (nat SETTINGS_LEN) (mm_settings m)"

lemma gov_op_quiescent:
  assumes "quiescent g"
  obtains g' where "gov_op exec op (g, d) = (fst (exec op d), (g', snd (exec op d)))" "quiescent g'"
  using gov_call_quiescent [OF assms, of exec _ op d] unfolding gov_op_def by blast

lemma bridged_read:
  assumes "on_machine clock m b" "is_addr a" "is_addr n" "em_read clock m a n = Inr d"
  obtains b' where "dv_read (bridged_machine clock) a n b = (Inr d, b')" "on_machine clock m b'"
    "b' = b\<lparr>bk_dev := bk_dev b'\<rparr>"
proof -
  obtain g where g: "bk_dev b = (g, m)" "quiescent g" "live_ok clock m"
    using assms(1) by (cases "bk_dev b") (auto simp: on_machine_def)
  note x = em_exec_read [OF g(3) assms(2-4)]
  obtain g' where g': "gov_op (em_exec clock) (Read a n) (g, m) = (Inr (Data d), (g', m))" "quiescent g'"
    using gov_op_quiescent [OF g(2), of "em_exec clock" "Read a n" m] x by auto
  show thesis
    by (rule that [of "b\<lparr>bk_dev := (g', m)\<rparr>"])
      (simp_all add: bridged_machine_def g g' data_of_def on_machine_def)
qed

lemma bridged_write:
  assumes "on_machine clock m b" "0 \<le> a" "d \<noteq> []" "a + int (length d) \<le> SETTINGS_LEN" "list_all is_byte d"
  obtains b' m' where "dv_write (bridged_machine clock) a d b = (Inr (), b')" "on_machine clock m' b'"
    "b' = b\<lparr>bk_dev := bk_dev b'\<rparr>" "mm_settings m' = write_at (mm_settings m) (nat a) d"
proof -
  obtain g where g: "bk_dev b = (g, m)" "quiescent g" "live_ok clock m"
    using assms(1) by (cases "bk_dev b") (auto simp: on_machine_def)
  have r: "a < 0x100" "a + int (length d) \<le> 0x100" using assms(3,4) by (auto simp: SETTINGS_LEN_def neq_Nil_conv)
  let ?m = "m\<lparr>mm_settings := write_at (mm_settings m) (nat a) d\<rparr>"
  have mem: "mem_ok m" using g(3) by (simp add: live_ok_def)
  have w: "em_write a d m = (Inr (), ?m)" by (rule em_write_settings [OF assms(2) r(2,1) mem assms(5)])
  have ok: "live_ok clock ?m" using g(3) em_write_ok [OF mem, of a d] by (simp add: w live_ok_def)
  have ad: "is_addr a" "is_addr (int (length d))" using assms(2) r by (auto simp: is_addr_def)
  obtain f where x: "em_exec clock (Write a d) m = (Inr (Ack f), ?m)"
    using em_exec_write [OF ad assms(5) w] by blast
  obtain g' where g': "gov_op (em_exec clock) (Write a d) (g, m) = (Inr (Ack f), (g', ?m))" "quiescent g'"
    using gov_op_quiescent [OF g(2), of "em_exec clock" "Write a d" m] x by auto
  show thesis
    by (rule that [of "b\<lparr>bk_dev := (g', ?m)\<rparr>" ?m])
      (use ok in \<open>simp_all add: bridged_machine_def g g' on_machine_def\<close>)
qed

section \<open>One intent\<close>

lemma em_read_block:
  "live_ok clock m \<Longrightarrow> em_read clock m SETTINGS_BASE SETTINGS_LEN = Inr (settings_block m)"
  by (simp add: em_read_settings live_ok_def settings_block_def SETTINGS_BASE_def SETTINGS_LEN_def)

lemma bridged_intent:
  assumes "on_machine clock m b" "\<not> in_cooldown (bk_now b) (bk_wedge b)"
    and "bk_intents b = Some ((a, d) # q)"
    and "0 \<le> a" "d \<noteq> []" "a + int (length d) \<le> SETTINGS_LEN" "list_all is_byte d"
  obtains b' m' where "intent_round (bridged_machine clock) b = Some b'" "on_machine clock m' b'"
    "mm_settings m' = write_at (mm_settings m) (nat a) d" "bk_intents b' = Some q"
    "\<not> in_cooldown (bk_now b') (bk_wedge b')"
    "bk_store b' = store_run [Reconcile (intent_bytes a d), Settings (settings_block m'), Success] (bk_store b)"
proof -
  let ?dev = "bridged_machine clock" and ?b = "b\<lparr>bk_intents := Some q\<rparr>"
  have o: "on_machine clock m ?b" using assms(1) by (simp add: on_machine_def)
  obtain b1 m' where w: "dv_write ?dev a d ?b = (Inr (), b1)" "on_machine clock m' b1"
    "b1 = ?b\<lparr>bk_dev := bk_dev b1\<rparr>" "mm_settings m' = write_at (mm_settings m) (nat a) d"
    by (rule bridged_write [OF o assms(4-7)])
  let ?b2 = "on_store (Reconcile (intent_bytes a d)) b1"
  have o2: "on_machine clock m' ?b2" using w(2) by (simp add: on_machine_def)
  then have rd: "em_read clock m' SETTINGS_BASE SETTINGS_LEN = Inr (settings_block m')"
    by (intro em_read_block) (simp add: on_machine_def)
  obtain b3 where r: "dv_read ?dev SETTINGS_BASE SETTINGS_LEN ?b2 = (Inr (settings_block m'), b3)"
    "on_machine clock m' b3" "b3 = ?b2\<lparr>bk_dev := bk_dev b3\<rparr>"
    by (rule bridged_read [OF o2 _ _ rd]) (auto simp: is_addr_def SETTINGS_BASE_def SETTINGS_LEN_def)
  let ?b' = "broadcast_state (on_store Success (on_store (Settings (settings_block m')) b3))"
  have "write_tries ?dev WRITE_RETRIES a d ?b = (Inr True, b1)"
    by (simp add: WRITE_RETRIES_def write_tries.simps w(1))
  moreover have "reconcile ?dev True a d b1 = (Inr (), ?b')"
    by (simp add: reconcile_def poll_settings_def r(1))
  moreover have "wait_cooldown ?dev ?b = Some ?b" using assms(2) by (simp add: wait_cooldown.simps)
  ultimately have "intent_round ?dev b = Some ?b'"
    by (simp add: intent_round_def write_and_reconcile_def assms(3))
  moreover have "bk_dev ?b' = bk_dev b3" by (simp add: broadcast_state_def)
  then have "on_machine clock m' ?b'" using r(2) by (simp add: on_machine_def)
  moreover have b1: "bk_store b1 = bk_store b" "bk_now b1 = bk_now b" "bk_wedge b1 = bk_wedge b"
    "bk_intents b1 = Some q"
    by (subst w(3), simp)+
  moreover have "bk_store b3 = bk_store ?b2" "bk_now b3 = bk_now ?b2" "bk_wedge b3 = bk_wedge ?b2"
    "bk_intents b3 = bk_intents ?b2"
    by (subst r(3), simp)+
  ultimately show thesis
    using assms(2) w(4) by (intro that [of ?b' m']) simp_all
qed

section \<open>A queue of intents\<close>

fun drain_intents :: "nat \<Rightarrow> 'd device \<Rightarrow> 'd broker \<Rightarrow> 'd broker option" where
  "drain_intents 0 dev b = Some b"
| "drain_intents (Suc n) dev b = Option.bind (intent_round dev b) (drain_intents n dev)"

definition in_block :: "int \<times> int list \<Rightarrow> bool" where
  "in_block w \<longleftrightarrow> 0 \<le> fst w \<and> snd w \<noteq> [] \<and> fst w + int (length (snd w)) \<le> SETTINGS_LEN \<and> list_all is_byte (snd w)"

definition write_all :: "(int \<times> int list) list \<Rightarrow> int list \<Rightarrow> int list" where
  "write_all ws xs = fold (\<lambda>w xs. write_at xs (nat (fst w)) (snd w)) ws xs"

lemma length_write_all [simp]: "length (write_all ws xs) = length xs"
  unfolding write_all_def by (induction ws arbitrary: xs) auto

definition pending_after :: "(int \<times> int list) list \<Rightarrow> (int \<times> int) list \<Rightarrow> (int \<times> int) list" where
  "pending_after ws m = fold (\<lambda>(a, d). drop_bytes (intent_bytes a d)) ws m"

lemma bridged_queue:
  assumes "on_machine clock m b" "\<not> in_cooldown (bk_now b) (bk_wedge b)"
    and "bk_intents b = Some ws" "list_all in_block ws" "ws \<noteq> []"
  obtains b' m' ops where "drain_intents (length ws) (bridged_machine clock) b = Some b'" "on_machine clock m' b'"
    "mm_settings m' = write_all ws (mm_settings m)" "bk_intents b' = Some []"
    "bk_store b' = store_run ops (bk_store b)"
    "\<forall>op \<in> set ops. case op of Live _ _ _ \<Rightarrow> False | _ \<Rightarrow> True"
    "st_pending (bk_store b') = pending_after ws (st_pending (bk_store b))"
    "settings (bk_store b') = overlay (st_pending (bk_store b')) (settings_block m')"
    "available (bk_store b')"
  using assms
proof (induction ws arbitrary: b m thesis)
  case (Cons w ws)
  obtain a d where w: "w = (a, d)" by (cases w)
  have io: "0 \<le> a" "d \<noteq> []" "a + int (length d) \<le> SETTINGS_LEN" "list_all is_byte d"
    using Cons.prems(5) by (simp_all add: w in_block_def)
  obtain b1 m1 where s: "intent_round (bridged_machine clock) b = Some b1" "on_machine clock m1 b1"
    "mm_settings m1 = write_at (mm_settings m) (nat a) d" "bk_intents b1 = Some ws"
    "\<not> in_cooldown (bk_now b1) (bk_wedge b1)"
    "bk_store b1 = store_run [Reconcile (intent_bytes a d), Settings (settings_block m1), Success] (bk_store b)"
    by (rule bridged_intent [OF Cons.prems(2,3) Cons.prems(4) [unfolded w] io])
  let ?ops = "[Reconcile (intent_bytes a d), Settings (settings_block m1), Success]"
  have p1: "st_pending (bk_store b1) = drop_bytes (intent_bytes a d) (st_pending (bk_store b))"
    by (simp add: s(6) note_fields update_settings_fields)
  show ?case
  proof (cases "ws = []")
    case True
    have "settings (bk_store b1) = overlay (st_pending (bk_store b1)) (settings_block m1)" "available (bk_store b1)"
      by (simp_all add: s(6) note_fields update_settings_fields)
    then show ?thesis
      using s p1 True
      by (intro Cons.prems(1) [of b1 m1 ?ops]) (simp_all add: w write_all_def pending_after_def)
  next
    case False
    obtain b' m' ops where r: "drain_intents (length ws) (bridged_machine clock) b1 = Some b'" "on_machine clock m' b'"
      "mm_settings m' = write_all ws (mm_settings m1)" "bk_intents b' = Some []"
      "bk_store b' = store_run ops (bk_store b1)"
      "\<forall>op \<in> set ops. case op of Live _ _ _ \<Rightarrow> False | _ \<Rightarrow> True"
      "st_pending (bk_store b') = pending_after ws (st_pending (bk_store b1))"
      "settings (bk_store b') = overlay (st_pending (bk_store b')) (settings_block m')" "available (bk_store b')"
      using Cons.IH [OF _ s(2,5,4) _ False] Cons.prems(5) by auto
    show ?thesis
      using r s(1,3) p1
      by (intro Cons.prems(1) [of b' m' "?ops @ ops"])
        (simp_all add: w s(6) write_all_def pending_after_def)
  qed
qed simp

text \<open>Every byte of the overlay that the queued commands left is removed with them.\<close>

lemma pending_after_gone:
  assumes "\<And>x y. map_of m x = Some y \<Longrightarrow> \<exists>(a, d) \<in> set ws. \<exists>k < length d. x = a + int k \<and> d ! k = y"
  shows "pending_after ws m = []"
proof -
  have sub: "map_of (pending_after ws m) x = Some y \<Longrightarrow>
      map_of m x = Some y \<and> (\<forall>(a, d) \<in> set ws. \<not> (\<exists>k < length d. x = a + int k \<and> d ! k = y))" for x y
  proof (induction ws arbitrary: m)
    case (Cons w ws)
    obtain a d where w: "w = (a, d)" by (cases w)
    have "map_of (pending_after ws (drop_bytes (intent_bytes a d) m)) x = Some y"
      using Cons.prems by (simp add: pending_after_def w)
    from Cons.IH [OF this] show ?case by (auto simp: w drop_intent_bytes split: if_splits)
  qed (simp add: pending_after_def)
  have "map_of (pending_after ws m) x = None" for x
  proof (rule ccontr)
    assume "map_of (pending_after ws m) x \<noteq> None"
    then obtain y where y: "map_of (pending_after ws m) x = Some y" by blast
    from sub [OF y] assms [of x y] show False by blast
  qed
  then show ?thesis by (metis fst_conv list.set_intros(1) map_of_eq_None_iff list.exhaust image_eqI surj_pair)
qed

end
