(* ===== verification/Client.thy ===== *)
theory Client
  imports Protocol
begin

text \<open>
  The half-duplex client of the machine, \<open>bridge/r60v_broker/client.py\<close>. What the
  network, the clock and the other tasks do during one await is a \<open>happening\<close>:
  the time it took, the bytes that arrived, how it ended, and whether another
  task closed the link meanwhile (\<open>R60VClient.close\<close> does not take the request
  lock). The happenings are a tape, an argument of the model that nothing is
  assumed about; every await consumes one. The state keeps the stream reader's
  buffer, so bytes of a reply that came too late stay there, and a log of what
  was sent. \<open>_ensure_connected\<close> may retry for ever, so it is a partial function.

  The definitions with \<open>prep\<close> and \<open>parse\<close> arguments are shared with the client of
  the integration, which discards stale input before it sends and vendors its
  own parser.
\<close>

section \<open>The environment\<close>

datatype ending = Quiet | Broken | Ended

text \<open>\<open>Broken\<close> is an \<open>OSError\<close> of the socket, \<open>Ended\<close> an orderly end of the stream.\<close>

record happening =
  hp_ms :: nat
  hp_bytes :: string
  hp_ending :: ending
  hp_closed :: bool

datatype link = No_link | Link_open | Link_closing

datatype action = Connected | Sent time string | Closed

record conn =
  cn_connect_timeout :: time
  cn_request_timeout :: time
  cn_backoff_initial :: time
  cn_backoff_max :: time
  cn_warmup :: bool
  cn_gap :: time
  cn_max_retries :: int
  cn_link :: link
  cn_buf :: string
  cn_eof :: bool
  cn_last_at :: time
  cn_now :: time
  cn_tape :: "nat \<Rightarrow> happening"
  cn_pos :: nat
  cn_log :: "action list"

definition hp_dt :: "happening \<Rightarrow> time" where
  "hp_dt h = of_nat (hp_ms h) / 1000"

section \<open>Primitive steps\<close>

definition next_hp :: "conn \<Rightarrow> happening \<times> conn" where
  "next_hp c = (cn_tape c (cn_pos c), c\<lparr>cn_pos := cn_pos c + 1\<rparr>)"

text \<open>\<open>_drop\<close>: the references go first, then the writer is closed unless it is closing.\<close>

definition drop_link :: "conn \<Rightarrow> conn" where
  "drop_link c =
     c\<lparr>cn_link := No_link, cn_buf := [], cn_eof := False,
       cn_log := cn_log c @ (if cn_link c = Link_open then [Closed] else [])\<rparr>"

definition connected :: "conn \<Rightarrow> bool" where
  "connected c \<longleftrightarrow> cn_link c = Link_open"

text \<open>What an await changes: bytes go to the buffer of the reader, an error of the
  socket closes the transport, another task may drop the link.\<close>

definition absorb :: "time \<Rightarrow> happening \<Rightarrow> conn \<Rightarrow> conn" where
  "absorb dt h c =
     (let c = c\<lparr>cn_now := cn_now c + dt\<rparr>;
          c = (if cn_link c = Link_open
               then c\<lparr>cn_buf := cn_buf c @ hp_bytes h,
                      cn_link := (if hp_ending h = Broken then Link_closing else Link_open),
                      cn_eof := (cn_eof c \<or> hp_ending h = Ended)\<rparr>
               else c)
      in if hp_closed h then drop_link c else c)"

definition send :: "string \<Rightarrow> conn \<Rightarrow> conn" where
  "send frame c =
     c\<lparr>cn_last_at := cn_now c, cn_log := cn_log c @ [Sent (cn_now c) frame]\<rparr>"

text \<open>\<open>await writer.drain()\<close>.\<close>

definition drain :: "conn \<Rightarrow> unit res \<times> conn" where
  "drain c =
     (let (h, c) = next_hp c;
          c = absorb (hp_dt h) h c
      in (if cn_link c = Link_closing then Inl OSError else Inr (), c))"

text \<open>\<open>await wait_for(reader.readexactly(n), timeout)\<close>. A reader that already failed
  raises at once; bytes that are already there are returned at once; a timeout
  leaves what arrived in the buffer.\<close>

definition readexactly :: "time \<Rightarrow> int \<Rightarrow> conn \<Rightarrow> string res \<times> conn" where
  "readexactly timeout n c =
     (let k = nat n in
      if n < 0 then (Inl ValueError, c)
      else if cn_link c = Link_closing then (Inl OSError, c)
      else if n = 0 then (Inr [], c)
      else if k \<le> length (cn_buf c)
        then (Inr (take k (cn_buf c)), c\<lparr>cn_buf := drop k (cn_buf c)\<rparr>)
      else if cn_eof c then (Inl IncompleteReadError, c\<lparr>cn_buf := []\<rparr>)
      else
        let (h, c) = next_hp c;
            got = cn_buf c @ hp_bytes h;
            complete = (k \<le> length got \<and> hp_dt h < timeout);
            ended = (hp_ending h \<noteq> Quiet \<or> hp_closed h);
            dt = (if complete \<or> ended then min (hp_dt h) timeout else timeout);
            c' = absorb dt h c
        in if complete then (Inr (take k got), c'\<lparr>cn_buf := drop k (cn_buf c')\<rparr>)
           else if hp_dt h < timeout \<and> hp_ending h = Broken then (Inl OSError, c')
           else if hp_dt h < timeout \<and> ended
             then (Inl IncompleteReadError, c'\<lparr>cn_buf := []\<rparr>)
           else (Inl TimeoutError, c'))"

section \<open>One exchange\<close>

definition expected_response_len :: "string \<Rightarrow> int res" where
  "expected_response_len request =
     bind_res (if request = [] then Inl IndexError else Inr [hd request]) (\<lambda>command.
     bind_res (py_int 16 (take 4 (drop 5 request))) (\<lambda>len.
       if command = READ then Inr (9 + len * 2 + 2)
       else Inr (9 + int (length ACK) + 2)))"

definition pace :: "conn \<Rightarrow> conn" where
  "pace c =
     (if cn_gap c \<le> 0 then c
      else
        let elapsed = cn_now c - cn_last_at c
        in if elapsed < cn_gap c
           then (let (h, c) = next_hp c in absorb (cn_gap c - elapsed + hp_dt h) h c)
           else c)"

text \<open>The loop of \<open>_exchange\<close>, with the number of tries left. After an await another
  task may have dropped the link, and the attribute is \<open>None\<close>.\<close>

fun tries :: "(string \<Rightarrow> frame res) \<Rightarrow> (conn \<Rightarrow> unit res \<times> conn) \<Rightarrow> int \<Rightarrow> nat \<Rightarrow> string \<Rightarrow> conn
    \<Rightarrow> frame res \<times> conn" where
  "tries parse prep want 0 frame c = (Inl R60VConnectionError, c)"
| "tries parse prep want (Suc n) frame c =
     (case prep c of
        (Inl e, c) \<Rightarrow> (Inl e, c)
      | (Inr _, c) \<Rightarrow>
          let c = pace c in
          if cn_link c = No_link then (Inl AttributeError, c\<lparr>cn_last_at := cn_now c\<rparr>)
          else if \<not> ascii frame then (Inl ValueError, c\<lparr>cn_last_at := cn_now c\<rparr>)
          else
            (case drain (send frame c) of
               (Inl e, c) \<Rightarrow> (Inl e, c)
             | (Inr _, c) \<Rightarrow>
                 if cn_link c = No_link then (Inl AttributeError, c)
                 else
                   (case readexactly (cn_request_timeout c) want c of
                      (Inr raw, c) \<Rightarrow> (parse (decode_ascii raw), c)
                    | (Inl e, c) \<Rightarrow>
                        if e = IncompleteReadError then (Inl R60VConnectionError, c)
                        else if e = TimeoutError then
                          (if n \<noteq> 0 then tries parse prep want n frame c
                           else (Inl R60VConnectionError, c))
                        else (Inl e, c))))"

definition exchange_with :: "(string \<Rightarrow> frame res) \<Rightarrow> (conn \<Rightarrow> unit res \<times> conn) \<Rightarrow> string \<Rightarrow> conn
    \<Rightarrow> frame res \<times> conn" where
  "exchange_with parse prep frame c =
     (if cn_link c = No_link then (Inl AssertionError, c)
      else
        (case expected_response_len frame of
           Inl e \<Rightarrow> (Inl e, c)
         | Inr want \<Rightarrow> tries parse prep want (nat (cn_max_retries c + 1)) frame c))"

definition no_prep :: "conn \<Rightarrow> unit res \<times> conn" where
  "no_prep c = (Inr (), c)"

definition exchange :: "string \<Rightarrow> conn \<Rightarrow> frame res \<times> conn" where
  "exchange = exchange_with (parse_frame True) no_prep"

section \<open>Connecting\<close>

definition read_greeting :: "conn \<Rightarrow> unit res \<times> conn" where
  "read_greeting c =
     (if cn_link c = No_link then (Inl AssertionError, c)
      else
        (case readexactly (cn_request_timeout c) (int (length HELLO)) c of
           (Inl e, c) \<Rightarrow>
             (Inl (if e \<in> {TimeoutError, IncompleteReadError} then R60VConnectionError else e), c)
         | (Inr _, c) \<Rightarrow> (Inr (), c)))"

definition warm_up_with :: "(string \<Rightarrow> conn \<Rightarrow> frame res \<times> conn) \<Rightarrow> conn \<Rightarrow> unit res \<times> conn" where
  "warm_up_with exch c =
     (case build_read SETTINGS_BASE SETTINGS_LEN of
        Inl e \<Rightarrow> (Inl e, c)
      | Inr frame \<Rightarrow>
          (case exch frame c of
             (Inl e, c) \<Rightarrow> (if e \<in> {R60VConnectionError, ProtocolError} then Inr () else Inl e, c)
           | (Inr _, c) \<Rightarrow> (Inr (), c)))"

text \<open>\<open>open_connection\<close> under a timeout: an error ends it early, and a happening that
  takes the whole timeout is a \<open>TimeoutError\<close>. Until the attributes are assigned
  there is no link for another task to close.\<close>

definition open_link :: "conn \<Rightarrow> unit res \<times> conn" where
  "open_link c =
     (let (h, c) = next_hp c;
          c = c\<lparr>cn_now := cn_now c + min (hp_dt h) (cn_connect_timeout c)\<rparr>
      in if cn_connect_timeout c \<le> hp_dt h then (Inl TimeoutError, c)
         else if hp_ending h = Broken then (Inl OSError, c)
         else (Inr (), c\<lparr>cn_link := Link_open, cn_buf := hp_bytes h,
                         cn_eof := (hp_ending h = Ended), cn_log := cn_log c @ [Connected]\<rparr>))"

definition connect_with :: "(string \<Rightarrow> conn \<Rightarrow> frame res \<times> conn) \<Rightarrow> conn \<Rightarrow> unit res \<times> conn" where
  "connect_with exch c =
     (case open_link (drop_link c) of
        (Inl e, c) \<Rightarrow> (Inl e, c)
      | (Inr _, c) \<Rightarrow>
          (case read_greeting c of
             (Inl e, c) \<Rightarrow> (Inl e, c)
           | (Inr _, c) \<Rightarrow> if cn_warmup c then warm_up_with exch c else (Inr (), c)))"

definition connect :: "conn \<Rightarrow> unit res \<times> conn" where
  "connect = connect_with exchange"

definition link_errors :: "exn set" where
  "link_errors = {OSError, TimeoutError, R60VConnectionError, ProtocolError}"

definition sleep :: "time \<Rightarrow> conn \<Rightarrow> conn" where
  "sleep dt c = (let (h, c) = next_hp c in absorb (dt + hp_dt h) h c)"

partial_function (option) connect_loop :: "time \<Rightarrow> conn \<Rightarrow> (unit res \<times> conn) option" where
  "connect_loop backoff c =
     (case connect c of
        (Inr _, c) \<Rightarrow> Some (Inr (), c)
      | (Inl e, c) \<Rightarrow>
          if e \<in> link_errors
          then connect_loop (min (backoff * 2) (cn_backoff_max c)) (sleep backoff c)
          else Some (Inl e, c))"

declare connect_loop.simps [code]

definition ensure_connected :: "conn \<Rightarrow> (unit res \<times> conn) option" where
  "ensure_connected c =
     (if connected c then Some (Inr (), c) else connect_loop (cn_backoff_initial c) c)"

section \<open>Requests\<close>

definition request_errors :: "exn set" where
  "request_errors =
     {OSError, TimeoutError, IncompleteReadError, R60VConnectionError, ProtocolError}"

text \<open>The loop of \<open>request\<close>, with the number of attempts left.\<close>

fun attempts :: "nat \<Rightarrow> string \<Rightarrow> conn \<Rightarrow> (frame res \<times> conn) option" where
  "attempts 0 frame c = Some (Inl R60VConnectionError, c)"
| "attempts (Suc n) frame c =
     (case ensure_connected c of
        None \<Rightarrow> None
      | Some (Inl e, c) \<Rightarrow> Some (Inl e, c)
      | Some (Inr _, c) \<Rightarrow>
          (case exchange frame c of
             (Inr f, c) \<Rightarrow> Some (Inr f, c)
           | (Inl e, c) \<Rightarrow>
               if e \<in> request_errors then attempts n frame (drop_link c)
               else Some (Inl e, c)))"

definition request :: "string \<Rightarrow> conn \<Rightarrow> (frame res \<times> conn) option" where
  "request frame c = attempts 2 frame c"

definition client_read :: "int \<Rightarrow> int \<Rightarrow> conn \<Rightarrow> (int list res \<times> conn) option" where
  "client_read address len c =
     (case build_read address len of
        Inl e \<Rightarrow> Some (Inl e, c)
      | Inr frame \<Rightarrow> map_option (\<lambda>(r, c). (map_sum id fr_data r, c)) (request frame c))"

definition client_write :: "int \<Rightarrow> int list \<Rightarrow> conn \<Rightarrow> (frame res \<times> conn) option" where
  "client_write address data c =
     (case build_write address data of
        Inl e \<Rightarrow> Some (Inl e, c)
      | Inr frame \<Rightarrow> request frame c)"

definition client_close :: "conn \<Rightarrow> conn" where
  "client_close c = drop_link c"

text \<open>What happens while the client is idle: late bytes, or the peer going away.\<close>

definition idle :: "conn \<Rightarrow> conn" where
  "idle c = (let (h, c) = next_hp c in absorb (hp_dt h) h c)"

definition new_conn :: "(nat \<Rightarrow> happening) \<Rightarrow> time \<Rightarrow> time \<Rightarrow> time \<Rightarrow> conn" where
  "new_conn tape now gap timeout =
     \<lparr>cn_connect_timeout = 8, cn_request_timeout = timeout, cn_backoff_initial = 1,
      cn_backoff_max = 30, cn_warmup = True, cn_gap = gap, cn_max_retries = 3,
      cn_link = No_link, cn_buf = [], cn_eof = False, cn_last_at = 0, cn_now = now,
      cn_tape = tape, cn_pos = 0, cn_log = []\<rparr>"

section \<open>Invariants of the connection\<close>

text \<open>A predicate kept by the primitive steps is kept by every operation of the
  client. A request is sent, or the time of the last request set, only once the
  gap has passed.\<close>

definition gap_passed :: "conn \<Rightarrow> bool" where
  "gap_passed c \<longleftrightarrow> cn_gap c \<le> 0 \<or> cn_gap c \<le> cn_now c - cn_last_at c"

lemma hp_dt_nonneg [simp]: "0 \<le> hp_dt h"
  by (simp add: hp_dt_def)

lemma drop_link_frame [simp, frame_simps]:
  "cn_now (drop_link c) = cn_now c" "cn_last_at (drop_link c) = cn_last_at c"
  "cn_gap (drop_link c) = cn_gap c" "cn_link (drop_link c) = No_link" "cn_buf (drop_link c) = []"
  "cn_pos (drop_link c) = cn_pos c" "cn_tape (drop_link c) = cn_tape c"
  "cn_connect_timeout (drop_link c) = cn_connect_timeout c"
  "cn_request_timeout (drop_link c) = cn_request_timeout c"
  "cn_max_retries (drop_link c) = cn_max_retries c" "cn_warmup (drop_link c) = cn_warmup c"
  "cn_backoff_initial (drop_link c) = cn_backoff_initial c"
  "cn_backoff_max (drop_link c) = cn_backoff_max c"
  by (simp_all add: drop_link_def)

lemma absorb_frame [simp, frame_simps]:
  "cn_now (absorb dt h c) = cn_now c + dt" "cn_last_at (absorb dt h c) = cn_last_at c"
  "cn_gap (absorb dt h c) = cn_gap c" "cn_pos (absorb dt h c) = cn_pos c"
  "cn_tape (absorb dt h c) = cn_tape c"
  "cn_connect_timeout (absorb dt h c) = cn_connect_timeout c"
  "cn_request_timeout (absorb dt h c) = cn_request_timeout c"
  "cn_max_retries (absorb dt h c) = cn_max_retries c" "cn_warmup (absorb dt h c) = cn_warmup c"
  "cn_backoff_initial (absorb dt h c) = cn_backoff_initial c"
  "cn_backoff_max (absorb dt h c) = cn_backoff_max c"
  by (auto simp: absorb_def Let_def)

lemma send_frame [simp, frame_simps]:
  "cn_now (send f c) = cn_now c" "cn_last_at (send f c) = cn_now c" "cn_gap (send f c) = cn_gap c"
  "cn_link (send f c) = cn_link c" "cn_buf (send f c) = cn_buf c" "cn_eof (send f c) = cn_eof c"
  "cn_pos (send f c) = cn_pos c" "cn_tape (send f c) = cn_tape c"
  "cn_request_timeout (send f c) = cn_request_timeout c"
  "cn_max_retries (send f c) = cn_max_retries c"
  "cn_log (send f c) = cn_log c @ [Sent (cn_now c) f]"
  by (simp_all add: send_def)

lemma gap_passed_pace: "gap_passed (pace c)"
  by (auto simp: gap_passed_def pace_def next_hp_def Let_def)

locale conn_invariant =
  fixes I :: "conn \<Rightarrow> bool"
  assumes I_timeouts: "I c \<Longrightarrow> 0 \<le> cn_connect_timeout c \<and> 0 \<le> cn_request_timeout c
        \<and> 0 \<le> cn_backoff_initial c \<and> 0 \<le> cn_backoff_max c"
    and I_pos: "I c \<Longrightarrow> I (c\<lparr>cn_pos := p\<rparr>)"
    and I_buf: "I c \<Longrightarrow> I (c\<lparr>cn_buf := b\<rparr>)"
    and I_drop: "I c \<Longrightarrow> I (drop_link c)"
    and I_absorb: "I c \<Longrightarrow> 0 \<le> dt \<Longrightarrow> I (absorb dt h c)"
    and I_wait: "I c \<Longrightarrow> 0 \<le> dt \<Longrightarrow> I (c\<lparr>cn_now := cn_now c + dt\<rparr>)"
    and I_open: "I c \<Longrightarrow> I (c\<lparr>cn_link := Link_open, cn_buf := b, cn_eof := e,
        cn_log := cn_log c @ [Connected]\<rparr>)"
    and I_send: "I c \<Longrightarrow> gap_passed c \<Longrightarrow> I (send frame c)"
    and I_last: "I c \<Longrightarrow> gap_passed c \<Longrightarrow> I (c\<lparr>cn_last_at := cn_now c\<rparr>)"
begin

lemma drain_inv: "I c \<Longrightarrow> I (snd (drain c))"
  by (simp add: drain_def next_hp_def I_absorb I_pos Let_def)

lemma readexactly_inv: "I c \<Longrightarrow> 0 \<le> t \<Longrightarrow> I (snd (readexactly t n c))"
  by (simp add: readexactly_def next_hp_def I_absorb I_pos I_buf Let_def)

lemma pace_inv: "I c \<Longrightarrow> I (pace c)"
  by (simp add: pace_def next_hp_def I_absorb I_pos Let_def)

lemma sleep_inv: "I c \<Longrightarrow> 0 \<le> dt \<Longrightarrow> I (sleep dt c)"
  by (simp add: sleep_def next_hp_def I_absorb I_pos Let_def)

lemma tries_inv:
  assumes prep: "\<And>c. I c \<Longrightarrow> I (snd (prep c))"
  shows "I c \<Longrightarrow> I (snd (tries parse prep want n frame c))"
proof (induction n arbitrary: c)
  case (Suc n)
  have p: "I (pace (snd (prep c)))" using prep [OF Suc.prems] by (rule pace_inv)
  show ?case
    using p prep [OF Suc.prems] I_send [OF p gap_passed_pace] I_last [OF p gap_passed_pace]
      drain_inv [OF I_send [OF p gap_passed_pace], of frame] I_timeouts
      readexactly_inv [of "snd (drain (send frame (pace (snd (prep c)))))"
        "cn_request_timeout (snd (drain (send frame (pace (snd (prep c))))))" want]
      Suc.IH
    by (auto split: prod.splits sum.splits simp: Let_def)
qed simp

lemma exchange_with_inv:
  "(\<And>c. I c \<Longrightarrow> I (snd (prep c))) \<Longrightarrow> I c \<Longrightarrow> I (snd (exchange_with parse prep frame c))"
  by (auto simp: exchange_with_def tries_inv split: sum.split)

lemma open_link_inv: "I c \<Longrightarrow> I (snd (open_link c))"
proof -
  assume "I c"
  define c1 where "c1 = c\<lparr>cn_pos := cn_pos c + 1\<rparr>"
  define c2 where "c2 = c1\<lparr>cn_now := cn_now c1 + min (hp_dt (cn_tape c (cn_pos c))) (cn_connect_timeout c)\<rparr>"
  have "I c1" unfolding c1_def using \<open>I c\<close> by (rule I_pos)
  then have c2: "I c2"
    unfolding c2_def using I_timeouts [OF \<open>I c\<close>] by (intro I_wait) auto
  show ?thesis
    using c2 I_open [OF c2]
    by (cases "cn_connect_timeout c \<le> hp_dt (cn_tape c (cn_pos c))")
      (simp_all add: open_link_def next_hp_def c1_def c2_def Let_def)
qed

lemma read_greeting_inv: "I c \<Longrightarrow> I (snd (read_greeting c))"
proof -
  assume c: "I c"
  obtain r c' where e: "readexactly (cn_request_timeout c) (int (length HELLO)) c = (r, c')"
    by (cases "readexactly (cn_request_timeout c) (int (length HELLO)) c")
  have "I c'" using readexactly_inv [OF c, of "cn_request_timeout c" "int (length HELLO)"]
      I_timeouts [OF c] by (simp add: e)
  with c show ?thesis by (auto simp: read_greeting_def e split: sum.split)
qed

lemma warm_up_with_inv:
  assumes "\<And>frame. I (snd (exch frame c))" "I c"
  shows "I (snd (warm_up_with exch c))"
proof -
  obtain frame where f: "build_read SETTINGS_BASE SETTINGS_LEN = Inr frame"
    by (auto simp: build_read_def build_frame_Inr)
  obtain r c' where e: "exch frame c = (r, c')" by (cases "exch frame c")
  have "I c'" using assms(1) [of frame] by (simp add: e)
  then show ?thesis by (auto simp: warm_up_with_def f e split: sum.split)
qed

lemma connect_with_inv:
  assumes exch: "\<And>c frame. I c \<Longrightarrow> I (snd (exch frame c))" and c: "I c"
  shows "I (snd (connect_with exch c))"
proof -
  obtain r1 c1 where e1: "open_link (drop_link c) = (r1, c1)" by (cases "open_link (drop_link c)")
  have c1: "I c1" using open_link_inv [OF I_drop [OF c]] by (simp add: e1)
  obtain r2 c2 where e2: "read_greeting c1 = (r2, c2)" by (cases "read_greeting c1")
  have c2: "I c2" using read_greeting_inv [OF c1] by (simp add: e2)
  have "I (snd (warm_up_with exch c2))" using exch [OF c2] c2 by (rule warm_up_with_inv)
  with c1 c2 show ?thesis by (auto simp: connect_with_def e1 e2 split: sum.split)
qed

lemma exchange_inv: "I c \<Longrightarrow> I (snd (exchange frame c))"
  unfolding exchange_def by (rule exchange_with_inv) (simp_all add: no_prep_def)

lemma connect_inv: "I c \<Longrightarrow> I (snd (connect c))"
  unfolding connect_def by (rule connect_with_inv [OF exchange_inv])

lemma connect_loop_inv:
  assumes "connect_loop b c = Some y" "0 \<le> b" "I c"
  shows "I (snd y)"
proof -
  have "0 \<le> b \<longrightarrow> I c \<longrightarrow> I (snd y)"
  proof (rule connect_loop.raw_induct [OF _ assms(1)])
    fix f b c y
    assume IH: "\<And>b c y. f b c = Some y \<Longrightarrow> 0 \<le> b \<longrightarrow> I c \<longrightarrow> I (snd y)"
      and y: "(case connect c of
        (Inl e, c) \<Rightarrow>
          if e \<in> link_errors then f (min (b * 2) (cn_backoff_max c)) (sleep b c)
          else Some (Inl e, c)
      | (Inr _, c) \<Rightarrow> Some (Inr (), c)) = Some y"
    show "0 \<le> b \<longrightarrow> I c \<longrightarrow> I (snd y)"
    proof (intro impI)
      assume b: "0 \<le> b" and c: "I c"
      obtain r c' where e: "connect c = (r, c')" by (cases "connect c")
      have c': "I c'" using connect_inv [OF c] by (simp add: e)
      then have s: "I (sleep b c')" "0 \<le> min (b * 2) (cn_backoff_max c')"
        using b I_timeouts [OF c'] by (simp_all add: sleep_inv)
      show "I (snd y)"
      proof (cases r)
        case (Inl x)
        then show ?thesis
          using y c' s IH [of "min (b * 2) (cn_backoff_max c')" "sleep b c'" y]
          by (cases "x \<in> link_errors") (auto simp: e)
      next
        case (Inr u)
        then show ?thesis using y c' by (auto simp: e)
      qed
    qed
  qed
  with assms(2,3) show ?thesis by simp
qed

lemma ensure_connected_inv: "ensure_connected c = Some y \<Longrightarrow> I c \<Longrightarrow> I (snd y)"
  using I_timeouts connect_loop_inv
  by (auto simp: ensure_connected_def split: if_splits)

lemma attempts_inv: "attempts n frame c = Some y \<Longrightarrow> I c \<Longrightarrow> I (snd y)"
proof (induction n arbitrary: c)
  case (Suc n)
  obtain r c1 where e: "ensure_connected c = Some (r, c1)"
    using Suc.prems(1) by (cases "ensure_connected c") auto
  have c1: "I c1" using ensure_connected_inv [OF e Suc.prems(2)] by simp
  obtain r2 c2 where x: "exchange frame c1 = (r2, c2)" by (cases "exchange frame c1")
  have c2: "I c2" using exchange_inv [OF c1, of frame] by (simp add: x)
  note y = Suc.prems(1) [unfolded attempts.simps e, simplified]
  show ?case
  proof (cases r)
    case (Inl x)
    then show ?thesis using y c1 by auto
  next
    case r: (Inr u)
    show ?thesis
    proof (cases r2)
      case (Inl x)
      then show ?thesis
        using y x r c2 Suc.IH [of "drop_link c2"] I_drop [OF c2]
        by (cases "x \<in> request_errors") auto
    next
      case (Inr f)
      then show ?thesis using y x r c2 by auto
    qed
  qed
qed auto

lemma request_inv: "request frame c = Some y \<Longrightarrow> I c \<Longrightarrow> I (snd y)"
  unfolding request_def by (rule attempts_inv)

end

section \<open>Pacing\<close>

definition send_times :: "action list \<Rightarrow> time list" where
  "send_times acts = concat (map (\<lambda>a. case a of Sent t _ \<Rightarrow> [t] | _ \<Rightarrow> []) acts)"

definition paced :: "conn \<Rightarrow> bool" where
  "paced c \<longleftrightarrow>
     0 \<le> cn_connect_timeout c \<and> 0 \<le> cn_request_timeout c \<and> 0 \<le> cn_backoff_initial c
     \<and> 0 \<le> cn_backoff_max c \<and> cn_last_at c \<le> cn_now c
     \<and> successively (\<lambda>t u. t + cn_gap c \<le> u) (send_times (cn_log c))
     \<and> (send_times (cn_log c) \<noteq> [] \<longrightarrow> last (send_times (cn_log c)) \<le> cn_last_at c)"

lemma send_times_simps [simp]:
  "send_times [] = []" "send_times (xs @ ys) = send_times xs @ send_times ys"
  "send_times [Closed] = []" "send_times [Connected] = []" "send_times [Sent t f] = [t]"
  by (simp_all add: send_times_def)

lemma send_times_drop [simp]: "send_times (cn_log (drop_link c)) = send_times (cn_log c)"
  by (simp add: drop_link_def)

lemma send_times_absorb [simp]: "send_times (cn_log (absorb dt h c)) = send_times (cn_log c)"
  by (auto simp: absorb_def Let_def)

interpretation pacing: conn_invariant paced
proof
  fix c frame
  assume c: "paced c" and g: "gap_passed c"
  have "last (send_times (cn_log c)) + cn_gap c \<le> cn_now c" if "send_times (cn_log c) \<noteq> []"
    using c g that by (auto simp: paced_def gap_passed_def)
  then show "paced (send frame c)"
    using c by (auto simp: paced_def successively_append_iff) (auto simp: send_def)
qed (auto simp: paced_def drop_link_def)

text \<open>Histories of the client: requests, closes, and what happens in between.\<close>

datatype client_op = Request string | Close | Idle

fun client_step :: "client_op \<Rightarrow> conn \<Rightarrow> conn option" where
  "client_step (Request frame) c = map_option snd (request frame c)"
| "client_step Close c = Some (client_close c)"
| "client_step Idle c = Some (idle c)"

fun client_run :: "client_op list \<Rightarrow> conn \<Rightarrow> conn option" where
  "client_run [] c = Some c"
| "client_run (op # ops) c = Option.bind (client_step op c) (client_run ops)"

lemma client_run_paced: "client_run ops c = Some c' \<Longrightarrow> paced c \<Longrightarrow> paced c'"
proof (induction ops arbitrary: c)
  case (Cons op ops)
  obtain c1 where c1: "client_step op c = Some c1" "client_run ops c1 = Some c'"
    using Cons.prems(1) by (cases "client_step op c") auto
  have "paced c1"
    using c1(1) Cons.prems(2) pacing.request_inv pacing.I_drop pacing.sleep_inv [of c 0]
    by (cases op) (auto simp: client_close_def idle_def sleep_def)
  then show ?case using Cons.IH c1(2) by blast
qed simp

section \<open>Retries stay on the socket\<close>

text \<open>What an exchange adds to the log: at most \<open>k\<close> copies of the frame, and the link
  closing; no connection is opened.\<close>

definition only_sends :: "nat \<Rightarrow> string \<Rightarrow> conn \<Rightarrow> conn \<Rightarrow> bool" where
  "only_sends k frame c c' \<longleftrightarrow>
     (\<exists>new. cn_log c' = cn_log c @ new
        \<and> (\<forall>a \<in> set new. a = Closed \<or> (\<exists>t. a = Sent t frame))
        \<and> length (send_times new) \<le> k)"

lemma only_sends_refl [simp]: "cn_log c' = cn_log c \<Longrightarrow> only_sends k frame c c'"
  by (auto simp: only_sends_def intro: exI [of _ "[]"])

lemma only_sends_trans:
  assumes "only_sends j frame c c1" "only_sends k frame c1 c2"
  shows "only_sends (j + k) frame c c2"
proof -
  from assms obtain n1 n2 where
    "cn_log c1 = cn_log c @ n1" "\<forall>a \<in> set n1. a = Closed \<or> (\<exists>t. a = Sent t frame)"
    "length (send_times n1) \<le> j" "cn_log c2 = cn_log c1 @ n2"
    "\<forall>a \<in> set n2. a = Closed \<or> (\<exists>t. a = Sent t frame)" "length (send_times n2) \<le> k"
    by (auto simp: only_sends_def)
  then show ?thesis unfolding only_sends_def by (intro exI [of _ "n1 @ n2"]) auto
qed

lemma only_sends_closing: "cn_log c' = cn_log c @ (if b then [Closed] else []) \<Longrightarrow> only_sends 0 frame c c'"
  by (auto simp: only_sends_def)

lemma only_sends_drop: "only_sends 0 frame c (drop_link c)"
  by (rule only_sends_closing) (simp add: drop_link_def)

lemma only_sends_absorb: "only_sends 0 frame c (absorb dt h c)"
  by (rule only_sends_closing [of _ _ "hp_closed h \<and> cn_link c = Link_open \<and> hp_ending h \<noteq> Broken"])
    (auto simp: absorb_def drop_link_def Let_def)

lemma only_sends_pos: "only_sends k frame (c\<lparr>cn_pos := p\<rparr>) c' \<longleftrightarrow> only_sends k frame c c'"
  by (simp add: only_sends_def)

lemma only_sends_buf: "only_sends k frame c (c'\<lparr>cn_buf := b\<rparr>) \<longleftrightarrow> only_sends k frame c c'"
  by (simp add: only_sends_def)

lemma only_sends_drain: "only_sends 0 frame c (snd (drain c))"
  using only_sends_absorb [of frame "c\<lparr>cn_pos := cn_pos c + 1\<rparr>"]
  by (simp add: drain_def next_hp_def only_sends_pos Let_def)

lemma only_sends_readexactly: "only_sends 0 frame c (snd (readexactly t n c))"
  using only_sends_absorb [of frame "c\<lparr>cn_pos := cn_pos c + 1\<rparr>"]
  by (simp add: readexactly_def next_hp_def only_sends_pos only_sends_buf Let_def)

lemma only_sends_pace: "only_sends 0 frame c (pace c)"
  using only_sends_absorb [of frame "c\<lparr>cn_pos := cn_pos c + 1\<rparr>"]
  by (simp add: pace_def next_hp_def only_sends_pos Let_def)

lemma only_sends_send: "only_sends 1 frame c (send frame c)"
  by (auto simp: only_sends_def)

lemma only_sends_tries:
  assumes prep: "\<And>c. only_sends 0 frame c (snd (prep c))"
  shows "only_sends n frame c (snd (tries parse prep want n frame c))"
proof (induction n arbitrary: c)
  case (Suc n)
  obtain r0 c0 where p: "prep c = (r0, c0)" by (cases "prep c")
  have 0: "only_sends 0 frame c c0" using prep [of c] by (simp add: p)
  have 1: "only_sends 0 frame c (pace c0)"
    using only_sends_trans [OF 0 only_sends_pace [of frame c0]] by simp
  have 2: "only_sends 1 frame c (send frame (pace c0))"
    using only_sends_trans [OF 1 only_sends_send] by simp
  obtain r3 c3 where d: "drain (send frame (pace c0)) = (r3, c3)"
    by (cases "drain (send frame (pace c0))")
  have 3: "only_sends 1 frame c c3"
    using only_sends_trans [OF 2 only_sends_drain] by (simp add: d)
  obtain r4 c4 where r: "readexactly (cn_request_timeout c3) want c3 = (r4, c4)"
    by (cases "readexactly (cn_request_timeout c3) want c3")
  have 4: "only_sends 1 frame c c4"
    using only_sends_trans [OF 3 only_sends_readexactly [of frame c3 "cn_request_timeout c3" want]]
    by (simp add: r)
  have 5: "only_sends (Suc n) frame c (snd (tries parse prep want n frame c4))"
    using only_sends_trans [OF 4 Suc.IH] by simp
  have mono: "only_sends j frame c x \<Longrightarrow> j \<le> Suc n \<Longrightarrow> only_sends (Suc n) frame c x" for j x
    by (auto simp: only_sends_def)
  have l: "only_sends 0 frame c ((pace c0)\<lparr>cn_last_at := t\<rparr>)" for t
    using 1 by (simp add: only_sends_def)
  show ?case
    using mono [OF 0] mono [OF l] mono [OF 3] mono [OF 4] 5 n_not_Suc_n
    by (auto simp: p d r Let_def split: sum.splits)
qed simp

section \<open>Errors, when no other task closes the link\<close>

definition alone :: "conn \<Rightarrow> bool" where
  "alone c \<longleftrightarrow> (\<forall>p. \<not> hp_closed (cn_tape c p))"

text \<open>A frame the builders make: its reply length is computed and not negative.\<close>

definition sendable :: "string \<Rightarrow> bool" where
  "sendable frame \<longleftrightarrow> ascii frame \<and> (\<exists>want. 0 \<le> want \<and> expected_response_len frame = Inr want)"

lemma absorb_link:
  "\<not> hp_closed h \<Longrightarrow> cn_link c \<noteq> No_link \<Longrightarrow> cn_link (absorb dt h c) \<noteq> No_link"
  by (auto simp: absorb_def Let_def)

lemma alone_absorb [simp]: "alone (absorb dt h c) \<longleftrightarrow> alone c"
  by (simp add: alone_def)

lemma alone_pos [simp]: "alone (c\<lparr>cn_pos := p\<rparr>) \<longleftrightarrow> alone c"
  by (simp add: alone_def)

definition up :: "conn \<Rightarrow> bool" where
  "up c \<longleftrightarrow> alone c \<and> cn_link c \<noteq> No_link"

lemma up_absorb: "up c \<Longrightarrow> up (absorb dt (cn_tape c p) (c\<lparr>cn_pos := q\<rparr>))"
  using absorb_link [of "cn_tape c p" "c\<lparr>cn_pos := q\<rparr>" dt] by (simp add: up_def alone_def)

lemma up_drain:
  assumes "drain c = (r, c')" "up c"
  shows "up c' \<and> (\<forall>e. r = Inl e \<longrightarrow> e = OSError)"
proof -
  have c': "c' = absorb (hp_dt (cn_tape c (cn_pos c))) (cn_tape c (cn_pos c)) (c\<lparr>cn_pos := cn_pos c + 1\<rparr>)"
    and r: "r = (if cn_link c' = Link_closing then Inl OSError else Inr ())"
    using assms(1) by (auto simp: drain_def next_hp_def Let_def)
  have "up c'" unfolding c' by (rule up_absorb [OF assms(2)])
  with r show ?thesis by auto
qed

lemma up_pace: "up c \<Longrightarrow> up (pace c)"
  by (simp add: pace_def next_hp_def up_absorb Let_def)

lemma up_send: "up c \<Longrightarrow> up (send f c)"
  by (simp add: up_def alone_def)

lemma up_readexactly:
  assumes "readexactly t n c = (r, c')" "up c" "0 \<le> n"
  shows "up c' \<and> (\<forall>e. r = Inl e \<longrightarrow> e \<in> {OSError, TimeoutError, IncompleteReadError})"
  using assms up_absorb [OF assms(2)]
  by (auto simp: readexactly_def next_hp_def up_def alone_def Let_def split: if_splits)

lemma up_tries:
  assumes E: "OSError \<in> E" "R60VConnectionError \<in> E"
    and prep: "\<And>c r c'. prep c = (r, c') \<Longrightarrow> up c \<Longrightarrow> up c' \<and> (\<forall>e. r = Inl e \<longrightarrow> e \<in> E)"
    and parse: "\<And>raw e. parse raw = Inl e \<Longrightarrow> e \<in> E"
    and w: "0 \<le> want" and a: "ascii frame"
  shows "tries parse prep want n frame c = (r, c') \<Longrightarrow> up c \<Longrightarrow>
     up c' \<and> (\<forall>e. r = Inl e \<longrightarrow> e \<in> E)"
proof (induction n arbitrary: c)
  case 0
  then show ?case using E by auto
next
  case (Suc n)
  obtain r0 c0 where p: "prep c = (r0, c0)" by (cases "prep c")
  have 0: "up c0" "\<And>e. r0 = Inl e \<Longrightarrow> e \<in> E" using prep [OF p Suc.prems(2)] by auto
  have 1: "up (pace c0)" "up (send frame (pace c0))" using 0 by (simp_all add: up_pace up_send)
  obtain r3 c3 where d: "drain (send frame (pace c0)) = (r3, c3)"
    by (cases "drain (send frame (pace c0))")
  have 3: "up c3" "\<And>e. r3 = Inl e \<Longrightarrow> e = OSError" using up_drain [OF d 1(2)] by auto
  obtain r4 c4 where r: "readexactly (cn_request_timeout c3) want c3 = (r4, c4)"
    by (cases "readexactly (cn_request_timeout c3) want c3")
  have 4: "up c4" "\<And>e. r4 = Inl e \<Longrightarrow> e \<in> {OSError, TimeoutError, IncompleteReadError}"
    using up_readexactly [OF r 3(1) w] by auto
  have l: "cn_link (pace c0) \<noteq> No_link" "cn_link c3 \<noteq> No_link" using 1 3 by (simp_all add: up_def)
  show ?case
  proof (cases r0)
    case (Inl x)
    then show ?thesis using Suc.prems(1) 0 p by auto
  next
    case r0: (Inr u)
    show ?thesis
    proof (cases r3)
      case (Inl x)
      then show ?thesis using Suc.prems(1) r0 p d l 3 E a by (auto simp: Let_def)
    next
      case r3: (Inr v)
      show ?thesis
      proof (cases r4)
        case (Inr raw)
        then show ?thesis
          using Suc.prems(1) r0 r3 p d r l 4 a parse by (auto simp: Let_def)
      next
        case (Inl x)
        then show ?thesis
          using Suc.prems(1) r0 r3 p d r l 4 E a Suc.IH [of c4]
          by (auto simp: Let_def split: if_splits)
      qed
    qed
  qed
qed

lemma up_exchange:
  assumes "exchange frame c = (r, c')" "up c" "sendable frame"
  shows "up c' \<and> (\<forall>e. r = Inl e \<longrightarrow> e \<in> {OSError, R60VConnectionError, ProtocolError})"
proof -
  obtain want where w: "0 \<le> want" "expected_response_len frame = Inr want" "ascii frame"
    using assms(3) by (auto simp: sendable_def)
  show ?thesis
  proof (rule up_tries [OF _ _ _ _ w(1,3) _ assms(2), of _ no_prep "parse_frame True"])
    show "tries (parse_frame True) no_prep want (nat (cn_max_retries c + 1)) frame c = (r, c')"
      using assms(1,2) w(2) by (simp add: exchange_def exchange_with_def up_def)
  qed (auto simp: no_prep_def dest: parse_frame_errors)
qed

lemma is_addr_settings: "is_addr SETTINGS_BASE" "is_addr SETTINGS_LEN"
  by (simp_all add: is_addr_def address_defs)

lemma expected_len_build_frame:
  assumes "command \<in> {READ, WRITE}" "is_addr a" "is_addr l"
    and "build_frame command a l data = Inr frame"
  shows "expected_response_len frame = Inr (if command = READ then 11 + 2 * l else 13)"
proof -
  obtain k where k: "command = [k]" using command_hd [OF assms(1)] by metis
  have f: "frame = [k] @ fmt_hex 4 a @ fmt_hex 4 l @ encode_data data
        @ checksum (command @ fmt_hex 4 a @ fmt_hex 4 l @ encode_data data)"
    using assms(1,4) by (simp add: build_frame_Inr k)
  have "take 4 (drop 5 frame) = fmt_hex 4 l" using assms(2,3) by (simp add: f)
  then show ?thesis
    using assms(1,3) by (auto simp: expected_response_len_def f k READ_def WRITE_def ACK_def py_int_addr)
qed

lemma sendable_build_frame:
  assumes "command \<in> {READ, WRITE}" "is_addr a" "is_addr l"
    and "build_frame command a l data = Inr frame"
  shows "sendable frame"
  using expected_len_build_frame [OF assms] ascii_build_frame [OF assms(1) _ _ assms(4)] assms(2,3)
  by (auto simp: sendable_def is_addr_def)

lemma alone_frame [simp]:
  "alone (drop_link c) \<longleftrightarrow> alone c" "alone (sleep dt c) \<longleftrightarrow> alone c"
  "alone (c\<lparr>cn_now := t\<rparr>) \<longleftrightarrow> alone c"
  by (simp_all add: alone_def sleep_def next_hp_def Let_def)

lemma alone_open_link:
  assumes "open_link c = (r, c')" "alone c"
  shows "alone c' \<and> (\<forall>e. r = Inl e \<longrightarrow> e \<in> {OSError, TimeoutError}) \<and> (r = Inr () \<longrightarrow> up c')"
  using assms by (auto simp: open_link_def next_hp_def alone_def up_def Let_def split: if_splits)

lemma up_read_greeting:
  assumes "read_greeting c = (r, c')" "up c"
  shows "up c' \<and> (\<forall>e. r = Inl e \<longrightarrow> e \<in> {OSError, R60VConnectionError})"
proof -
  obtain r2 c2 where g: "readexactly (cn_request_timeout c) (int (length HELLO)) c = (r2, c2)"
    by (cases "readexactly (cn_request_timeout c) (int (length HELLO)) c")
  have "up c2 \<and> (\<forall>e. r2 = Inl e \<longrightarrow> e \<in> {OSError, TimeoutError, IncompleteReadError})"
    by (rule up_readexactly [OF g assms(2)]) simp
  then show ?thesis
    using assms g by (auto simp: read_greeting_def up_def split: sum.splits if_splits)
qed

lemma up_warm_up:
  assumes "warm_up_with exchange c = (r, c')" "up c"
  shows "up c' \<and> (\<forall>e. r = Inl e \<longrightarrow> e = OSError)"
proof -
  obtain frame where f: "build_read SETTINGS_BASE SETTINGS_LEN = Inr frame"
    by (auto simp: build_read_def build_frame_Inr)
  then have s: "sendable frame"
    using sendable_build_frame [OF _ is_addr_settings] by (auto simp: build_read_def)
  obtain r3 c3 where x: "exchange frame c = (r3, c3)" by (cases "exchange frame c")
  show ?thesis
    using assms f x up_exchange [OF x assms(2) s]
    by (auto simp: warm_up_with_def split: sum.splits if_splits)
qed

lemma alone_connect:
  assumes "connect c = (r, c')" "alone c"
  shows "alone c' \<and> (\<forall>e. r = Inl e \<longrightarrow> e \<in> link_errors) \<and> (r = Inr () \<longrightarrow> up c')"
proof -
  obtain r1 c1 where o: "open_link (drop_link c) = (r1, c1)" by (cases "open_link (drop_link c)")
  have 1: "alone c1" "\<And>e. r1 = Inl e \<Longrightarrow> e \<in> link_errors" "r1 = Inr () \<Longrightarrow> up c1"
    using alone_open_link [OF o] assms(2) by (auto simp: link_errors_def)
  show ?thesis
  proof (cases r1)
    case (Inl e)
    then show ?thesis using assms(1) o 1 by (auto simp: connect_def connect_with_def)
  next
    case (Inr u)
    then have u1: "up c1" using 1(3) by simp
    obtain r2 c2 where g: "read_greeting c1 = (r2, c2)" by (cases "read_greeting c1")
    have 2: "up c2" "\<And>e. r2 = Inl e \<Longrightarrow> e \<in> link_errors"
      using up_read_greeting [OF g u1] by (auto simp: link_errors_def)
    obtain r3 c3 where x: "warm_up_with exchange c2 = (r3, c3)" by (cases "warm_up_with exchange c2")
    have 3: "up c3" "\<And>e. r3 = Inl e \<Longrightarrow> e \<in> link_errors"
      using up_warm_up [OF x 2(1)] by (auto simp: link_errors_def)
    show ?thesis
      using assms(1) o g x Inr 2 3
      by (auto simp: connect_def connect_with_def up_def split: sum.splits if_splits)
  qed
qed

lemma alone_connect_loop:
  assumes "connect_loop b c = Some (r, c')" "alone c"
  shows "r = Inr () \<and> up c'"
proof -
  have "alone c \<longrightarrow> fst (r, c') = Inr () \<and> up (snd (r, c'))"
  proof (rule connect_loop.raw_induct [OF _ assms(1)])
    fix f b c y
    assume IH: "\<And>b c y. f b c = Some y \<Longrightarrow> alone c \<longrightarrow> fst y = Inr () \<and> up (snd y)"
      and y: "(case connect c of
        (Inl e, c) \<Rightarrow>
          if e \<in> link_errors then f (min (b * 2) (cn_backoff_max c)) (sleep b c)
          else Some (Inl e, c)
      | (Inr _, c) \<Rightarrow> Some (Inr (), c)) = Some y"
    show "alone c \<longrightarrow> fst y = Inr () \<and> up (snd y)"
    proof
      assume c: "alone c"
      obtain r c' where e: "connect c = (r, c')" by (cases "connect c")
      note k = alone_connect [OF e c]
      show "fst y = Inr () \<and> up (snd y)"
      proof (cases r)
        case (Inl x)
        then have "x \<in> link_errors" "alone c'" using k by auto
        then show ?thesis
          using y e Inl IH [of "min (b * 2) (cn_backoff_max c')" "sleep b c'" y] by simp
      next
        case (Inr u)
        then show ?thesis using y e k by auto
      qed
    qed
  qed
  with assms(2) show ?thesis by simp
qed

lemma alone_ensure:
  assumes "ensure_connected c = Some (r, c')" "alone c"
  shows "r = Inr () \<and> up c'"
  using assms alone_connect_loop [of "cn_backoff_initial c" c r c']
  by (auto simp: ensure_connected_def connected_def up_def split: if_splits)

lemma alone_attempts:
  assumes "sendable frame"
  shows "attempts n frame c = Some (Inl e, c') \<Longrightarrow> alone c \<Longrightarrow> n \<noteq> 0 \<Longrightarrow>
     e = R60VConnectionError \<and> cn_link c' = No_link"
proof (induction n arbitrary: c)
  case (Suc n)
  obtain r1 c1 where e: "ensure_connected c = Some (r1, c1)"
    using Suc.prems(1) by (cases "ensure_connected c") auto
  have r1: "r1 = Inr ()" and u: "up c1" using alone_ensure [OF e Suc.prems(2)] by auto
  obtain r2 c2 where x: "exchange frame c1 = (r2, c2)" by (cases "exchange frame c1")
  have k: "up c2" "\<And>e. r2 = Inl e \<Longrightarrow> e \<in> request_errors"
    using up_exchange [OF x u assms] by (auto simp: request_errors_def)
  then obtain e2 where r2: "r2 = Inl e2" "e2 \<in> request_errors"
    using Suc.prems(1) by (cases r2) (auto simp: e r1 x)
  then have n: "attempts n frame (drop_link c2) = Some (Inl e, c')"
    using Suc.prems(1) by (simp add: e r1 x)
  show ?case
  proof (cases n)
    case 0
    then show ?thesis using n by auto
  next
    case (Suc m)
    then show ?thesis using Suc.IH [OF n] k(1) by (simp add: up_def)
  qed
qed simp

section \<open>A swallowed request is retried until answered\<close>

definition silent :: "happening \<Rightarrow> bool" where
  "silent h \<longleftrightarrow> hp_bytes h = [] \<and> hp_ending h = Quiet \<and> \<not> hp_closed h"

text \<open>An open link with nothing buffered, whose gap has passed.\<close>

definition ready :: "conn \<Rightarrow> bool" where
  "ready c \<longleftrightarrow> cn_link c = Link_open \<and> cn_buf c = [] \<and> \<not> cn_eof c \<and> gap_passed c"

lemma absorb_silent:
  "silent h \<Longrightarrow> absorb dt h c = c\<lparr>cn_now := cn_now c + dt\<rparr>"
  by (cases "cn_link c = Link_open") (simp_all add: absorb_def silent_def)

lemma drain_silent:
  "cn_link c = Link_open \<Longrightarrow> silent (cn_tape c (cn_pos c)) \<Longrightarrow>
     drain c = (Inr (), c\<lparr>cn_pos := cn_pos c + 1,
       cn_now := cn_now c + hp_dt (cn_tape c (cn_pos c))\<rparr>)"
  by (simp add: drain_def next_hp_def absorb_silent Let_def)

lemma readexactly_silent:
  assumes "cn_link c = Link_open" "cn_buf c = []" "\<not> cn_eof c" "0 < n"
    and "silent (cn_tape c (cn_pos c))"
  shows "readexactly t n c = (Inl TimeoutError, c\<lparr>cn_pos := cn_pos c + 1, cn_now := cn_now c + t\<rparr>)"
proof -
  obtain h where h: "cn_tape c (cn_pos c) = h" by blast
  then have s: "silent h" "hp_bytes h = []" "hp_ending h = Quiet" "\<not> hp_closed h"
    using assms(5) by (simp_all add: silent_def)
  have "\<not> nat n \<le> 0" using assms(4) by simp
  then show ?thesis
    unfolding readexactly_def next_hp_def h Let_def
    using assms(1-4) s(2-4) by (simp add: absorb_silent [OF s(1)])
qed

lemma pace_ready: "gap_passed c \<Longrightarrow> pace c = c"
  by (auto simp: pace_def gap_passed_def Let_def)

lemma readexactly_answer:
  assumes "cn_link c = Link_open" "cn_buf c = []" "\<not> cn_eof c" "raw \<noteq> []"
    and "cn_tape c (cn_pos c) = \<lparr>hp_ms = m, hp_bytes = raw, hp_ending = Quiet, hp_closed = False\<rparr>"
    and "of_nat m / 1000 < t"
  shows "\<exists>c'. readexactly t (int (length raw)) c = (Inr raw, c') \<and> cn_link c' = Link_open
     \<and> cn_buf c' = [] \<and> \<not> cn_eof c'"
  using assms by (simp add: readexactly_def next_hp_def absorb_def hp_dt_def Let_def)

lemma tries_answered:
  assumes frame: "ascii frame" and want: "want = int (length raw)" "raw \<noteq> []" "ascii raw"
    and parse: "parse raw = Inr f"
    and ans: "hp_bytes h = raw" "hp_ending h = Quiet" "\<not> hp_closed h"
  shows "k < n \<Longrightarrow> ready c \<Longrightarrow> 0 < cn_request_timeout c \<Longrightarrow> cn_gap c \<le> cn_request_timeout c \<Longrightarrow>
     hp_dt h < cn_request_timeout c \<Longrightarrow>
     \<forall>i < 2 * k + 1. silent (cn_tape c (cn_pos c + i)) \<Longrightarrow> cn_tape c (cn_pos c + (2 * k + 1)) = h \<Longrightarrow>
     \<exists>c'. tries parse no_prep want n frame c = (Inr f, c') \<and> cn_link c' = Link_open
        \<and> cn_buf c' = [] \<and> \<not> cn_eof c'
        \<and> length (send_times (cn_log c')) = length (send_times (cn_log c)) + k + 1"
proof (induction k arbitrary: n c)
  case 0
  then obtain m where n: "n = Suc m" by (cases n) auto
  have s: "silent (cn_tape c (cn_pos c))" using 0 by auto
  let ?c1 = "(send frame c)\<lparr>cn_pos := cn_pos c + 1, cn_now := cn_now c + hp_dt (cn_tape c (cn_pos c))\<rparr>"
  have d: "drain (send frame c) = (Inr (), ?c1)"
    using 0 s by (subst drain_silent) (auto simp: ready_def)
  obtain c2 where r: "readexactly (cn_request_timeout c) want ?c1 = (Inr raw, c2)"
    "cn_link c2 = Link_open" "cn_buf c2 = []" "\<not> cn_eof c2"
    using readexactly_answer [of ?c1 raw "hp_ms h" "cn_request_timeout c"] 0 want ans
    by (cases h) (auto simp: ready_def hp_dt_def)
  have lg: "cn_log c2 = cn_log c @ [Sent (cn_now c) frame]"
    using r(1) 0 ans(2,3) want
    by (auto simp: readexactly_def next_hp_def absorb_def ready_def Let_def split: if_splits)
  show ?case
    using 0 n d r want(3) parse frame lg
    by (auto simp: no_prep_def pace_ready ready_def Let_def)
next
  case (Suc k)
  then obtain m where n: "n = Suc m" "k < m" by (cases n) auto
  then obtain m' where m: "m = Suc m'" by (cases m) auto
  have s: "silent (cn_tape c (cn_pos c))" "silent (cn_tape c (cn_pos c + 1))"
    using Suc.prems(6) by (auto dest: spec [of _ 0] spec [of _ 1])
  let ?c1 = "(send frame c)\<lparr>cn_pos := cn_pos c + 1, cn_now := cn_now c + hp_dt (cn_tape c (cn_pos c))\<rparr>"
  let ?c2 = "?c1\<lparr>cn_pos := cn_pos c + 2, cn_now := cn_now ?c1 + cn_request_timeout c\<rparr>"
  have d: "drain (send frame c) = (Inr (), ?c1)"
    using Suc.prems s by (subst drain_silent) (auto simp: ready_def)
  have r: "readexactly (cn_request_timeout c) want ?c1 = (Inl TimeoutError, ?c2)"
    using Suc.prems s want by (subst readexactly_silent) (auto simp: ready_def)
  have "ready ?c2"
  proof -
    have "cn_gap c \<le> hp_dt (cn_tape c (cn_pos c)) + cn_request_timeout c"
      using Suc.prems(4) hp_dt_nonneg [of "cn_tape c (cn_pos c)"] by linarith
    then show ?thesis using Suc.prems by (simp add: ready_def gap_passed_def)
  qed
  moreover have "\<forall>i < 2 * k + 1. silent (cn_tape ?c2 (cn_pos ?c2 + i))"
    using Suc.prems(6) by (auto dest: spec [of _ "_ + 2"] simp: add.commute add.left_commute)
  ultimately obtain c' where c': "tries parse no_prep want m frame ?c2 = (Inr f, c')"
    "cn_link c' = Link_open" "cn_buf c' = []" "\<not> cn_eof c'"
    "length (send_times (cn_log c')) = length (send_times (cn_log ?c2)) + k + 1"
    using Suc.IH [OF n(2), of ?c2] Suc.prems by auto
  have "tries parse no_prep want n frame c = tries parse no_prep want m frame ?c2"
    using Suc.prems d r frame unfolding n(1)
    by (simp add: no_prep_def pace_ready ready_def m Let_def)
  then show ?case using c' by auto
qed

section \<open>Properties\<close>

text \<open>A tape that is silent after the given happenings, for the concrete instances.\<close>

definition arrives :: "string \<Rightarrow> happening" where
  "arrives b = \<lparr>hp_ms = 10, hp_bytes = b, hp_ending = Quiet, hp_closed = False\<rparr>"

definition demo_tape :: "happening list \<Rightarrow> nat \<Rightarrow> happening" where
  "demo_tape hs n = (if n < length hs then hs ! n else arrives [])"

definition demo_conn :: conn where
  "demo_conn = new_conn (demo_tape (arrives [] # arrives HELLO # replicate 9 (arrives [])
     @ [arrives ''r000000010053''])) 10 (1 / 5) 4"

text \<open>C4: Whatever the network does, in every history of requests, closes and idle
  time, any two consecutive transmissions to the machine are at least
  \<open>request_gap\<close> apart, through retries, reconnects and warm-up reads.\<close>

theorem sends_are_paced:
  assumes "client_run ops (new_conn tape now gap timeout) = Some c" "0 \<le> now" "0 \<le> timeout"
    and "Suc i < length (send_times (cn_log c))"
  shows "send_times (cn_log c) ! i + cn_gap c \<le> send_times (cn_log c) ! Suc i"
proof -
  have "paced (new_conn tape now gap timeout)"
    using assms(2,3) by (simp add: paced_def new_conn_def)
  then have "paced c" using assms(1) client_run_paced by blast
  then have "successively (\<lambda>t u. t + cn_gap c \<le> u) (send_times (cn_log c))"
    by (simp add: paced_def)
  then show ?thesis using assms(4) by (simp add: successively_conv_nth)
qed

theorem sends_are_paced_witness:
  "\<exists>c. client_run [Request ''r00000001F3''] demo_conn = Some c
     \<and> send_times (cn_log c) ! 3 + cn_gap c \<le> send_times (cn_log c) ! Suc 3"
proof -
  have "map_option (\<lambda>c. length (send_times (cn_log c))) (client_run [Request ''r00000001F3''] demo_conn)
      = Some 5"
    by code_simp
  then obtain c where c: "client_run [Request ''r00000001F3''] demo_conn = Some c"
    "length (send_times (cn_log c)) = 5"
    by auto
  have "send_times (cn_log c) ! 3 + cn_gap c \<le> send_times (cn_log c) ! Suc 3"
    using c by (intro sends_are_paced [of "[Request ''r00000001F3'']" _ 10 "1 / 5" 4])
      (simp_all add: demo_conn_def)
  with c(1) show ?thesis by blast
qed

text \<open>An exchange sends nothing but its own frame, at most \<open>max_retries + 1\<close>
  times, and opens no connection: a swallowed request is retried on the socket
  it was sent on.\<close>

theorem exchange_retries_in_place:
  "\<exists>new. cn_log (snd (exchange frame c)) = cn_log c @ new
     \<and> Connected \<notin> set new \<and> (\<forall>t f. Sent t f \<in> set new \<longrightarrow> f = frame)
     \<and> length (send_times new) \<le> nat (cn_max_retries c + 1)"
proof -
  have "only_sends (nat (cn_max_retries c + 1)) frame c (snd (exchange frame c))"
    using only_sends_tries [of frame no_prep]
    by (auto simp: exchange_def exchange_with_def no_prep_def split: sum.split)
  then obtain new where new: "cn_log (snd (exchange frame c)) = cn_log c @ new"
    "\<forall>a \<in> set new. a = Closed \<or> (\<exists>t. a = Sent t frame)"
    "length (send_times new) \<le> nat (cn_max_retries c + 1)"
    by (auto simp: only_sends_def)
  then have "Connected \<notin> set new" "\<forall>t f. Sent t f \<in> set new \<longrightarrow> f = frame" by auto
  with new show ?thesis by blast
qed

theorem exchange_retries_in_place_witness:
  "\<exists>new. cn_log (snd (exchange ''r00000001F3'' (demo_conn\<lparr>cn_link := Link_open\<rparr>)))
       = cn_log (demo_conn\<lparr>cn_link := Link_open\<rparr>) @ new
     \<and> Connected \<notin> set new \<and> (\<forall>t f. Sent t f \<in> set new \<longrightarrow> f = ''r00000001F3'')
     \<and> length (send_times new) \<le> nat (cn_max_retries (demo_conn\<lparr>cn_link := Link_open\<rparr>) + 1)"
  by (rule exchange_retries_in_place)

text \<open>The governor's \<open>close_link\<close> takes no lock: when the poll loop calls it while the worker
  is inside a request, the attributes of the client are \<open>None\<close> after the await, and the
  request raises an \<open>AttributeError\<close> that none of its handlers names.\<close>

definition closed_meanwhile :: conn where
  "closed_meanwhile =
     (new_conn (demo_tape [(arrives [])\<lparr>hp_closed := True\<rparr>]) 10 (1 / 5) 4)\<lparr>cn_link := Link_open\<rparr>"

lemma closed_link_escapes_request:
  "map_option fst (request ''r00000001F3'' closed_meanwhile) = Some (Inl AttributeError)"
  by code_simp

text \<open>C5: As long as no other task closes the link, whatever else the network does, a
  failed request for a frame of the builders, with a 16-bit address and length, raises
  \<open>R60VConnectionError\<close> and nothing else, and leaves the connection down.\<close>

theorem request_raises_only_R60VConnectionError:
  assumes "\<forall>p. \<not> hp_closed (cn_tape c p)"
    and "command \<in> {READ, WRITE}" "0 \<le> a" "a < 0x10000" "0 \<le> l" "l < 0x10000"
    and "build_frame command a l data = Inr frame"
    and "request frame c = Some (Inl e, c')"
  shows "e = R60VConnectionError \<and> \<not> connected c'"
proof -
  have "sendable frame"
    using assms(2-7) by (intro sendable_build_frame [of command a l data]) (simp_all add: is_addr_def)
  then have "e = R60VConnectionError \<and> cn_link c' = No_link"
    using assms(1,8) by (intro alone_attempts [of frame 2 c]) (simp_all add: request_def alone_def)
  then show ?thesis by (simp add: connected_def)
qed

definition broken_conn :: conn where
  "broken_conn = (new_conn (demo_tape [arrives [], arrives HELLO, arrives [],
     (arrives [])\<lparr>hp_ending := Broken\<rparr>, arrives [], arrives HELLO, arrives [],
     (arrives [])\<lparr>hp_ending := Ended\<rparr>]) 10 (1 / 5) 4)\<lparr>cn_warmup := False\<rparr>"

theorem request_raises_only_R60VConnectionError_witness:
  "\<exists>e c'. request ''r00000001F3'' broken_conn = Some (Inl e, c')
     \<and> e = R60VConnectionError \<and> \<not> connected c'"
proof -
  have "map_option (\<lambda>y. isl (fst y)) (request ''r00000001F3'' broken_conn) = Some True"
    by code_simp
  then obtain y where y: "request ''r00000001F3'' broken_conn = Some y" "isl (fst y)" by auto
  obtain e c' where "y = (Inl e, c')" using y(2) by (cases y) (auto simp: isl_def)
  with y have r: "request ''r00000001F3'' broken_conn = Some (Inl e, c')" by simp
  have t: "\<forall>p. \<not> hp_closed (cn_tape broken_conn p)"
    by (simp add: broken_conn_def new_conn_def demo_tape_def arrives_def nth_Cons' split: nat.split)
  have b: "build_frame READ 0 1 [] = Inr ''r00000001F3''" by code_simp
  have "e = R60VConnectionError \<and> \<not> connected c'"
    by (rule request_raises_only_R60VConnectionError [OF t _ _ _ _ _ b r]) simp_all
  with r show ?thesis by blast
qed

text \<open>C6: A machine that swallows the first k transmissions of a read, k at most
  \<open>max_retries\<close>, and answers the next one is read correctly: the request returns
  exactly the bytes of the answer, after k + 1 transmissions on one connection,
  and leaves the stream aligned.\<close>

theorem swallowed_read_recovers:
  assumes "is_addr a" "is_addr l" "int (length data) = l" "list_all is_byte data"
    and "build_frame READ a l data = Inr reply"
    and "cn_link c = Link_open" "cn_buf c = []" "\<not> cn_eof c" "gap_passed c"
    and "0 < cn_request_timeout c" "cn_gap c \<le> cn_request_timeout c"
    and "int k \<le> cn_max_retries c"
    and "\<forall>i < 2 * k + 1. silent (cn_tape c (cn_pos c + i))"
    and "cn_tape c (cn_pos c + (2 * k + 1)) =
       \<lparr>hp_ms = m, hp_bytes = reply, hp_ending = Quiet, hp_closed = False\<rparr>"
    and "of_nat m / 1000 < cn_request_timeout c"
  shows "\<exists>c'. client_read a l c = Some (Inr data, c') \<and> cn_link c' = Link_open \<and> cn_buf c' = []
     \<and> length (send_times (cn_log c')) = length (send_times (cn_log c)) + k + 1"
proof -
  have rd: "READ \<in> {READ, WRITE}" by simp
  obtain frame where fr: "build_read a l = Inr frame"
    by (auto simp: build_read_def build_frame_Inr)
  then have bf: "build_frame READ a l [] = Inr frame" by (simp add: build_read_def)
  have want: "expected_response_len frame = Inr (11 + 2 * l)"
    using expected_len_build_frame [OF rd assms(1,2) bf] by simp
  have af: "ascii frame" "ascii reply"
    using ascii_build_frame [OF rd _ _ bf] ascii_build_frame [OF rd _ _ assms(5)] assms(1,2)
    by (simp_all add: is_addr_def)
  have len: "length reply = 11 + 2 * length data"
    using length_build_frame [OF rd assms(1,2,5)] .
  have "map (\<lambda>b. b AND 255) data = data"
    using assms(4) by (intro map_idI) (auto simp: list_all_iff)
  then obtain f where f: "parse_frame True reply = Inr f" "fr_data f = data"
    using parse_build_frame [OF rd assms(1,2,5), of True] by auto
  have ne: "reply \<noteq> []" using len by auto
  let ?h = "\<lparr>hp_ms = m, hp_bytes = reply, hp_ending = Quiet, hp_closed = False\<rparr>"
  have "k < nat (cn_max_retries c + 1)" "ready c" "hp_dt ?h < cn_request_timeout c"
    using assms(6-9,12,15) by (auto simp: ready_def hp_dt_def)
  then obtain c' where c': "tries (parse_frame True) no_prep (int (length reply))
      (nat (cn_max_retries c + 1)) frame c = (Inr f, c')"
    "cn_link c' = Link_open" "cn_buf c' = []"
    "length (send_times (cn_log c')) = length (send_times (cn_log c)) + k + 1"
    using tries_answered [where raw = reply and want = "int (length reply)" and h = ?h and k = k
        and c = c and n = "nat (cn_max_retries c + 1)" and parse = "parse_frame True"
        and frame = frame and f = f] af f(1)
      assms(10,11,13,14) len ne by auto
  have "exchange frame c = (Inr f, c')"
    using c'(1) want assms(3,6) len by (simp add: exchange_def exchange_with_def)
  then have "request frame c = Some (Inr f, c')"
    using assms(6) by (simp add: request_def ensure_connected_def connected_def numeral_2_eq_2)
  then show ?thesis using c' f(2) fr by (simp add: client_read_def)
qed

theorem swallowed_read_recovers_witness:
  "\<exists>c'. client_read 0xB000 1 ((new_conn (demo_tape [arrives [], arrives [], arrives [],
        arrives ''rB00000016A7C'']) 10 (1 / 5) 4)\<lparr>cn_link := Link_open\<rparr>)
      = Some (Inr [0x6A], c') \<and> cn_link c' = Link_open \<and> cn_buf c' = []
     \<and> length (send_times (cn_log c')) = length (send_times (cn_log ((new_conn (demo_tape
          [arrives [], arrives [], arrives [], arrives ''rB00000016A7C'']) 10 (1 / 5) 4)
          \<lparr>cn_link := Link_open\<rparr>))) + 1 + 1"
proof -
  let ?tape = "demo_tape [arrives [], arrives [], arrives [], arrives ''rB00000016A7C'']"
  let ?c = "(new_conn ?tape 10 (1 / 5) 4)\<lparr>cn_link := Link_open\<rparr>"
  have b: "build_frame READ 0xB000 1 [0x6A] = Inr ''rB00000016A7C''" by code_simp
  have s: "\<forall>i < 2 * 1 + 1. silent (cn_tape ?c (cn_pos ?c + i))"
    by (simp add: new_conn_def demo_tape_def arrives_def silent_def nth_Cons' less_Suc_eq)
  show ?thesis
    by (rule swallowed_read_recovers [where m = 10 and reply = "''rB00000016A7C''", OF _ _ _ _ b _ _ _ _ _ _ _ s])
      (simp_all add: is_addr_def is_byte_def new_conn_def gap_passed_def demo_tape_def arrives_def)
qed

text \<open>The client never compares the envelope of a reply with its request. A late
  acknowledgement of an earlier write, still in the stream's buffer, is returned
  as the answer to a one-byte register read, with no data, before the machine has
  answered the read at all.\<close>

theorem stale_ack_taken_as_reading:
  assumes "build_ack WRITE a n = Inr ack" "is_addr a" "is_addr n" "is_addr b"
    and "cn_link c = Link_open" "cn_buf c = ack" "gap_passed c" "0 \<le> cn_max_retries c"
    and "silent (cn_tape c (cn_pos c))"
  shows "\<exists>c'. client_read b 1 c = Some (Inr [], c') \<and> cn_pos c' = cn_pos c + 1"
proof -
  have rd: "READ \<in> {READ, WRITE}" "WRITE \<in> {READ, WRITE}" by simp_all
  have one: "is_addr 1" by (simp add: is_addr_def)
  obtain frame where fr: "build_read b 1 = Inr frame"
    by (auto simp: build_read_def build_frame_Inr)
  then have bf: "build_frame READ b 1 [] = Inr frame" by (simp add: build_read_def)
  have want: "expected_response_len frame = Inr 13"
    using expected_len_build_frame [OF rd(1) assms(4) one bf] by simp
  have af: "ascii frame"
    using ascii_build_frame [OF rd(1) _ _ bf] assms(4) by (simp add: is_addr_def)
  have len: "length ack = 13" using length_build_ack [OF rd(2) assms(2,3,1)] .
  obtain f where f: "parse_frame True (decode_ascii ack) = Inr f" "fr_data f = []"
    using parse_build_ack [OF rd(2) assms(2,3,1), of True] ascii_build_ack [OF rd(2) _ _ assms(1)]
      assms(2,3) by (auto simp: is_addr_def)
  let ?c1 = "(send frame c)\<lparr>cn_pos := cn_pos c + 1, cn_now := cn_now c + hp_dt (cn_tape c (cn_pos c))\<rparr>"
  have d: "drain (send frame c) = (Inr (), ?c1)"
    using assms(5,9) by (subst drain_silent) auto
  have r: "readexactly (cn_request_timeout c) 13 ?c1 = (Inr ack, ?c1\<lparr>cn_buf := []\<rparr>)"
    using assms(5,6) len by (simp add: readexactly_def)
  obtain m where m: "nat (cn_max_retries c + 1) = Suc m"
    using assms(8) by (metis Suc_nat_eq_nat_zadd1 add.commute)
  have "exchange frame c = (Inr f, ?c1\<lparr>cn_buf := []\<rparr>)"
    using assms(5,7) want af d r f(1)
    by (simp add: exchange_def exchange_with_def m no_prep_def pace_ready Let_def)
  then have "request frame c = Some (Inr f, ?c1\<lparr>cn_buf := []\<rparr>)"
    using assms(5) by (simp add: request_def ensure_connected_def connected_def numeral_2_eq_2)
  then show ?thesis using f(2) fr by (simp add: client_read_def)
qed

theorem stale_ack_taken_as_reading_witness:
  "\<exists>c'. client_read 0xB000 1 ((new_conn (demo_tape []) 10 (1 / 5) 4)
        \<lparr>cn_link := Link_open, cn_buf := ''w004A0001OKA7''\<rparr>) = Some (Inr [], c')
     \<and> cn_pos c' = cn_pos ((new_conn (demo_tape []) 10 (1 / 5) 4)
        \<lparr>cn_link := Link_open, cn_buf := ''w004A0001OKA7''\<rparr>) + 1"
proof -
  have b: "build_ack WRITE 0x4A 1 = Inr ''w004A0001OKA7''" by code_simp
  show ?thesis
    by (rule stale_ack_taken_as_reading [OF b])
      (simp_all add: is_addr_def new_conn_def gap_passed_def demo_tape_def arrives_def silent_def)
qed

text \<open>A reply that stalls half way is not a swallowed request, but is retried as
  one: the half that arrived stays in the buffer, the answer to the retry is read
  from the middle, and a healthy answer is rejected with the stream left out of
  step.\<close>

theorem half_reply_desyncs_retry:
  "fst (exchange ''rB0000001F5'' ((new_conn (demo_tape [arrives [], arrives ''rB0000'',
        arrives [], arrives ''rB00000016A7C'']) 10 (1 / 5) 4)\<lparr>cn_link := Link_open\<rparr>))
     = Inl ProtocolError
   \<and> cn_buf (snd (exchange ''rB0000001F5'' ((new_conn (demo_tape [arrives [], arrives ''rB0000'',
        arrives [], arrives ''rB00000016A7C'']) 10 (1 / 5) 4)\<lparr>cn_link := Link_open\<rparr>)))
     = ''016A7C''"
  by code_simp

end
