(* ===== verification/HaProtocol.thy ===== *)
theory HaProtocol
  imports Protocol
begin

text \<open>
  The integration's own copy of the wire protocol,
  \<open>custom_components/rocket_r60v/protocol.py\<close>. It is a separate module from the
  bridge's, and the two must stay interoperable: the lemmas relate each function
  to the bridge's of the same name. The address map and the settings block are the
  same constants and are shared with \<open>Protocol\<close>; what only the integration has is
  declared here. The parsers differ in one exception.
\<close>

section \<open>Builders\<close>

definition ha_checksum :: "string \<Rightarrow> string" where
  "ha_checksum message =
     (let total = foldl (\<lambda>acc byte. acc + byte) 0 (utf8 message) mod 256
      in fmt_hex 2 (int total))"

definition ha_encode_data :: "int list \<Rightarrow> string" where
  "ha_encode_data data =
     (if data = [] then [] else concat (map (\<lambda>b. fmt_hex 2 (b AND 255)) data))"

definition ha_decode_data :: "string \<Rightarrow> int list res" where
  "ha_decode_data hex_str =
     (if odd (length hex_str) then Inl ProtocolError
      else map_res (py_int 16) (chunk2 hex_str))"

definition ha_build_envelope :: "string \<Rightarrow> int \<Rightarrow> int \<Rightarrow> string res" where
  "ha_build_envelope command address len =
     (if command \<notin> {READ, WRITE} then Inl ProtocolError
      else Inr (command @ fmt_hex 4 address @ fmt_hex 4 len))"

definition ha_build_frame :: "string \<Rightarrow> int \<Rightarrow> int \<Rightarrow> int list \<Rightarrow> string res" where
  "ha_build_frame command address len data =
     bind_res (ha_build_envelope command address len)
       (\<lambda>envelope. let body = envelope @ ha_encode_data data in Inr (body @ ha_checksum body))"

definition ha_build_read :: "int \<Rightarrow> int \<Rightarrow> string res" where
  "ha_build_read address len = ha_build_frame READ address len []"

definition ha_build_write :: "int \<Rightarrow> int list \<Rightarrow> string res" where
  "ha_build_write address data = ha_build_frame WRITE address (int (length data)) data"

definition ha_build_ack :: "string \<Rightarrow> int \<Rightarrow> int \<Rightarrow> string res" where
  "ha_build_ack command address len =
     bind_res (ha_build_envelope command address len)
       (\<lambda>envelope. let body = envelope @ ACK in Inr (body @ ha_checksum body))"

section \<open>The parser\<close>

definition ha_parse_frame :: "bool \<Rightarrow> string \<Rightarrow> frame res" where
  "ha_parse_frame verify raw =
     (if length raw < 11 then Inl ProtocolError
      else
        let command = [raw ! 0] in
        if command \<notin> {READ, WRITE} then Inl ProtocolError
        else
          (case bind_res (py_int 16 (take 4 (drop 1 raw)))
                  (\<lambda>a. bind_res (py_int 16 (take 4 (drop 5 raw))) (\<lambda>l. Inr (a, l))) of
             Inl _ \<Rightarrow> Inl ProtocolError
           | Inr (address, len) \<Rightarrow>
               let payload = drop 9 (take (length raw - 2) raw);
                   supplied = drop (length raw - 2) raw
               in bind_res (if payload = ACK then Inr [] else ha_decode_data payload)
                    (\<lambda>data.
                       if verify \<and> ha_checksum (take (length raw - 2) raw) \<noteq> upper supplied
                       then Inl ProtocolError
                       else Inr \<lparr>fr_command = command, fr_address = address, fr_length = len,
                                 fr_data = data, fr_checksum = supplied, fr_raw = raw\<rparr>)))"

section \<open>Constants only the integration has\<close>

definition DAY_OFF :: int where "DAY_OFF = 0x55"
definition TIMER_DISABLED :: int where "TIMER_DISABLED = 100"
definition PROFILE_LEN :: int where "PROFILE_LEN = 15"
definition PROFILE_STEPS :: nat where "PROFILE_STEPS = 5"
definition PROFILE_TIMING_RANGE :: "rat \<times> rat" where "PROFILE_TIMING_RANGE = (0, 60)"
definition PROFILE_PRESSURE_RANGE :: "rat \<times> rat" where "PROFILE_PRESSURE_RANGE = (0, 10)"

section \<open>The two copies\<close>

lemma vendored_builders [simp, codec_simps]:
  "ha_checksum = checksum" "ha_encode_data = encode_data"
  "ha_build_envelope = build_envelope" "ha_build_frame = build_frame"
  "ha_build_read = build_read" "ha_build_write = build_write" "ha_build_ack = build_ack"
proof -
  show c: "ha_checksum = checksum" by (rule ext) (simp add: ha_checksum_def checksum_def)
  show e: "ha_encode_data = encode_data" by (rule ext) (simp add: ha_encode_data_def encode_data_def)
  show v: "ha_build_envelope = build_envelope"
    by (intro ext) (simp add: ha_build_envelope_def build_envelope_def)
  show f: "ha_build_frame = build_frame"
    by (intro ext) (simp add: ha_build_frame_def build_frame_def c e v)
  show "ha_build_read = build_read" "ha_build_write = build_write" "ha_build_ack = build_ack"
    by (intro ext; simp add: ha_build_read_def build_read_def ha_build_write_def build_write_def
        ha_build_ack_def build_ack_def f c v)+
qed

lemma py_int_ValueError: "py_int b s = Inl e \<Longrightarrow> e = ValueError"
  by (auto simp: py_int_def scan_digits_def Let_def bind_res_eq_Inl split: if_splits)

lemma map_res_ValueError: "map_res (py_int b) xs = Inl e \<Longrightarrow> e = ValueError"
  by (induction xs) (auto simp: bind_res_eq_Inl dest: py_int_ValueError)

lemma ha_decode_data_cases:
  obtains (same) "ha_decode_data s = decode_data s"
  | (garbled) "ha_decode_data s = Inl ValueError" "decode_data s = Inl ProtocolError"
proof (cases "map_res (py_int 16) (chunk2 s)")
  case (Inl e)
  then have "e = ValueError" by (rule map_res_ValueError)
  then show thesis
    using Inl same garbled by (cases "odd (length s)") (simp_all add: ha_decode_data_def decode_data_def)
next
  case (Inr bs)
  then show thesis using same by (simp add: ha_decode_data_def decode_data_def)
qed

lemma ha_parse_frame_short: "length raw < 11 \<Longrightarrow> ha_parse_frame v raw = Inl ProtocolError"
  by (simp add: ha_parse_frame_def)

lemma ha_parse_frame_cases:
  obtains (same) "ha_parse_frame v raw = parse_frame v raw"
  | (garbled) "ha_parse_frame v raw = Inl ValueError" "parse_frame v raw = Inl ProtocolError"
proof (cases rule: ha_decode_data_cases [of "drop 9 (take (length raw - 2) raw)"])
  case same
  note d = this
  have "ha_parse_frame v raw = parse_frame v raw"
    unfolding ha_parse_frame_def parse_frame_def Let_def vendored_builders d by (rule refl)
  then show thesis by (rule that(1))
next
  case garbled
  note d = this
  show thesis
  proof (cases "length raw < 11 \<or> [raw ! 0] \<notin> {READ, WRITE}
      \<or> drop 9 (take (length raw - 2) raw) = ACK
      \<or> (\<exists>e. bind_res (py_int 16 (take 4 (drop 1 raw)))
             (\<lambda>a. bind_res (py_int 16 (take 4 (drop 5 raw))) (\<lambda>l. Inr (a, l))) = Inl e)")
    case True
    then have "ha_parse_frame v raw = parse_frame v raw"
      unfolding ha_parse_frame_def parse_frame_def Let_def vendored_builders
      by (auto split: sum.split)
    then show thesis by (rule that(1))
  next
    case False
    then obtain a l where "bind_res (py_int 16 (take 4 (drop 1 raw)))
        (\<lambda>a. bind_res (py_int 16 (take 4 (drop 5 raw))) (\<lambda>l. Inr (a, l))) = Inr (a, l)"
      by (cases "bind_res (py_int 16 (take 4 (drop 1 raw)))
        (\<lambda>a. bind_res (py_int 16 (take 4 (drop 5 raw))) (\<lambda>l. Inr (a, l)))") auto
    with False d show thesis
      by (intro that(2)) (auto simp: ha_parse_frame_def parse_frame_def Let_def)
  qed
qed

lemma ha_parse_frame_errors:
  "ha_parse_frame v raw = Inl e \<Longrightarrow> e \<in> {ProtocolError, ValueError}"
  by (cases rule: ha_parse_frame_cases [of v raw]) (auto dest: parse_frame_errors)

lemma ha_parse_frame_Inr: "ha_parse_frame v raw = Inr f \<longleftrightarrow> parse_frame v raw = Inr f"
  by (cases rule: ha_parse_frame_cases [of v raw]) auto

text \<open>The vendored table of addresses, and that it is the bridge's.\<close>

definition HA_ADDRESSES :: "(string \<times> int) list" where
  "HA_ADDRESSES =
     [(''TEMPERATURE_UNIT'', 0x00), (''LANGUAGE'', 0x01), (''BREW_BOILER_TEMP'', 0x02),
      (''SERVICE_BOILER_TEMP'', 0x03), (''PROFILE_A'', 0x16), (''PROFILE_B'', 0x26),
      (''PROFILE_C'', 0x36), (''WATER_FEED'', 0x46), (''ACTIVE_PROFILE'', 0x47),
      (''SERVICE_BOILER_ENABLE'', 0x49), (''STANDBY'', 0x4A), (''GROUP_TEMP'', 0x4C),
      (''TOTAL_COFFEE_COUNT'', 0x4D), (''AUTO_ON_HOUR'', 0x51), (''AUTO_ON_MINUTE'', 0x52),
      (''AUTO_OFF_HOUR'', 0x53), (''AUTO_OFF_MINUTE'', 0x54), (''DAY_OFF'', 0x55),
      (''DATE_TIME'', 0xA000), (''CURRENT_BREW_TEMP'', 0xB000), (''CURRENT_SERVICE_TEMP'', 0xB001),
      (''CURRENT_PRESSURE'', 0xB002), (''DISPLAY'', 0xB007)]"

lemma vendored_addresses:
  "HA_ADDRESSES =
     [(''TEMPERATURE_UNIT'', TEMPERATURE_UNIT), (''LANGUAGE'', LANGUAGE),
      (''BREW_BOILER_TEMP'', BREW_BOILER_TEMP), (''SERVICE_BOILER_TEMP'', SERVICE_BOILER_TEMP),
      (''PROFILE_A'', PROFILE_A), (''PROFILE_B'', PROFILE_B), (''PROFILE_C'', PROFILE_C),
      (''WATER_FEED'', WATER_FEED), (''ACTIVE_PROFILE'', ACTIVE_PROFILE),
      (''SERVICE_BOILER_ENABLE'', SERVICE_BOILER_ENABLE), (''STANDBY'', STANDBY),
      (''GROUP_TEMP'', GROUP_TEMP), (''TOTAL_COFFEE_COUNT'', TOTAL_COFFEE_COUNT),
      (''AUTO_ON_HOUR'', AUTO_ON_HOUR), (''AUTO_ON_MINUTE'', AUTO_ON_MINUTE),
      (''AUTO_OFF_HOUR'', AUTO_OFF_HOUR), (''AUTO_OFF_MINUTE'', AUTO_OFF_MINUTE),
      (''DAY_OFF'', DAY_OFF), (''DATE_TIME'', DATE_TIME), (''CURRENT_BREW_TEMP'', CURRENT_BREW_TEMP),
      (''CURRENT_SERVICE_TEMP'', CURRENT_SERVICE_TEMP), (''CURRENT_PRESSURE'', CURRENT_PRESSURE),
      (''DISPLAY'', DISPLAY)]"
  by (simp add: HA_ADDRESSES_def address_defs DAY_OFF_def)

text \<open>C34: The integration's parser is interoperable with the bridge's: on every text it
  accepts the same frames with the same fields. Where it rejects, it raises the
  same \<open>ProtocolError\<close>, except that a data field that is not hexadecimal raises a
  bare \<open>ValueError\<close>.\<close>

theorem vendored_parser_agrees:
  "ha_parse_frame verify raw = parse_frame verify raw
   \<or> ha_parse_frame verify raw = Inl ValueError \<and> parse_frame verify raw = Inl ProtocolError"
  by (cases rule: ha_parse_frame_cases [of verify raw]) simp_all

end
