(* ===== verification/HaClient.thy ===== *)
theory HaClient
  imports Client HaProtocol
begin

text \<open>
  The integration's own client, \<open>custom_components/rocket_r60v/client.py\<close>. Greeting,
  warm-up, pacing and the tries of an exchange are the same code as the bridge's and
  share its definitions; this client discards late input before it sends, parses
  with the integration's parser, and gives up after three attempts instead of
  reconnecting for ever, so a request is a total function.
\<close>

section \<open>Operations\<close>

text \<open>\<open>_drain\<close> is one happening: whatever arrives until the line has been quiet for
  50 ms is discarded. A peer that never pauses for 50 ms, on which the loop would
  not end, is outside of the model. A closed or ended stream ends the loop at once,
  a broken one raises.\<close>

definition ha_drain :: "conn \<Rightarrow> unit res \<times> conn" where
  "ha_drain c =
     (if cn_link c = No_link then (Inr (), c)
      else if cn_link c = Link_closing then (Inl OSError, c)
      else if cn_eof c then (Inr (), c\<lparr>cn_buf := []\<rparr>)
      else
        let (h, c) = next_hp c;
            quiet = (hp_ending h = Quiet \<and> \<not> hp_closed h);
            c = absorb (hp_dt h + (if quiet then 1 / 20 else 0)) h c
        in (if cn_link c = Link_closing then Inl OSError else Inr (), c\<lparr>cn_buf := []\<rparr>))"

definition ha_exchange :: "string \<Rightarrow> conn \<Rightarrow> frame res \<times> conn" where
  "ha_exchange = exchange_with (ha_parse_frame True) ha_drain"

definition ha_connect :: "conn \<Rightarrow> unit res \<times> conn" where
  "ha_connect = connect_with ha_exchange"

text \<open>The loop of \<open>request\<close>, with the number of attempts left.\<close>

fun ha_attempts :: "nat \<Rightarrow> string \<Rightarrow> conn \<Rightarrow> frame res \<times> conn" where
  "ha_attempts 0 frame c = (Inl R60VConnectionError, c)"
| "ha_attempts (Suc n) frame c =
     (case (if connected c then (Inr (), c) else ha_connect c) of
        (Inl e, c) \<Rightarrow>
          if e \<in> link_errors then ha_attempts n frame (drop_link c) else (Inl e, c)
      | (Inr _, c) \<Rightarrow>
          (case ha_exchange frame c of
             (Inr f, c) \<Rightarrow> (Inr f, c)
           | (Inl e, c) \<Rightarrow>
               if e \<in> request_errors then ha_attempts n frame (drop_link c) else (Inl e, c)))"

definition ha_request :: "string \<Rightarrow> conn \<Rightarrow> frame res \<times> conn" where
  "ha_request frame c = ha_attempts 3 frame c"

definition ha_read :: "int \<Rightarrow> int \<Rightarrow> conn \<Rightarrow> int list res \<times> conn" where
  "ha_read address len c =
     (case ha_build_read address len of
        Inl e \<Rightarrow> (Inl e, c)
      | Inr frame \<Rightarrow> (case ha_request frame c of (r, c) \<Rightarrow> (map_sum id fr_data r, c)))"

definition ha_write :: "int \<Rightarrow> int list \<Rightarrow> conn \<Rightarrow> frame res \<times> conn" where
  "ha_write address data c =
     (case ha_build_write address data of
        Inl e \<Rightarrow> (Inl e, c)
      | Inr frame \<Rightarrow> ha_request frame c)"

text \<open>This client has no back-off; those two fields of the connection are unused.\<close>

definition ha_new_conn :: "(nat \<Rightarrow> happening) \<Rightarrow> time \<Rightarrow> conn" where
  "ha_new_conn tape now = (new_conn tape now (15 / 100) 4)\<lparr>cn_backoff_initial := 0, cn_backoff_max := 0\<rparr>"

section \<open>Facts shared with the bridge's client\<close>

context conn_invariant
begin

lemma ha_drain_inv: "I c \<Longrightarrow> I (snd (ha_drain c))"
  by (simp add: ha_drain_def next_hp_def I_absorb I_pos I_buf Let_def)

lemma ha_exchange_inv: "I c \<Longrightarrow> I (snd (ha_exchange frame c))"
  unfolding ha_exchange_def by (rule exchange_with_inv) (rule ha_drain_inv)

lemma ha_connect_inv: "I c \<Longrightarrow> I (snd (ha_connect c))"
  unfolding ha_connect_def by (rule connect_with_inv) (rule ha_exchange_inv)

lemma ha_attempts_inv: "I c \<Longrightarrow> I (snd (ha_attempts n frame c))"
proof (induction n arbitrary: c)
  case (Suc n)
  obtain r c1 where e: "(if connected c then (Inr (), c) else ha_connect c) = (r, c1)"
    by (cases "if connected c then (Inr (), c) else ha_connect c")
  have c1: "I c1" using Suc.prems ha_connect_inv [OF Suc.prems] e by (auto split: if_splits)
  obtain r2 c2 where x: "ha_exchange frame c1 = (r2, c2)" by (cases "ha_exchange frame c1")
  have c2: "I c2" using ha_exchange_inv [OF c1, of frame] by (simp add: x)
  show ?case
    unfolding ha_attempts.simps e
    using c1 c2 x I_drop [OF c1] I_drop [OF c2] Suc.IH by (auto split: sum.split)
qed simp

end

lemma only_sends_ha_drain: "only_sends 0 frame c (snd (ha_drain c))"
  using only_sends_absorb [of frame "c\<lparr>cn_pos := cn_pos c + 1\<rparr>"]
  by (simp add: ha_drain_def next_hp_def only_sends_pos only_sends_buf Let_def)

lemma only_sends_ha_exchange:
  "only_sends (nat (cn_max_retries c + 1)) frame c (snd (ha_exchange frame c))"
  using only_sends_tries [of frame ha_drain, OF only_sends_ha_drain]
  by (auto simp: ha_exchange_def exchange_with_def split: sum.split)

section \<open>How much one request does\<close>

text \<open>At most \<open>j\<close> connections opened and \<open>k\<close> frames sent.\<close>

definition does :: "nat \<Rightarrow> nat \<Rightarrow> conn \<Rightarrow> conn \<Rightarrow> bool" where
  "does j k c c' \<longleftrightarrow>
     (\<exists>new. cn_log c' = cn_log c @ new \<and> count_list new Connected \<le> j
        \<and> length (send_times new) \<le> k)"

lemma does_refl [simp]: "cn_log c' = cn_log c \<Longrightarrow> does j k c c'"
  by (auto simp: does_def intro: exI [of _ "[]"])

lemma does_trans:
  assumes "does j k c c1" "does j' k' c1 c2" "j + j' \<le> J" "k + k' \<le> K"
  shows "does J K c c2"
proof -
  from assms obtain n1 n2 where
    "cn_log c1 = cn_log c @ n1" "count_list n1 Connected \<le> j" "length (send_times n1) \<le> k"
    "cn_log c2 = cn_log c1 @ n2" "count_list n2 Connected \<le> j'" "length (send_times n2) \<le> k'"
    by (auto simp: does_def)
  then show ?thesis using assms(3,4) unfolding does_def by (intro exI [of _ "n1 @ n2"]) auto
qed

lemma does_only_sends: "only_sends k frame c c' \<Longrightarrow> does 0 k c c'"
proof -
  assume "only_sends k frame c c'"
  then obtain new where n: "cn_log c' = cn_log c @ new" "length (send_times new) \<le> k"
    "\<forall>a \<in> set new. a = Closed \<or> (\<exists>t. a = Sent t frame)"
    by (auto simp: only_sends_def)
  then have "count_list new Connected = 0" by (auto simp: count_list_0_iff)
  then show ?thesis using n unfolding does_def by blast
qed

lemma does_drop: "does 0 0 c (drop_link c)"
  by (rule does_only_sends [of _ "[]"]) (rule only_sends_drop)

lemma does_open_link: "does 1 0 c (snd (open_link c))"
  by (auto simp: open_link_def next_hp_def does_def Let_def)

lemma does_read_greeting: "does 0 0 c (snd (read_greeting c))"
proof -
  obtain r c' where e: "readexactly (cn_request_timeout c) (int (length HELLO)) c = (r, c')"
    by (cases "readexactly (cn_request_timeout c) (int (length HELLO)) c")
  have "does 0 0 c c'"
    using does_only_sends [OF only_sends_readexactly [of "[]" c "cn_request_timeout c"]]
    by (metis e snd_conv)
  then show ?thesis by (auto simp: read_greeting_def e split: sum.split)
qed

interpretation retries: conn_invariant
  "\<lambda>c. cn_max_retries c = m \<and> 0 \<le> cn_connect_timeout c \<and> 0 \<le> cn_request_timeout c
     \<and> 0 \<le> cn_backoff_initial c \<and> 0 \<le> cn_backoff_max c" for m
  by unfold_locales (auto simp: send_def)

definition timeouts_ok :: "conn \<Rightarrow> bool" where
  "timeouts_ok c \<longleftrightarrow> 0 \<le> cn_connect_timeout c \<and> 0 \<le> cn_request_timeout c
     \<and> 0 \<le> cn_backoff_initial c \<and> 0 \<le> cn_backoff_max c"

abbreviation tries_of :: "conn \<Rightarrow> nat" where
  "tries_of c \<equiv> nat (cn_max_retries c + 1)"

lemma does_ha_exchange: "does 0 (tries_of c) c (snd (ha_exchange frame c))"
  by (rule does_only_sends [OF only_sends_ha_exchange])

lemma does_ha_connect:
  assumes "timeouts_ok c"
  shows "does 1 (tries_of c) c (snd (ha_connect c))"
proof -
  obtain r1 c1 where o: "open_link (drop_link c) = (r1, c1)" by (cases "open_link (drop_link c)")
  have m1: "cn_max_retries c1 = cn_max_retries c \<and> timeouts_ok c1"
    using retries.open_link_inv [of "drop_link c" "cn_max_retries c"] assms o
    by (simp add: timeouts_ok_def)
  have d1: "does 1 0 c c1"
    using does_trans [OF does_drop does_open_link] by (metis o snd_conv add_0 le_refl)
  obtain r2 c2 where g: "read_greeting c1 = (r2, c2)" by (cases "read_greeting c1")
  have m2: "cn_max_retries c2 = cn_max_retries c"
    using retries.read_greeting_inv [of c1 "cn_max_retries c"] m1 g by (simp add: timeouts_ok_def)
  have d2: "does 1 0 c c2"
    using does_trans [OF d1 does_read_greeting [of c1]] by (simp add: g)
  obtain frame where f: "build_read SETTINGS_BASE SETTINGS_LEN = Inr frame"
    by (auto simp: build_read_def build_frame_Inr)
  obtain r3 c3 where x: "ha_exchange frame c2 = (r3, c3)" by (cases "ha_exchange frame c2")
  have d3: "does 1 (tries_of c) c c3"
    using does_trans [OF d2 does_ha_exchange [of c2 frame]] by (simp add: x m2)
  have mono: "does 1 0 c y \<Longrightarrow> does 1 (tries_of c) c y" for y by (auto simp: does_def)
  show ?thesis
    using mono [OF d1] mono [OF d2] d3
    by (auto simp: ha_connect_def connect_with_def o g warm_up_with_def f x split: sum.split)
qed

lemma does_ha_attempts:
  "timeouts_ok c \<Longrightarrow> does n (2 * n * tries_of c) c (snd (ha_attempts n frame c))"
proof (induction n arbitrary: c)
  case (Suc n)
  let ?t = "tries_of c"
  obtain r1 c1 where e: "(if connected c then (Inr (), c) else ha_connect c) = (r1, c1)"
    by (cases "if connected c then (Inr (), c) else ha_connect c")
  have m1: "cn_max_retries c1 = cn_max_retries c" "timeouts_ok c1"
    using retries.ha_connect_inv [of c "cn_max_retries c"] Suc.prems e
    by (auto simp: timeouts_ok_def split: if_splits)
  have d1: "does 1 ?t c c1"
    using does_ha_connect [OF Suc.prems] e by (auto split: if_splits)
  obtain r2 c2 where x: "ha_exchange frame c1 = (r2, c2)" by (cases "ha_exchange frame c1")
  have m2: "cn_max_retries c2 = cn_max_retries c" "timeouts_ok c2"
    using retries.ha_exchange_inv [of c1 "cn_max_retries c" frame] m1 x
    by (auto simp: timeouts_ok_def)
  have d2: "does 1 (2 * ?t) c c2"
    using does_trans [OF d1 does_ha_exchange [of c1 frame]] by (simp add: x m1)
  have again: "does (Suc n) (2 * Suc n * ?t) c (snd (ha_attempts n frame (drop_link c')))"
    if "does 1 (2 * ?t) c c'" "cn_max_retries c' = cn_max_retries c" "timeouts_ok c'" for c'
  proof -
    have "does 1 (2 * ?t) c (drop_link c')" using does_trans [OF that(1) does_drop] by simp
    moreover have "does n (2 * n * ?t) (drop_link c') (snd (ha_attempts n frame (drop_link c')))"
      using Suc.IH [of "drop_link c'"] that by (simp add: timeouts_ok_def)
    ultimately show ?thesis by (rule does_trans) (simp_all add: algebra_simps)
  qed
  have mono: "does 1 k c y \<Longrightarrow> k \<le> 2 * ?t \<Longrightarrow> does (Suc n) (2 * Suc n * ?t) c y" for k y
    by (rule does_trans [of 1 k c y 0 0]) (auto simp: algebra_simps)
  have "does 1 (2 * ?t) c c1" using d1 by (auto simp: does_def)
  then show ?case
    unfolding ha_attempts.simps e
    using x d1 d2 mono [OF d1] mono [OF d2] again [of c1] again [of c2] m1 m2
    by (auto split: sum.split)
qed simp

section \<open>Errors, when no other task closes the link\<close>

definition ha_errors :: "exn set" where
  "ha_errors = {OSError, R60VConnectionError, ProtocolError, ValueError}"

lemma up_ha_drain:
  assumes "ha_drain c = (r, c')" "up c"
  shows "up c' \<and> (\<forall>e. r = Inl e \<longrightarrow> e \<in> ha_errors)"
  using assms up_absorb [OF assms(2)]
  by (auto simp: ha_drain_def next_hp_def ha_errors_def up_def alone_def Let_def split: if_splits)

lemma up_ha_exchange:
  assumes "ha_exchange frame c = (r, c')" "up c" "sendable frame"
  shows "up c' \<and> (\<forall>e. r = Inl e \<longrightarrow> e \<in> ha_errors)"
proof -
  obtain want where w: "0 \<le> want" "expected_response_len frame = Inr want" "ascii frame"
    using assms(3) by (auto simp: sendable_def)
  show ?thesis
  proof (rule up_tries [OF _ _ up_ha_drain _ w(1,3) _ assms(2)])
    show "tries (ha_parse_frame True) ha_drain want (nat (cn_max_retries c + 1)) frame c = (r, c')"
      using assms(1,2) w(2) by (simp add: ha_exchange_def exchange_with_def up_def)
  qed (auto simp: ha_errors_def dest: ha_parse_frame_errors)
qed

lemma alone_ha_connect:
  assumes "ha_connect c = (r, c')" "alone c"
  shows "alone c' \<and> (\<forall>e. r = Inl e \<longrightarrow> e \<in> link_errors \<union> {ValueError}) \<and> (r = Inr () \<longrightarrow> up c')"
proof -
  obtain r1 c1 where o: "open_link (drop_link c) = (r1, c1)" by (cases "open_link (drop_link c)")
  have 1: "alone c1" "\<And>e. r1 = Inl e \<Longrightarrow> e \<in> link_errors" "r1 = Inr () \<Longrightarrow> up c1"
    using alone_open_link [OF o] assms(2) by (auto simp: link_errors_def)
  show ?thesis
  proof (cases r1)
    case (Inl e)
    then show ?thesis using assms(1) o 1 by (auto simp: ha_connect_def connect_with_def)
  next
    case (Inr u)
    obtain r2 c2 where g: "read_greeting c1 = (r2, c2)" by (cases "read_greeting c1")
    have 2: "up c2" "\<And>e. r2 = Inl e \<Longrightarrow> e \<in> link_errors"
      using up_read_greeting [OF g] 1(3) Inr by (auto simp: link_errors_def)
    obtain frame where f: "build_read SETTINGS_BASE SETTINGS_LEN = Inr frame"
      by (auto simp: build_read_def build_frame_Inr)
    then have s: "sendable frame"
      using sendable_build_frame [OF _ is_addr_settings] by (auto simp: build_read_def)
    obtain r3 c3 where x: "ha_exchange frame c2 = (r3, c3)" by (cases "ha_exchange frame c2")
    have 3: "up c3" "\<And>e. r3 = Inl e \<Longrightarrow> e \<in> ha_errors"
      using up_ha_exchange [OF x 2(1) s] by auto
    show ?thesis
      using assms(1) o g x Inr 2 3 f
      by (auto simp: ha_connect_def connect_with_def warm_up_with_def up_def ha_errors_def
          link_errors_def split: sum.splits if_splits)
  qed
qed

lemma alone_ha_attempts:
  assumes "sendable frame"
  shows "ha_attempts n frame c = (Inl e, c') \<Longrightarrow> alone c \<Longrightarrow> n \<noteq> 0 \<Longrightarrow>
     e = R60VConnectionError \<and> cn_link c' = No_link \<or> e = ValueError"
proof (induction n arbitrary: c)
  case (Suc n)
  have again: ?case if "ha_attempts n frame (drop_link c2) = (Inl e, c')" "alone c2" for c2
    using Suc.IH [of "drop_link c2"] that by (cases n) auto
  obtain r1 c1 where o: "(if connected c then (Inr (), c) else ha_connect c) = (r1, c1)"
    by (cases "if connected c then (Inr (), c) else ha_connect c")
  have 1: "alone c1" "\<And>x. r1 = Inl x \<Longrightarrow> x \<in> link_errors \<union> {ValueError}" "r1 = Inr () \<Longrightarrow> up c1"
    using alone_ha_connect [of c r1 c1] o Suc.prems(2)
    by (auto simp: connected_def up_def split: if_splits)
  show ?case
  proof (cases r1)
    case (Inl x)
    then show ?thesis
      using Suc.prems(1) o 1 again [of c1] by (cases "x \<in> link_errors") auto
  next
    case (Inr u)
    obtain r2 c2 where x: "ha_exchange frame c1 = (r2, c2)" by (cases "ha_exchange frame c1")
    have 2: "up c2" "\<And>y. r2 = Inl y \<Longrightarrow> y \<in> ha_errors"
      using up_ha_exchange [OF x _ assms] 1(3) Inr by auto
    then obtain y where y: "r2 = Inl y" "y \<in> ha_errors"
      using Suc.prems(1) o Inr x by (cases r2) auto
    then show ?thesis
      using Suc.prems(1) o Inr x 2 again [of c2]
      by (cases "y \<in> request_errors") (auto simp: ha_errors_def request_errors_def up_def)
  qed
qed simp

section \<open>One exchange that is answered\<close>

lemma ha_drain_open:
  assumes "cn_link c = Link_open" "\<not> cn_eof c" "gap_passed c"
    and "hp_ending (cn_tape c (cn_pos c)) = Quiet" "\<not> hp_closed (cn_tape c (cn_pos c))"
  shows "\<exists>c'. ha_drain c = (Inr (), c') \<and> ready c' \<and> cn_pos c' = cn_pos c + 1
    \<and> cn_tape c' = cn_tape c \<and> cn_request_timeout c' = cn_request_timeout c"
  using assms by (auto simp: ha_drain_def next_hp_def absorb_def ready_def gap_passed_def
      hp_dt_def Let_def intro: add_increasing2)

lemma ha_exchange_answered:
  assumes frame: "ascii frame" "expected_response_len frame = Inr (int (length raw))"
    and raw: "raw \<noteq> []" "ascii raw" "0 \<le> cn_max_retries c"
    and c: "cn_link c = Link_open" "\<not> cn_eof c" "gap_passed c"
    and late: "hp_ending (cn_tape c (cn_pos c)) = Quiet" "\<not> hp_closed (cn_tape c (cn_pos c))"
    and sent: "silent (cn_tape c (cn_pos c + 1))"
    and ans: "cn_tape c (cn_pos c + 2) = \<lparr>hp_ms = m, hp_bytes = raw, hp_ending = Quiet, hp_closed = False\<rparr>"
      "of_nat m / 1000 < cn_request_timeout c"
  shows "\<exists>c'. ha_exchange frame c = (ha_parse_frame True raw, c') \<and> cn_link c' = Link_open
    \<and> cn_buf c' = []"
proof -
  obtain c1 where c1: "ha_drain c = (Inr (), c1)" "ready c1" "cn_pos c1 = cn_pos c + 1"
    "cn_tape c1 = cn_tape c" "cn_request_timeout c1 = cn_request_timeout c"
    using ha_drain_open [OF c late] by blast
  obtain n where n: "nat (cn_max_retries c + 1) = Suc n"
    using raw(3) by (metis Suc_nat_eq_nat_zadd1 add.commute)
  let ?c2 = "(send frame c1)\<lparr>cn_pos := cn_pos c1 + 1,
    cn_now := cn_now c1 + hp_dt (cn_tape c1 (cn_pos c1))\<rparr>"
  have d: "drain (send frame c1) = (Inr (), ?c2)"
    using c1 sent by (subst drain_silent) (auto simp: ready_def)
  obtain c3 where r: "readexactly (cn_request_timeout c1) (int (length raw)) ?c2 = (Inr raw, c3)"
    "cn_link c3 = Link_open" "cn_buf c3 = []"
    using readexactly_answer [of ?c2 raw m "cn_request_timeout c"] c1 raw(1) ans
    by (auto simp: ready_def)
  show ?thesis
    using c1 d r frame raw(2) c(1) unfolding ha_exchange_def exchange_with_def
    by (simp add: n pace_ready ready_def Let_def)
qed

section \<open>Properties\<close>

text \<open>C35: A read does not take late input as its answer when the pacing gap has passed, so
  that no sleep lies between discarding and sending. On an open link that no other task
  closes, whatever bytes of earlier replies are in the buffer, and whatever else arrives
  while the client discards them, if the line is then quiet while the request is sent and
  the machine's reply arrives whole within the timeout, the read returns exactly the data
  of that reply. Bytes that arrive during a pacing sleep are taken:
  \<open>late_reply_during_pace_taken\<close> below.\<close>

theorem ha_read_ignores_late_replies:
  assumes "is_addr a" "is_addr n" "length data = nat n" "list_all is_byte data"
    and "build_frame READ a n data = Inr reply" "0 \<le> cn_max_retries c"
    and "cn_link c = Link_open" "\<not> cn_eof c" "gap_passed c"
    and "hp_ending (cn_tape c (cn_pos c)) = Quiet" "\<not> hp_closed (cn_tape c (cn_pos c))"
    and "silent (cn_tape c (cn_pos c + 1))"
    and "cn_tape c (cn_pos c + 2) = \<lparr>hp_ms = m, hp_bytes = reply, hp_ending = Quiet, hp_closed = False\<rparr>"
    and "of_nat m / 1000 < cn_request_timeout c"
  shows "\<exists>c'. ha_read a n c = (Inr data, c') \<and> cn_buf c' = []"
proof -
  have rd: "READ \<in> {READ, WRITE}" by simp
  obtain frame where fr: "build_read a n = Inr frame" by (auto simp: build_read_def build_frame_Inr)
  then have bf: "build_frame READ a n [] = Inr frame" by (simp add: build_read_def)
  have af: "ascii frame" "ascii reply"
    using ascii_build_frame [OF rd _ _ bf] ascii_build_frame [OF rd _ _ assms(5)] assms(1,2)
    by (simp_all add: is_addr_def)
  have len: "int (length reply) = 11 + 2 * n"
    using assms(1-3,5) rd by (auto simp: build_frame_Inr READ_def is_addr_def)
  have "map (\<lambda>b. b AND 255) data = data" using assms(4) by (induction data) auto
  then obtain f where f: "parse_frame True reply = Inr f" "fr_data f = data"
    using parse_build_frame [OF rd assms(1,2,5), of True] by auto
  have "expected_response_len frame = Inr (int (length reply))"
    using expected_len_build_frame [OF rd assms(1,2) bf] len by simp
  moreover have "reply \<noteq> []" using len assms(2) by (auto simp: is_addr_def)
  moreover have "ha_parse_frame True reply = Inr f" using f(1) by (simp add: ha_parse_frame_Inr)
  ultimately obtain c' where "ha_exchange frame c = (Inr f, c')" "cn_buf c' = []"
    using ha_exchange_answered [OF af(1) _ _ af(2) assms(6-14)] by auto
  then have "ha_request frame c = (Inr f, c')"
    using assms(7) by (simp add: ha_request_def connected_def numeral_3_eq_3)
  then show ?thesis using fr f(2) \<open>cn_buf c' = []\<close> by (simp add: ha_read_def)
qed

text \<open>An open connection of the integration: a late acknowledgement in the buffer, more
  bytes arriving, then the answer.\<close>

definition ha_demo_conn :: "string \<Rightarrow> conn" where
  "ha_demo_conn reply =
     (ha_new_conn (demo_tape [arrives ''w004A'', arrives [], arrives reply]) 10)
       \<lparr>cn_link := Link_open, cn_buf := ''w004A0001OKA7''\<rparr>"

text \<open>The client discards late input before it paces. With the previous request just sent, a
  late reply that arrives during the sleep is taken for the reply to the read that
  follows: 85 is returned, and the register's 105 stays in the buffer.\<close>

definition pacing_conn :: conn where
  "pacing_conn =
     (ha_new_conn (demo_tape [arrives [], arrives ''rB0000001556F'', arrives [],
        arrives ''rB00000016974'']) 10)\<lparr>cn_link := Link_open, cn_last_at := 10\<rparr>"

lemma late_reply_during_pace_taken: "fst (ha_read 0xB000 1 pacing_conn) = Inr [85]"
  by code_simp

lemma ha_demo_simps [simp]:
  "cn_link (ha_demo_conn r) = Link_open" "\<not> cn_eof (ha_demo_conn r)" "gap_passed (ha_demo_conn r)"
  "cn_max_retries (ha_demo_conn r) = 3" "cn_request_timeout (ha_demo_conn r) = 4"
  "cn_pos (ha_demo_conn r) = 0"
  "cn_tape (ha_demo_conn r) = demo_tape [arrives ''w004A'', arrives [], arrives r]"
  by (simp_all add: ha_demo_conn_def ha_new_conn_def new_conn_def gap_passed_def)

theorem ha_read_ignores_late_replies_witness:
  "\<exists>c'. ha_read 0xB000 1 (ha_demo_conn ''rB00000016974'') = (Inr [0x69], c') \<and> cn_buf c' = []"
proof -
  have b: "build_frame READ 0xB000 1 [0x69] = Inr ''rB00000016974''" by code_simp
  show ?thesis
    by (rule ha_read_ignores_late_replies [OF _ _ _ _ b, where m = 10])
      (simp_all add: is_addr_def is_byte_def demo_tape_def arrives_def silent_def)
qed

text \<open>A reply whose data field is not hexadecimal, the sign of a stream out of step,
  escapes the request as a \<open>ValueError\<close>: it is neither retried nor is the link
  dropped, unlike every other fault of the protocol.\<close>

theorem ha_garbled_reply_escapes:
  assumes "ascii frame" "expected_response_len frame = Inr (int (length raw))"
    and "raw \<noteq> []" "ascii raw" "ha_parse_frame True raw = Inl ValueError" "0 \<le> cn_max_retries c"
    and "cn_link c = Link_open" "\<not> cn_eof c" "gap_passed c"
    and "hp_ending (cn_tape c (cn_pos c)) = Quiet" "\<not> hp_closed (cn_tape c (cn_pos c))"
    and "silent (cn_tape c (cn_pos c + 1))"
    and "cn_tape c (cn_pos c + 2) = \<lparr>hp_ms = m, hp_bytes = raw, hp_ending = Quiet, hp_closed = False\<rparr>"
    and "of_nat m / 1000 < cn_request_timeout c"
  shows "\<exists>c'. ha_request frame c = (Inl ValueError, c') \<and> cn_link c' = Link_open"
proof -
  obtain c' where c': "ha_exchange frame c = (Inl ValueError, c')" "cn_link c' = Link_open"
    using ha_exchange_answered [OF assms(1-4,6-14)] assms(5) by auto
  then have "ha_request frame c = (Inl ValueError, c')"
    using assms(7) by (simp add: ha_request_def connected_def numeral_3_eq_3 request_errors_def)
  with c'(2) show ?thesis by simp
qed

theorem ha_garbled_reply_escapes_witness:
  "\<exists>c'. ha_request ''rB000000105'' (ha_demo_conn ''rB0000001G07C'') = (Inl ValueError, c')
     \<and> cn_link c' = Link_open"
proof -
  have "ha_parse_frame True ''rB0000001G07C'' = Inl ValueError"
    "expected_response_len ''rB000000105'' = Inr (int (length ''rB0000001G07C''))"
    "ascii ''rB000000105''" "ascii ''rB0000001G07C''"
    by code_simp+
  then show ?thesis
    by (intro ha_garbled_reply_escapes [where raw = "''rB0000001G07C''" and m = 10])
      (simp_all add: demo_tape_def arrives_def silent_def)
qed

text \<open>C36: A request always comes back, after at most three connections and, with the
  warm-up of each, at most six times \<open>max_retries + 1\<close> frames, whatever the network
  does: the integration never keeps knocking on a wedged machine.\<close>

theorem ha_request_bounded:
  assumes "timeouts_ok c"
  shows "\<exists>new. cn_log (snd (ha_request frame c)) = cn_log c @ new
    \<and> count_list new Connected \<le> 3 \<and> length (send_times new) \<le> 6 * nat (cn_max_retries c + 1)"
  using does_ha_attempts [OF assms, of 3 frame] by (simp add: ha_request_def does_def)

theorem ha_request_bounded_witness:
  "\<exists>new. cn_log (snd (ha_request ''rB000000105'' (ha_new_conn (demo_tape []) 10)))
      = cn_log (ha_new_conn (demo_tape []) 10) @ new
    \<and> count_list new Connected \<le> 3
    \<and> length (send_times new) \<le> 6 * nat (cn_max_retries (ha_new_conn (demo_tape []) 10) + 1)"
  by (rule ha_request_bounded) (simp add: timeouts_ok_def ha_new_conn_def new_conn_def)

text \<open>As long as no other task closes the link, a request for a frame of the builders
  fails with nothing but \<open>R60VConnectionError\<close>, the link being closed, or with the
  \<open>ValueError\<close> of a garbled reply.\<close>

theorem ha_request_errors:
  assumes "sendable frame" "alone c" "ha_request frame c = (Inl e, c')"
  shows "e = R60VConnectionError \<and> cn_link c' = No_link \<or> e = ValueError"
  using alone_ha_attempts [OF assms(1) _ assms(2), of 3 e c'] assms(3) by (simp add: ha_request_def)

theorem ha_request_errors_witness:
  "\<exists>e c'. ha_request ''r00000001F3'' (ha_new_conn (\<lambda>_. (arrives [])\<lparr>hp_ending := Broken\<rparr>) 10)
      = (Inl e, c') \<and> (e = R60VConnectionError \<and> cn_link c' = No_link \<or> e = ValueError)"
proof -
  let ?c = "ha_new_conn (\<lambda>_. (arrives [])\<lparr>hp_ending := Broken\<rparr>) 10"
  have "isl (fst (ha_request ''r00000001F3'' ?c))" by code_simp
  then obtain e c' where r: "ha_request ''r00000001F3'' ?c = (Inl e, c')"
    by (cases "ha_request ''r00000001F3'' ?c") (auto simp: isl_def)
  have a: "alone ?c" by (simp add: alone_def ha_new_conn_def new_conn_def arrives_def)
  have b: "build_frame READ 0 1 [] = Inr ''r00000001F3''" by code_simp
  have s: "sendable ''r00000001F3''"
    by (rule sendable_build_frame [OF _ _ _ b]) (simp_all add: is_addr_def)
  show ?thesis using ha_request_errors [OF s a r] r by blast
qed

end
