(* ===== verification/HaEntities.thy ===== *)
theory HaEntities
  imports HaProtocol State
begin

text \<open>
  The integration's semantic layer, \<open>custom_components/rocket_r60v/entities.py\<close>: the
  snapshot it decodes (settings, live registers, and the bridge's verdict on the
  machine), the decoders to native Home Assistant values, the encoders back to protocol
  writes, the codec of the pressure profiles, the parser of the front-panel text, and
  the tables of entities and thermostats. A value an entity shows or accepts is a
  \<open>haval\<close>. The theories \<open>HaProfile\<close>, \<open>HaDisplay\<close> and \<open>HaSurfaces\<close> prove facts on them.
\<close>

section \<open>The snapshot\<close>

record ha_snapshot =
  hs_settings :: "int list"
  hs_live :: "(int \<times> int list) list"
  hs_available :: bool

definition ha_le16 :: "int list \<Rightarrow> int \<Rightarrow> int" where
  "ha_le16 data offset =
     (if int (length data) \<le> offset + 1 then 0
      else (data ! nat offset AND 255) OR push_bit 8 (data ! nat (offset + 1) AND 255))"

definition ha_settings_byte :: "ha_snapshot \<Rightarrow> int \<Rightarrow> int" where
  "ha_settings_byte s address =
     (if address < int (length (hs_settings s)) then hs_settings s ! nat address AND 255 else 0)"

definition ha_settings_block :: "ha_snapshot \<Rightarrow> int \<Rightarrow> int \<Rightarrow> int list" where
  "ha_settings_block s address len =
     map (\<lambda>i. ha_settings_byte s (address + int i)) [0..<nat len]"

definition ha_live_bytes :: "ha_snapshot \<Rightarrow> int \<Rightarrow> int list" where
  "ha_live_bytes s address = (case map_of (hs_live s) address of None \<Rightarrow> [] | Some d \<Rightarrow> d)"

section \<open>Values\<close>

datatype haval =
    HBool bool
  | HInt int
  | HFloat rat
  | HStr string
  | HTime int int
  | HNone

text \<open>Python's truth value of each, and the values the types themselves allow: a
  \<open>datetime.time\<close> cannot hold an hour or a minute out of range.\<close>

fun truthy :: "haval \<Rightarrow> bool" where
  "truthy (HBool b) \<longleftrightarrow> b"
| "truthy (HInt n) \<longleftrightarrow> n \<noteq> 0"
| "truthy (HFloat x) \<longleftrightarrow> x \<noteq> 0"
| "truthy (HStr s) \<longleftrightarrow> s \<noteq> []"
| "truthy (HTime h m) \<longleftrightarrow> True"
| "truthy HNone \<longleftrightarrow> False"

fun valid_haval :: "haval \<Rightarrow> bool" where
  "valid_haval (HTime h m) \<longleftrightarrow> 0 \<le> h \<and> h \<le> 23 \<and> 0 \<le> m \<and> m \<le> 59"
| "valid_haval _ \<longleftrightarrow> True"

section \<open>Decoders\<close>

type_synonym ha_decoder = "ha_snapshot \<Rightarrow> haval res"
type_synonym ha_encoder = "haval \<Rightarrow> write_op res"

definition live_byte :: "int \<Rightarrow> ha_snapshot \<Rightarrow> int" where
  "live_byte address s =
     (let data = ha_live_bytes s address in if data \<noteq> [] then hd data else 0)"

definition live_decibar :: "int \<Rightarrow> ha_decoder" where
  "live_decibar address s =
     (let data = ha_live_bytes s address
      in Inr (HFloat (fl (of_int (if data \<noteq> [] then hd data else 0) / 10))))"

definition live_text :: "int \<Rightarrow> ha_snapshot \<Rightarrow> string res" where
  "live_text address s =
     bind_res (py_bytes (ha_live_bytes s address))
       (\<lambda>bs. Inr (rstrip_by is_pad (decode_ascii bs)))"

definition bool_on_zero :: "int \<Rightarrow> ha_decoder" where
  "bool_on_zero address s = Inr (HBool (ha_settings_byte s address = 0))"

definition bool_on_nonzero :: "int \<Rightarrow> ha_decoder" where
  "bool_on_nonzero address s = Inr (HBool (ha_settings_byte s address \<noteq> 0))"

definition ha_enum :: "int \<Rightarrow> string list \<Rightarrow> ha_decoder" where
  "ha_enum address options s =
     (let idx = ha_settings_byte s address
      in Inr (if 0 \<le> idx \<and> idx < int (length options) then HStr (options ! nat idx) else HNone))"

definition ha_time :: "int \<Rightarrow> int \<Rightarrow> ha_decoder" where
  "ha_time hour_address minute_address s =
     (let hour = ha_settings_byte s hour_address; minute = ha_settings_byte s minute_address
      in Inr (if 0 \<le> hour \<and> hour \<le> 23 \<and> 0 \<le> minute \<and> minute \<le> 59
              then HTime hour minute else HNone))"

section \<open>Encoders\<close>

text \<open>A value of another type has no \<open>.hour\<close>; an option list holds strings only.\<close>

definition ha_encode_time :: "int \<Rightarrow> ha_encoder" where
  "ha_encode_time hour_address value =
     (case value of HTime hour minute \<Rightarrow> Inr (hour_address, [hour, minute])
      | _ \<Rightarrow> Inl AttributeError)"

definition ha_encode_bool :: "int \<Rightarrow> int \<Rightarrow> int \<Rightarrow> ha_encoder" where
  "ha_encode_bool address on_value off_value value =
     Inr (address, [if truthy value then on_value else off_value])"

definition ha_encode_enum :: "int \<Rightarrow> string list \<Rightarrow> ha_encoder" where
  "ha_encode_enum address options option =
     (case option of
        HStr s \<Rightarrow>
          (case index_of options s of None \<Rightarrow> Inl ValueError | Some idx \<Rightarrow> Inr (address, [int idx]))
      | _ \<Rightarrow> Inl ValueError)"

section \<open>The built-in timers\<close>

definition timer_time :: "ha_snapshot \<Rightarrow> int \<Rightarrow> int \<Rightarrow> (int \<times> int) option" where
  "timer_time s hour_address minute_address =
     (let hour = ha_settings_byte s hour_address; minute = ha_settings_byte s minute_address
      in if 0 \<le> hour \<and> hour \<le> 23 \<and> 0 \<le> minute \<and> minute \<le> 59 then Some (hour, minute) else None)"

definition encode_timer :: "int \<Rightarrow> (int \<times> int) option \<Rightarrow> write_op" where
  "encode_timer hour_address value =
     (case value of None \<Rightarrow> (hour_address, [TIMER_DISABLED, TIMER_DISABLED])
      | Some (hour, minute) \<Rightarrow> (hour_address, [hour, minute]))"

record timer_switch =
  ts_key :: string
  ts_name :: string
  ts_hour_address :: int
  ts_minute_address :: int
  ts_default :: "int \<times> int"
  ts_icon :: string

definition TIMER_SWITCHES :: "timer_switch list" where
  "TIMER_SWITCHES =
     [\<lparr>ts_key = ''auto_on_enabled'', ts_name = ''Auto-On Timer'',
       ts_hour_address = AUTO_ON_HOUR, ts_minute_address = AUTO_ON_MINUTE, ts_default = (6, 0),
       ts_icon = ''mdi:clock-check-outline''\<rparr>,
      \<lparr>ts_key = ''auto_off_enabled'', ts_name = ''Auto-Off Timer'',
       ts_hour_address = AUTO_OFF_HOUR, ts_minute_address = AUTO_OFF_MINUTE, ts_default = (22, 0),
       ts_icon = ''mdi:clock-remove-outline''\<rparr>]"

section \<open>Pressure profiles\<close>

text \<open>A block is five little-endian deciseconds followed by five decibars. The text
  \<open>str(text)\<close> of a value that is not a string never has the form \<open>seconds:bar\<close>.\<close>

fun join_sp :: "string list \<Rightarrow> string" where
  "join_sp [] = []"
| "join_sp [w] = w"
| "join_sp (w # ws) = w @ CHR '' '' # join_sp ws"

definition profile_step :: "int list \<Rightarrow> nat \<Rightarrow> string res" where
  "profile_step block i =
     bind_res (py_item block (int i * 2)) (\<lambda>lo.
     bind_res (py_item block (int i * 2 + 1)) (\<lambda>hi.
     let seconds = fl (of_int (lo + push_bit 8 hi) / 10) in
     bind_res (py_item block (10 + int i)) (\<lambda>b.
     let bar = fl (of_int b / 10) in
       Inr (fmt_num seconds @ '':'' @ fmt_num bar))))"

definition decode_profile :: "int list \<Rightarrow> string res" where
  "decode_profile block =
     bind_res (map_res (profile_step block) [0..<PROFILE_STEPS]) (\<lambda>steps. Inr (join_sp steps))"

definition parse_step :: "string \<Rightarrow> (int \<times> int) res" where
  "parse_step step =
     (case split_on (CHR '':'') step of
        [a, b] \<Rightarrow>
          bind_res (py_float a) (\<lambda>x. let seconds = py_round1 x in
          bind_res (py_float b) (\<lambda>y. let bar = py_round1 y in
          if \<not> in_range (fst PROFILE_TIMING_RANGE) (snd PROFILE_TIMING_RANGE) seconds
          then Inl ValueError
          else if \<not> in_range (fst PROFILE_PRESSURE_RANGE) (snd PROFILE_PRESSURE_RANGE) bar
          then Inl ValueError
          else bind_res (py_round (mul10 seconds)) (\<lambda>deciseconds.
               bind_res (py_round (mul10 bar)) (\<lambda>decibar. Inr (deciseconds, decibar)))))
      | _ \<Rightarrow> Inl ValueError)"

definition encode_profile :: "string \<Rightarrow> int list res" where
  "encode_profile txt =
     (let raw = strip txt; steps = (if raw \<noteq> [] then split_ws raw else []) in
      if PROFILE_STEPS < length steps then Inl ValueError
      else bind_res (map_res parse_step steps) (\<lambda>ps.
        let missing = PROFILE_STEPS - length steps;
            t_lo_hi = concat (map (\<lambda>(t, _). [t AND 255, drop_bit 8 t AND 255]) ps);
            pressures = map snd ps
        in Inr ((t_lo_hi @ concat (replicate missing [0, 0])) @ pressures @ replicate missing 0)))"

definition decode_profile_at :: "int \<Rightarrow> ha_decoder" where
  "decode_profile_at address s =
     bind_res (decode_profile (ha_settings_block s address PROFILE_LEN)) (\<lambda>t. Inr (HStr t))"

definition encode_profile_at :: "int \<Rightarrow> ha_encoder" where
  "encode_profile_at address value =
     (case value of
        HStr t \<Rightarrow> bind_res (encode_profile t) (\<lambda>block. Inr (address, block))
      | _ \<Rightarrow> Inl ValueError)"

section \<open>The table of entities\<close>

record ha_entity =
  he_key :: string
  he_name :: string
  he_platform :: string
  he_decode :: ha_decoder
  he_encode :: "ha_encoder option"
  he_options :: "string list option"
  he_icon :: "string option"
  he_icon_map :: "(string \<times> string) list option"
  he_max_length :: "nat option"
  he_unit :: "string option"
  he_device_class :: "string option"
  he_state_class :: "string option"
  he_precision :: "nat option"

definition he_writable :: "ha_entity \<Rightarrow> bool" where
  "he_writable e \<longleftrightarrow> he_encode e \<noteq> None"

definition icon_for :: "ha_entity \<Rightarrow> haval \<Rightarrow> string option" where
  "icon_for e value =
     (case (he_icon_map e, value) of
        (Some m, HStr s) \<Rightarrow> (case map_of m s of None \<Rightarrow> he_icon e | Some i \<Rightarrow> Some i)
      | _ \<Rightarrow> he_icon e)"

definition TEMP_UNIT_ICONS :: "(string \<times> string) list" where
  "TEMP_UNIT_ICONS =
     [(''celsius'', ''mdi:temperature-celsius''), (''fahrenheit'', ''mdi:temperature-fahrenheit'')]"

definition WATER_FEED_ICONS :: "(string \<times> string) list" where
  "WATER_FEED_ICONS = [(''tank'', ''mdi:cup-water''), (''mains'', ''mdi:pipe-valve'')]"

definition HaEntity :: "string \<Rightarrow> string \<Rightarrow> string \<Rightarrow> ha_decoder \<Rightarrow> ha_encoder option \<Rightarrow> string
    \<Rightarrow> ha_entity" where
  "HaEntity key name platform decode encode icon =
     \<lparr>he_key = key, he_name = name, he_platform = platform, he_decode = decode,
      he_encode = encode, he_options = None, he_icon = Some icon, he_icon_map = None,
      he_max_length = None, he_unit = None, he_device_class = None, he_state_class = None,
      he_precision = None\<rparr>"

definition HA_ENTITIES :: "ha_entity list" where
  "HA_ENTITIES =
     [(HaEntity ''current_pressure'' ''Brew Pressure'' ''sensor''
        (live_decibar CURRENT_PRESSURE) None ''mdi:gauge'')
        \<lparr>he_unit := Some ''bar'', he_device_class := Some ''pressure'',
          he_state_class := Some ''measurement'', he_precision := Some 1\<rparr>,
      HaEntity ''display'' ''Display'' ''sensor''
        (\<lambda>s. bind_res (live_text DISPLAY s) (\<lambda>t. Inr (HStr t))) None ''mdi:card-text'',
      (HaEntity ''total_coffee_count'' ''Total Coffee Count'' ''sensor''
        (\<lambda>s. Inr (HInt (ha_le16 (hs_settings s) TOTAL_COFFEE_COUNT))) None ''mdi:counter'')
        \<lparr>he_state_class := Some ''total_increasing''\<rparr>,
      HaEntity ''power'' ''Power'' ''switch''
        (bool_on_zero STANDBY) (Some (ha_encode_bool STANDBY 0 1)) ''mdi:power'',
      HaEntity ''service_boiler'' ''Steam Boiler'' ''switch''
        (bool_on_nonzero SERVICE_BOILER_ENABLE)
        (Some (ha_encode_bool SERVICE_BOILER_ENABLE 1 0)) ''mdi:kettle-steam'',
      (HaEntity ''active_profile'' ''Pressure Profile'' ''select''
        (ha_enum ACTIVE_PROFILE PROFILE_OPTIONS)
        (Some (ha_encode_enum ACTIVE_PROFILE PROFILE_OPTIONS)) ''mdi:chart-bell-curve'')
        \<lparr>he_options := Some PROFILE_OPTIONS\<rparr>,
      (HaEntity ''water_feed'' ''Water Source'' ''select''
        (ha_enum WATER_FEED WATER_FEED_OPTIONS)
        (Some (ha_encode_enum WATER_FEED WATER_FEED_OPTIONS)) ''mdi:water'')
        \<lparr>he_options := Some WATER_FEED_OPTIONS, he_icon_map := Some WATER_FEED_ICONS\<rparr>,
      (HaEntity ''temperature_unit'' ''Temperature Unit'' ''select''
        (ha_enum TEMPERATURE_UNIT TEMP_UNIT_OPTIONS)
        (Some (ha_encode_enum TEMPERATURE_UNIT TEMP_UNIT_OPTIONS)) ''mdi:thermometer'')
        \<lparr>he_options := Some TEMP_UNIT_OPTIONS, he_icon_map := Some TEMP_UNIT_ICONS\<rparr>,
      (HaEntity ''language'' ''Language'' ''select''
        (ha_enum LANGUAGE LANGUAGE_OPTIONS)
        (Some (ha_encode_enum LANGUAGE LANGUAGE_OPTIONS)) ''mdi:translate'')
        \<lparr>he_options := Some LANGUAGE_OPTIONS\<rparr>,
      HaEntity ''auto_on'' ''Auto-On Time'' ''time''
        (ha_time AUTO_ON_HOUR AUTO_ON_MINUTE) (Some (ha_encode_time AUTO_ON_HOUR))
        ''mdi:clock-start'',
      HaEntity ''auto_off'' ''Auto-Off Time'' ''time''
        (ha_time AUTO_OFF_HOUR AUTO_OFF_MINUTE) (Some (ha_encode_time AUTO_OFF_HOUR))
        ''mdi:clock-end'',
      (HaEntity ''profile_a'' ''Pressure Profile A'' ''text''
        (decode_profile_at PROFILE_A) (Some (encode_profile_at PROFILE_A))
        ''mdi:chart-bell-curve'')\<lparr>he_max_length := Some 64\<rparr>,
      (HaEntity ''profile_b'' ''Pressure Profile B'' ''text''
        (decode_profile_at PROFILE_B) (Some (encode_profile_at PROFILE_B))
        ''mdi:chart-bell-curve'')\<lparr>he_max_length := Some 64\<rparr>,
      (HaEntity ''profile_c'' ''Pressure Profile C'' ''text''
        (decode_profile_at PROFILE_C) (Some (encode_profile_at PROFILE_C))
        ''mdi:chart-bell-curve'')\<lparr>he_max_length := Some 64\<rparr>]"

definition HA_ENTITIES_BY_KEY :: "(string \<times> ha_entity) list" where
  "HA_ENTITIES_BY_KEY = map (\<lambda>e. (he_key e, e)) HA_ENTITIES"

definition entities_for_platform :: "string \<Rightarrow> ha_entity list" where
  "entities_for_platform platform = filter (\<lambda>e. he_platform e = platform) HA_ENTITIES"

section \<open>The front-panel text\<close>

definition is_fahrenheit :: "ha_snapshot \<Rightarrow> bool" where
  "is_fahrenheit s \<longleftrightarrow> ha_settings_byte s TEMPERATURE_UNIT = 1"

text \<open>\<open>round((value - 32) / 1.8)\<close> in binary64.\<close>

definition machine_to_celsius :: "int \<Rightarrow> bool \<Rightarrow> int" where
  "machine_to_celsius value fahrenheit =
     (if fahrenheit then rhe (fl (of_int (value - 32) / fl (18 / 10))) else value)"

text \<open>The pattern \<open>BREW\s*BOIL\.?\s*(\d{1,3})\s*\*?\s*([CF])\<close> without regard to case:
  no part can give characters back to the one before it, so one pass decides a match at
  a position, and \<open>search\<close> takes the leftmost.\<close>

fun eat :: "string \<Rightarrow> string \<Rightarrow> string option" where
  "eat [] s = Some s"
| "eat (p # ps) [] = None"
| "eat (p # ps) (c # s) = (if upper_char c = p then eat ps s else None)"

definition skip_char :: "char \<Rightarrow> string \<Rightarrow> string" where
  "skip_char p s = (if s \<noteq> [] \<and> hd s = p then tl s else s)"

definition brew_match :: "string \<Rightarrow> (int \<times> bool) option" where
  "brew_match s =
     (case eat ''BREW'' s of None \<Rightarrow> None
      | Some s1 \<Rightarrow>
          (case eat ''BOIL'' (dropWhile is_ws s1) of None \<Rightarrow> None
           | Some s2 \<Rightarrow>
               let s3 = dropWhile is_ws (skip_char (CHR ''.'') s2);
                   ds = takeWhile is_digit s3;
                   s4 = dropWhile is_digit s3;
                   s5 = dropWhile is_ws (skip_char (CHR ''*'') (dropWhile is_ws s4))
               in if ds = [] \<or> 3 < length ds \<or> s5 = [] then None
                  else let u = upper_char (hd s5) in
                    if u = CHR ''C'' \<or> u = CHR ''F''
                    then Some (int (value_of 10 (map digit_val ds)), u = CHR ''F'') else None))"

fun search_first :: "(string \<Rightarrow> 'a option) \<Rightarrow> string \<Rightarrow> 'a option" where
  "search_first f [] = f []"
| "search_first f (c # s) = (case f (c # s) of Some x \<Rightarrow> Some x | None \<Rightarrow> search_first f s)"

definition parse_display_brew_temp :: "string \<Rightarrow> (int \<times> bool) option" where
  "parse_display_brew_temp display = search_first brew_match display"

section \<open>The thermostats\<close>

record ha_climate =
  hc_key :: string
  hc_name :: string
  hc_current_address :: int
  hc_setpoint_address :: int
  hc_is_on :: "ha_snapshot \<Rightarrow> bool"
  hc_power_address :: int
  hc_power_on :: int
  hc_power_off :: int
  hc_range_c :: "int \<times> int"
  hc_temp_step :: int
  hc_icon :: string
  hc_display_current :: bool

definition current_c :: "ha_climate \<Rightarrow> ha_snapshot \<Rightarrow> int res" where
  "current_c c s =
     (if hc_display_current c then
        bind_res (live_text DISPLAY s) (\<lambda>display.
          case parse_display_brew_temp display of
            Some (value, is_f) \<Rightarrow> Inr (machine_to_celsius value is_f)
          | None \<Rightarrow> Inr (live_byte (hc_current_address c) s))
      else Inr (live_byte (hc_current_address c) s))"

definition target_c :: "ha_climate \<Rightarrow> ha_snapshot \<Rightarrow> int" where
  "target_c c s = ha_settings_byte s (hc_setpoint_address c)"

definition encode_setpoint :: "ha_climate \<Rightarrow> pyfloat \<Rightarrow> ha_snapshot \<Rightarrow> write_op res" where
  "encode_setpoint c celsius s =
     (let (lo, hi) = hc_range_c c in
      bind_res (py_round celsius) (\<lambda>cvalue.
        if lo \<le> cvalue \<and> cvalue \<le> hi then Inr (hc_setpoint_address c, [cvalue])
        else Inl ValueError))"

definition encode_power :: "ha_climate \<Rightarrow> bool \<Rightarrow> write_op" where
  "encode_power c on = (hc_power_address c, [if on then hc_power_on c else hc_power_off c])"

definition brew_is_on :: "ha_snapshot \<Rightarrow> bool" where
  "brew_is_on s \<longleftrightarrow> ha_settings_byte s STANDBY = 0"

definition steam_is_on :: "ha_snapshot \<Rightarrow> bool" where
  "steam_is_on s \<longleftrightarrow> ha_settings_byte s STANDBY = 0 \<and> ha_settings_byte s SERVICE_BOILER_ENABLE \<noteq> 0"

definition HA_CLIMATE_ENTITIES :: "ha_climate list" where
  "HA_CLIMATE_ENTITIES =
     [\<lparr>hc_key = ''brew_boiler'', hc_name = ''Brew Boiler'',
       hc_current_address = CURRENT_BREW_TEMP, hc_setpoint_address = BREW_BOILER_TEMP,
       hc_is_on = brew_is_on, hc_power_address = STANDBY, hc_power_on = 0, hc_power_off = 1,
       hc_range_c = BREW_TEMP_RANGE_C, hc_temp_step = 1, hc_icon = ''mdi:coffee-maker'',
       hc_display_current = True\<rparr>,
      \<lparr>hc_key = ''steam_boiler'', hc_name = ''Steam Boiler'',
       hc_current_address = CURRENT_SERVICE_TEMP, hc_setpoint_address = SERVICE_BOILER_TEMP,
       hc_is_on = steam_is_on, hc_power_address = SERVICE_BOILER_ENABLE, hc_power_on = 1,
       hc_power_off = 0, hc_range_c = SERVICE_TEMP_RANGE_C, hc_temp_step = 1,
       hc_icon = ''mdi:kettle-steam'', hc_display_current = False\<rparr>]"

definition HA_CLIMATE_BY_KEY :: "(string \<times> ha_climate) list" where
  "HA_CLIMATE_BY_KEY = map (\<lambda>c. (hc_key c, c)) HA_CLIMATE_ENTITIES"

end
