(* ===== verification/HaHealth.thy ===== *)
theory HaHealth
  imports Json
begin

text \<open>
  The bridge-health back-channel, \<open>custom_components/rocket_r60v/bridge_health.py\<close>. The
  answer of the HTTP client is an argument: a transport error, or a status with the
  decoded body. A timestamp (\<open>last_recovery\<close>, \<open>updated\<close>) is kept as the text that is
  given to \<open>datetime.fromisoformat\<close>; who shows it parses it.
\<close>

section \<open>Reading the endpoint's object\<close>

definition SUPPORTED_SCHEMAS :: "int set" where
  "SUPPORTED_SCHEMAS = {1}"

text \<open>\<open>int(x)\<close> of a float truncates, and raises on an infinity or NaN, both of which
  \<open>json.loads\<close> accepts.\<close>

fun py_trunc :: "pyfloat \<Rightarrow> int res" where
  "py_trunc (Fin x) = Inr (if 0 \<le> x then \<lfloor>x\<rfloor> else \<lceil>x\<rceil>)"
| "py_trunc (Inf _) = Inl OverflowError"
| "py_trunc NaN = Inl ValueError"

fun health_int :: "json \<Rightarrow> int option res" where
  "health_int (JInt n) = Inr (Some n)"
| "health_int (JFloat x) = bind_res (py_trunc x) (\<lambda>n. Inr (Some n))"
| "health_int _ = Inr None"

fun health_str :: "json \<Rightarrow> string option" where
  "health_str (JStr s) = Some s"
| "health_str _ = None"

text \<open>\<open>_parse_iso\<close>, before the call of \<open>fromisoformat\<close>: every \<open>Z\<close> is read as UTC.\<close>

definition replace_z :: "string \<Rightarrow> string" where
  "replace_z s = concat (map (\<lambda>c. if c = CHR ''Z'' then ''+00:00'' else [c]) s)"

definition iso_text :: "json \<Rightarrow> string option" where
  "iso_text v = (case v of JStr s \<Rightarrow> if s = [] then None else Some (replace_z s) | _ \<Rightarrow> None)"

text \<open>The parser is given; \<open>None\<close> when it raises its \<open>ValueError\<close>.\<close>

definition parse_iso :: "(string \<Rightarrow> 'dt option) \<Rightarrow> string option \<Rightarrow> 'dt option" where
  "parse_iso fromisoformat text = Option.bind text fromisoformat"

record bridge_health =
  bh_available :: bool
  bh_schema :: "int option"
  bh_link_up :: bool
  bh_ssid :: "string option"
  bh_signal :: "int option"
  bh_ip :: "string option"
  bh_machine_reachable :: bool
  bh_ap_visible :: bool
  bh_machine_powered_off :: bool
  bh_diagnostic_window :: bool
  bh_link_uptime_s :: "int option"
  bh_recoveries_total :: "int option"
  bh_last_recovery :: "string option"
  bh_stale :: bool
  bh_updated :: "string option"

definition from_json :: "(string \<times> json) list \<Rightarrow> bridge_health res" where
  "from_json data =
     (let flag = (\<lambda>k. json_true (json_get data k JNull)) in
      bind_res (health_int (json_get data ''schema'' JNull)) (\<lambda>schema.
      bind_res (health_int (json_get data ''signal'' JNull)) (\<lambda>signal.
      bind_res (health_int (json_get data ''link_uptime_s'' JNull)) (\<lambda>uptime.
      bind_res (health_int (json_get data ''recoveries_total'' JNull)) (\<lambda>recoveries.
        Inr \<lparr>bh_available = json_true (json_get data ''available'' (JBool True)),
             bh_schema = schema,
             bh_link_up = flag ''link_up'',
             bh_ssid = health_str (json_get data ''ssid'' JNull),
             bh_signal = signal,
             bh_ip = health_str (json_get data ''ip'' JNull),
             bh_machine_reachable = flag ''machine_reachable'',
             bh_ap_visible = flag ''ap_visible'',
             bh_machine_powered_off = flag ''machine_powered_off'',
             bh_diagnostic_window = flag ''diagnostic_window'',
             bh_link_uptime_s = uptime,
             bh_recoveries_total = recoveries,
             bh_last_recovery = iso_text (json_get data ''last_recovery'' JNull),
             bh_stale = flag ''stale'',
             bh_updated = iso_text (json_get data ''updated'' JNull)\<rparr>)))))"

definition usable :: "bridge_health \<Rightarrow> bool" where
  "usable h \<longleftrightarrow>
     bh_available h
     \<and> (case bh_schema h of None \<Rightarrow> False | Some n \<Rightarrow> n \<in> SUPPORTED_SCHEMAS)
     \<and> \<not> bh_stale h"

definition blocking :: "bridge_health \<Rightarrow> bool" where
  "blocking h \<longleftrightarrow> usable h \<and> (bh_diagnostic_window h \<or> \<not> bh_link_up h)"

section \<open>Fetching it\<close>

text \<open>What the HTTP client gives: an exception of the request, or a status and, when the
  body is read, its JSON value or the exception that reading it raises.\<close>

type_synonym fetched = "(int \<times> json res) res"

definition fetch_errors :: "exn set" where
  "fetch_errors = {ClientError, TimeoutError, ValueError}"

definition fetch_bridge_health :: "fetched \<Rightarrow> bridge_health option res" where
  "fetch_bridge_health r =
     (case r of
        Inl e \<Rightarrow> if e \<in> fetch_errors then Inr None else Inl e
      | Inr (status, body) \<Rightarrow>
          if status \<noteq> 200 then Inr None
          else
            (case body of
               Inl e \<Rightarrow> if e \<in> fetch_errors then Inr None else Inl e
             | Inr (JObj data) \<Rightarrow> bind_res (from_json data) (\<lambda>h. Inr (Some h))
             | Inr _ \<Rightarrow> Inr None))"

section \<open>Facts\<close>

lemma blocking_cases:
  assumes "fetch_bridge_health r = Inr (Some h)" "blocking h"
  shows "\<exists>data. r = Inr (200, Inr (JObj data))
    \<and> json_true (json_get data ''available'' (JBool True))
    \<and> health_int (json_get data ''schema'' JNull) = Inr (Some 1)
    \<and> \<not> json_true (json_get data ''stale'' JNull)
    \<and> (json_true (json_get data ''diagnostic_window'' JNull)
       \<or> \<not> json_true (json_get data ''link_up'' JNull))"
  using assms
  by (auto simp: fetch_bridge_health_def from_json_def blocking_def usable_def
      SUPPORTED_SCHEMAS_def bind_res_eq_Inr Let_def
      split: sum.splits prod.splits if_splits json.splits option.splits)

end
