(* ===== verification/HaCoordinator.thy ===== *)
theory HaCoordinator
  imports HaClient HaEntities HaHealth Wedge
begin

text \<open>
  The coordinator of the integration, \<open>custom_components/rocket_r60v/coordinator.py\<close>: in
  push mode a consumer that never touches the machine, in polling mode the poller with
  its tolerance of transient failures and the cooldown that mirrors the bridge's. The
  client and its connection are part of the state; the HTTP answers of the health
  endpoint are a tape, and the wall clock is an arbitrary function of the monotonic
  one, since \<open>utcnow\<close> may be stepped. Calls to methods of Home Assistant's base class
  are recorded as events: what the base class does with them is not in this program.
  Handlers of other tasks run between the operations here, not inside one of them; what
  other tasks do to the connection during an await is in the client's happenings.
\<close>

section \<open>State\<close>

definition UPDATE_INTERVAL :: time where
  "UPDATE_INTERVAL = 30"

definition FAILURE_TOLERANCE :: nat where
  "FAILURE_TOLERANCE = 5"

definition HA_COOLDOWN_STEPS :: "time list" where
  "HA_COOLDOWN_STEPS = [5 * 60, 10 * 60, 20 * 60, 30 * 60]"

definition HA_RESUME_AFTER_PROBES :: nat where
  "HA_RESUME_AFTER_PROBES = 2"

definition STATE_CONNECTED :: string where
  "STATE_CONNECTED = ''connected''"

definition STATE_RECONNECTING :: string where
  "STATE_RECONNECTING = ''reconnecting''"

definition STATE_COOLDOWN :: string where
  "STATE_COOLDOWN = ''cooldown''"

definition STATE_MACHINE_UNAVAILABLE :: string where
  "STATE_MACHINE_UNAVAILABLE = ''machine_unavailable''"

definition STATE_BRIDGE_DOWN :: string where
  "STATE_BRIDGE_DOWN = ''bridge_down''"

definition STATE_BRIDGE_RECOVERING :: string where
  "STATE_BRIDGE_RECOVERING = ''bridge_recovering''"

text \<open>Calls of the base class, and the command channel of the push client: whether its
  socket is open, how its sends end, and what was sent.\<close>

datatype base_call = Request_refresh | Set_updated_data ha_snapshot | Set_update_error | Update_listeners

record channel =
  ch_open :: bool
  ch_outcome :: "nat \<Rightarrow> unit res"
  ch_sent :: "json list"

record coordinator =
  co_push_enabled :: bool
  co_update_interval :: "time option"
  co_client :: conn
  co_utc :: "time \<Rightarrow> time"
  co_failures :: nat
  co_cooldown_until :: "time option"
  co_cooldown_index :: nat
  co_probe_successes :: nat
  co_health_url :: "string option"
  co_fetcher :: "(nat \<Rightarrow> fetched) option"
  co_fetches :: nat
  co_bridge :: "bridge_health option"
  co_channel :: "channel option"
  co_data :: "ha_snapshot option"
  co_last_update_success :: bool
  co_calls :: "base_call list"

definition new_coordinator :: "conn \<Rightarrow> (time \<Rightarrow> time) \<Rightarrow> string option \<Rightarrow> (nat \<Rightarrow> fetched) option
    \<Rightarrow> bool \<Rightarrow> coordinator" where
  "new_coordinator client utc url fetcher push_enabled =
     \<lparr>co_push_enabled = push_enabled,
      co_update_interval = (if push_enabled then None else Some UPDATE_INTERVAL),
      co_client = client, co_utc = utc, co_failures = 0, co_cooldown_until = None,
      co_cooldown_index = 0, co_probe_successes = 0, co_health_url = url, co_fetcher = fetcher,
      co_fetches = 0, co_bridge = None, co_channel = None, co_data = None,
      co_last_update_success = True, co_calls = []\<rparr>"

definition utcnow :: "coordinator \<Rightarrow> time" where
  "utcnow co = co_utc co (cn_now (co_client co))"

definition call_base :: "base_call \<Rightarrow> coordinator \<Rightarrow> coordinator" where
  "call_base x co = co\<lparr>co_calls := co_calls co @ [x]\<rparr>"

section \<open>Bridge health\<close>

definition bridge_health_enabled :: "coordinator \<Rightarrow> bool" where
  "bridge_health_enabled co \<longleftrightarrow>
     (case co_health_url co of None \<Rightarrow> False | Some u \<Rightarrow> u \<noteq> []) \<and> co_fetcher co \<noteq> None"

text \<open>The fetch is an await of the coordinator, during which the connection is idle.\<close>

definition refresh_bridge_health :: "coordinator \<Rightarrow> coordinator" where
  "refresh_bridge_health co =
     (if \<not> bridge_health_enabled co then co
      else
        (case co_fetcher co of
           None \<Rightarrow> co
         | Some fetch \<Rightarrow>
             co\<lparr>co_client := idle (co_client co), co_fetches := co_fetches co + 1,
                co_bridge := (case fetch_bridge_health (fetch (co_fetches co)) of
                                Inl e \<Rightarrow> None | Inr h \<Rightarrow> h)\<rparr>))"

definition async_refresh_bridge_health :: "coordinator \<Rightarrow> coordinator" where
  "async_refresh_bridge_health co = call_base Update_listeners (refresh_bridge_health co)"

definition bridge_blocking :: "coordinator \<Rightarrow> bool" where
  "bridge_blocking co \<longleftrightarrow> (case co_bridge co of None \<Rightarrow> False | Some h \<Rightarrow> blocking h)"

section \<open>Cooldown\<close>

definition co_in_cooldown :: "coordinator \<Rightarrow> bool" where
  "co_in_cooldown co \<longleftrightarrow>
     (case co_cooldown_until co of None \<Rightarrow> False | Some u \<Rightarrow> utcnow co < u)"

definition co_cooldown_remaining :: "coordinator \<Rightarrow> int" where
  "co_cooldown_remaining co =
     (if \<not> co_in_cooldown co then 0
      else (case co_cooldown_until co of None \<Rightarrow> 0 | Some u \<Rightarrow> max 0 \<lfloor>u - utcnow co\<rfloor>))"

definition cooldown_ends_at :: "coordinator \<Rightarrow> time option" where
  "cooldown_ends_at co = (if co_in_cooldown co then co_cooldown_until co else None)"

definition connection_state :: "coordinator \<Rightarrow> string" where
  "connection_state co =
     (if bridge_blocking co then
        (if (case co_bridge co of None \<Rightarrow> False | Some h \<Rightarrow> bh_diagnostic_window h)
         then STATE_BRIDGE_RECOVERING else STATE_BRIDGE_DOWN)
      else if co_in_cooldown co then STATE_COOLDOWN
      else if \<not> co_last_update_success co then STATE_RECONNECTING
      else if co_push_enabled co \<and> (case co_data co of None \<Rightarrow> False | Some s \<Rightarrow> \<not> hs_available s)
      then STATE_MACHINE_UNAVAILABLE
      else STATE_CONNECTED)"

definition enter_cooldown :: "time \<Rightarrow> coordinator \<Rightarrow> coordinator" where
  "enter_cooldown now co =
     (let step = HA_COOLDOWN_STEPS ! min (co_cooldown_index co) (length HA_COOLDOWN_STEPS - 1)
      in co\<lparr>co_cooldown_until := Some (now + step),
            co_cooldown_index := co_cooldown_index co + 1,
            co_probe_successes := 0\<rparr>)"

definition clear_cooldown :: "coordinator \<Rightarrow> coordinator" where
  "clear_cooldown co =
     co\<lparr>co_cooldown_until := None, co_cooldown_index := 0, co_failures := 0,
        co_probe_successes := 0\<rparr>"

definition async_end_cooldown :: "coordinator \<Rightarrow> coordinator" where
  "async_end_cooldown co = call_base Request_refresh (clear_cooldown co)"

definition close_client :: "coordinator \<Rightarrow> coordinator" where
  "close_client co = co\<lparr>co_client := client_close (co_client co)\<rparr>"

definition close_if_connected :: "coordinator \<Rightarrow> coordinator" where
  "close_if_connected co = (if connected (co_client co) then close_client co else co)"

definition poll_errors :: "exn set" where
  "poll_errors = {R60VConnectionError, ProtocolError}"

definition probe_healthy :: "coordinator \<Rightarrow> bool res \<times> coordinator" where
  "probe_healthy co =
     (case ha_read SETTINGS_BASE SETTINGS_LEN (co_client co) of
        (Inr _, c) \<Rightarrow> (Inr True, co\<lparr>co_client := c\<rparr>)
      | (Inl e, c) \<Rightarrow>
          if e \<in> poll_errors then (Inr False, close_if_connected (co\<lparr>co_client := c\<rparr>))
          else (Inl e, co\<lparr>co_client := c\<rparr>))"

text \<open>What the update does with a good probe: whether polling resumes.\<close>

definition probe_good :: "coordinator \<Rightarrow> bool \<times> coordinator" where
  "probe_good co =
     (let co = co\<lparr>co_probe_successes := co_probe_successes co + 1\<rparr>
      in if HA_RESUME_AFTER_PROBES \<le> co_probe_successes co then (True, clear_cooldown co)
         else (False, co))"

section \<open>Polling\<close>

fun read_registers :: "(int \<times> int) list \<Rightarrow> conn \<Rightarrow> (int \<times> int list) list res \<times> conn" where
  "read_registers [] c = (Inr [], c)"
| "read_registers ((address, len) # regs) c =
     (case ha_read address len c of
        (Inl e, c) \<Rightarrow> (Inl e, c)
      | (Inr d, c) \<Rightarrow>
          (case read_registers regs c of
             (Inl e, c) \<Rightarrow> (Inl e, c)
           | (Inr ds, c) \<Rightarrow> (Inr ((address, d) # ds), c)))"

definition read_snapshot :: "conn \<Rightarrow> ha_snapshot res \<times> conn" where
  "read_snapshot c =
     (case ha_read SETTINGS_BASE SETTINGS_LEN c of
        (Inl e, c) \<Rightarrow> (Inl e, c)
      | (Inr settings, c) \<Rightarrow>
          (case read_registers LIVE_REGISTERS c of
             (Inl e, c) \<Rightarrow> (Inl e, c)
           | (Inr live, c) \<Rightarrow>
               (Inr \<lparr>hs_settings = settings, hs_live = live, hs_available = True\<rparr>, c)))"

definition seed_snapshot :: ha_snapshot where
  "seed_snapshot =
     \<lparr>hs_settings = replicate (nat SETTINGS_LEN) 0, hs_live = [], hs_available = False\<rparr>"

definition full_poll :: "coordinator \<Rightarrow> ha_snapshot res \<times> coordinator" where
  "full_poll co =
     (case read_snapshot (co_client co) of
        (Inr s, c) \<Rightarrow> (Inr s, clear_cooldown (co\<lparr>co_client := c\<rparr>))
      | (Inl e, c) \<Rightarrow>
          let co = co\<lparr>co_client := c\<rparr> in
          if e \<notin> poll_errors then (Inl e, co)
          else
            let co = co\<lparr>co_failures := co_failures co + 1\<rparr> in
            (case co_data co of
               None \<Rightarrow> (Inl UpdateFailed, co)
             | Some s \<Rightarrow>
                 if co_failures co \<le> FAILURE_TOLERANCE then (Inr s, co)
                 else let co = close_client co
                      in (Inl UpdateFailed, enter_cooldown (utcnow co) co)))"

definition poll_machine :: "coordinator \<Rightarrow> ha_snapshot res \<times> coordinator" where
  "poll_machine co =
     (if 0 < co_cooldown_index co then
        (case probe_healthy co of
           (Inl e, co) \<Rightarrow> (Inl e, co)
         | (Inr True, co) \<Rightarrow>
             (case probe_good co of
                (True, co) \<Rightarrow> full_poll co
              | (False, co) \<Rightarrow> (Inl UpdateFailed, co))
         | (Inr False, co) \<Rightarrow>
             let co = close_client co
             in (Inl UpdateFailed, enter_cooldown (utcnow co) co))
      else full_poll co)"

definition async_update_data :: "coordinator \<Rightarrow> ha_snapshot res \<times> coordinator" where
  "async_update_data co =
     (let co = refresh_bridge_health co in
      if co_push_enabled co then
        (Inr (case co_data co of None \<Rightarrow> seed_snapshot | Some s \<Rightarrow> s), co)
      else if bridge_blocking co then (Inl UpdateFailed, close_if_connected co)
      else if co_in_cooldown co then (Inl UpdateFailed, close_if_connected co)
      else poll_machine co)"

section \<open>Writing\<close>

definition attach_push_client :: "channel \<Rightarrow> coordinator \<Rightarrow> coordinator" where
  "attach_push_client ch co = co\<lparr>co_channel := Some ch\<rparr>"

text \<open>\<open>async_send_command\<close> of \<open>push_client.py\<close>: the frame of a write intent.\<close>

definition command_frame :: "int \<Rightarrow> int list \<Rightarrow> string option \<Rightarrow> json" where
  "command_frame address data key =
     JObj ([(''type'', JStr ''command''), (''address'', JInt address),
            (''data'', JList (map JInt data))]
           @ (case key of None \<Rightarrow> [] | Some k \<Rightarrow> [(''key'', JStr k)]))"

definition send_command :: "int \<Rightarrow> int list \<Rightarrow> string option \<Rightarrow> channel \<Rightarrow> unit res \<times> channel" where
  "send_command address data key ch =
     (if \<not> ch_open ch then (Inl R60VConnectionError, ch)
      else
        (case ch_outcome ch (length (ch_sent ch)) of
           Inr _ \<Rightarrow> (Inr (), ch\<lparr>ch_sent := ch_sent ch @ [command_frame address data key]\<rparr>)
         | Inl e \<Rightarrow> (Inl (if e \<in> {ClientError, OSError} then R60VConnectionError else e), ch)))"

definition direct_write :: "int \<Rightarrow> int list \<Rightarrow> coordinator \<Rightarrow> unit res \<times> coordinator" where
  "direct_write address data co =
     (case ha_write address data (co_client co) of
        (r, c) \<Rightarrow> (map_sum id (\<lambda>_. ()) r, co\<lparr>co_client := c\<rparr>))"

definition async_write :: "int \<Rightarrow> int list \<Rightarrow> string option \<Rightarrow> coordinator \<Rightarrow> unit res \<times> coordinator" where
  "async_write address data key co =
     (case (co_push_enabled co, co_channel co) of
        (True, Some ch) \<Rightarrow>
          (case send_command address data key ch of
             (Inr _, ch) \<Rightarrow> (Inr (), co\<lparr>co_channel := Some ch\<rparr>)
           | (Inl e, ch) \<Rightarrow>
               if e = R60VConnectionError then direct_write address data (co\<lparr>co_channel := Some ch\<rparr>)
               else (Inl e, co\<lparr>co_channel := Some ch\<rparr>))
      | _ \<Rightarrow>
          (case direct_write address data co of
             (Inr _, co) \<Rightarrow> (Inr (), call_base Request_refresh co)
           | (Inl e, co) \<Rightarrow> (Inl e, co)))"

end
