(* ===== verification/HaProfile.thy ===== *)
theory HaProfile
  imports HaEntities
begin

text \<open>
  The pressure-profile codec of the integration (\<open>decode_profile\<close> and \<open>encode_profile\<close> of
  \<open>custom_components/rocket_r60v/entities.py\<close>): every text the encoder accepts becomes the
  block of five steps in range, and the text shown for such a block encodes to the same
  block, in binary64 throughout.
\<close>

section \<open>Facts on the profile codec\<close>

lemma fl_tenth_range:
  assumes "0 \<le> k" "k \<le> 10 * n" "n \<le> 6553"
  shows "0 \<le> fl (of_int k / 10)" "fl (of_int k / 10) \<le> of_int n"
proof -
  have e: "\<bar>fl (of_int k / 10) - of_int k / 10 :: rat\<bar> \<le> 1 / 1000000"
    using assms by (intro fl_tenth_error) linarith+
  show "0 \<le> fl (of_int k / 10)"
  proof (cases "k = 0")
    case False
    then have "(1 :: rat) \<le> of_int k" using assms(1) by simp
    then show ?thesis using e by linarith
  qed simp
  show "fl (of_int k / 10) \<le> of_int n"
  proof (cases "k = 10 * n")
    case True
    have "\<bar>n\<bar> \<le> 6553" using assms by linarith
    then have "\<bar>n\<bar> < 2 ^ 53" by simp
    then show ?thesis using True by simp
  next
    case False
    then have "k + 1 \<le> 10 * n" using assms(2) by simp
    then have "(of_int (k + 1) :: rat) \<le> of_int (10 * n)" by (simp only: of_int_le_iff)
    then have "(of_int k :: rat) + 1 \<le> 10 * of_int n" by simp
    then show ?thesis using e by linarith
  qed
qed

lemma round1_in_range:
  assumes "in_range 0 (of_int n) (py_round1 v)" "n \<le> 60"
  shows "\<exists>k. 0 \<le> k \<and> k \<le> 10 * n \<and> py_round1 v = Fin (fl (of_int k / 10))"
proof (cases v)
  case (Fin x)
  define k where "k = rhe (10 * x)"
  define y where "y = (of_int k / 10 :: rat)"
  have r: "py_round1 v = Fin (fl y)" "0 \<le> fl y" "fl y \<le> of_int n"
    using assms(1) by (auto simp: Fin k_def [symmetric] y_def [symmetric] to_float_def Let_def
        split: if_splits)
  have e: "\<bar>fl y - y\<bar> \<le> \<bar>y\<bar> / 1000" if "k \<noteq> 0"
  proof -
    have "(2 :: rat) powi (- 1022) \<le> 2 powi (- 4)" by (intro power_int_increasing) auto
    also have "\<dots> \<le> 1 / 10" by (simp add: power_int_minus)
    also have "(1 :: rat) \<le> of_int \<bar>k\<bar>" using that by linarith
    then have "(1 :: rat) / 10 \<le> \<bar>y\<bar>" by (simp add: y_def)
    finally have "\<bar>fl y - y\<bar> \<le> \<bar>y\<bar> * 2 powi (- 53)" by (rule fl_error)
    also have "\<dots> \<le> \<bar>y\<bar> * (1 / 1000)" by (intro mult_left_mono) (simp_all add: power_int_minus)
    finally show ?thesis by simp
  qed
  have "0 \<le> k"
  proof (rule ccontr)
    assume "\<not> 0 \<le> k"
    then have "k \<noteq> 0" "y < 0" by (simp_all add: y_def divide_neg_pos)
    then show False using e r(2) by linarith
  qed
  moreover have "k \<le> 10 * n"
  proof (rule ccontr)
    assume a: "\<not> k \<le> 10 * n"
    have n: "0 \<le> n" using r(2,3) by (metis of_int_0_le_iff order_trans)
    have "10 * n + 1 \<le> k" using a by simp
    then have "(of_int (10 * n + 1) :: rat) \<le> of_int k" by (simp only: of_int_le_iff)
    then have y1: "of_int n + 1 / 10 \<le> y" by (simp add: y_def)
    have n60: "(of_int n :: rat) \<le> 60" "0 \<le> (of_int n :: rat)" using assms(2) n by simp_all
    have "k \<noteq> 0" using a n by linarith
    then show False using e y1 n60 r(3) by linarith
  qed
  ultimately show ?thesis using r(1) by (auto simp: y_def)
qed (use assms in auto)


section \<open>Steps and blocks\<close>

text \<open>A step is a pair of tenths, a block five of them.\<close>

definition step_ok :: "int \<times> int \<Rightarrow> bool" where
  "step_ok tp \<longleftrightarrow> 0 \<le> fst tp \<and> fst tp \<le> 600 \<and> 0 \<le> snd tp \<and> snd tp \<le> 100"

definition block_of :: "(int \<times> int) list \<Rightarrow> int list" where
  "block_of ps = concat (map (\<lambda>(t, _). [t AND 255, drop_bit 8 t AND 255]) ps) @ map snd ps"

definition step_text :: "int \<times> int \<Rightarrow> string" where
  "step_text tp = fmt_num (fl (of_int (fst tp) / 10)) @ '':'' @ fmt_num (fl (of_int (snd tp) / 10))"

lemma num_char:
  "is_digit c \<or> c = CHR ''.'' \<Longrightarrow> \<not> is_ws c \<and> c \<noteq> CHR '':''"
  by (auto simp: is_digit_def is_ws_def code_def)

lemma fmt_num_chars:
  assumes "0 \<le> k" "k \<le> 65535" "c \<in> set (fmt_num (fl (of_int k / 10)))"
  shows "\<not> is_ws c \<and> c \<noteq> CHR '':''"
  using fmt_num_tenth(3) [OF assms(1,2)] assms(3) num_char by blast

lemma parse_step_text:
  assumes "step_ok tp"
  shows "parse_step (step_text tp) = Inr tp"
proof -
  obtain t p where tp: "tp = (t, p)" by (cases tp)
  have t: "0 \<le> t" "t \<le> 600" "t \<le> 65535" and p: "0 \<le> p" "p \<le> 100" "p \<le> 65535"
    using assms by (simp_all add: step_ok_def tp)
  let ?a = "fmt_num (fl (of_int t / 10))" and ?b = "fmt_num (fl (of_int p / 10))"
  have "CHR '':'' \<notin> set ?a" "CHR '':'' \<notin> set ?b"
    using fmt_num_chars [OF t(1,3)] fmt_num_chars [OF p(1,3)] by blast+
  then have sp: "split_on (CHR '':'') (step_text tp) = [?a, ?b]"
    by (simp add: step_text_def tp split_on_append split_on_no_sep)
  have rt: "in_range 0 60 (Fin (fl (of_int t / 10)))" "in_range 0 10 (Fin (fl (of_int p / 10)))"
    using fl_tenth_range [of t 60] fl_tenth_range [of p 10] t p by simp_all
  show ?thesis
    unfolding parse_step_def sp Let_def
    using rt t p
    by (simp add: fmt_num_tenth(1) round1_tenth round_mul10_tenth tp PROFILE_TIMING_RANGE_def
        PROFILE_PRESSURE_RANGE_def del: py_round1.simps mul10.simps in_range.simps py_round.simps)
qed

lemma parse_step_InrD:
  assumes "parse_step s = Inr tp"
  shows "step_ok tp"
proof -
  obtain t p where tp: "tp = (t, p)" by (cases tp)
  from assms obtain x y where
    r: "in_range 0 60 (py_round1 x)" "in_range 0 10 (py_round1 y)"
      "py_round (mul10 (py_round1 x)) = Inr t" "py_round (mul10 (py_round1 y)) = Inr p"
    by (auto simp: parse_step_def Let_def bind_res_eq_Inr tp PROFILE_TIMING_RANGE_def
        PROFILE_PRESSURE_RANGE_def split: list.splits if_splits
        simp del: py_round1.simps mul10.simps in_range.simps py_round.simps)
  have "0 \<le> t \<and> t \<le> 600"
  proof -
    obtain k where k: "0 \<le> k" "k \<le> 600" "py_round1 x = Fin (fl (of_int k / 10))"
      using round1_in_range [of 60 x] r(1) by auto
    then show ?thesis using r(3) round_mul10_tenth [of k]
      by (simp del: mul10.simps py_round.simps)
  qed
  moreover have "0 \<le> p \<and> p \<le> 100"
  proof -
    obtain k where k: "0 \<le> k" "k \<le> 100" "py_round1 y = Fin (fl (of_int k / 10))"
      using round1_in_range [of 10 y] r(2) by auto
    then show ?thesis using r(4) round_mul10_tenth [of k]
      by (simp del: mul10.simps py_round.simps)
  qed
  ultimately show ?thesis by (simp add: step_ok_def tp)
qed

section \<open>Joining and splitting\<close>

lemma ws_space: "is_ws (CHR '' '')"
  by (simp add: is_ws_def code_def)

lemma split_ws_word:
  assumes "w \<noteq> []" "\<forall>c \<in> set w. \<not> is_ws c"
  shows "split_ws w = [w]" "split_ws (w @ CHR '' '' # s) = w # split_ws s"
proof -
  have m: "map (\<lambda>c. if is_ws c then CHR '' '' else c) w = w" using assms(2) by (intro map_idI) auto
  have n: "CHR '' '' \<notin> set w" using assms(2) ws_space by blast
  show "split_ws w = [w]" using assms(1) n by (simp add: split_ws_def m split_on_no_sep)
  show "split_ws (w @ CHR '' '' # s) = w # split_ws s"
    using assms(1) n by (simp add: split_ws_def m split_on_append ws_space)
qed

lemma split_ws_join:
  "\<forall>w \<in> set ws. w \<noteq> [] \<and> (\<forall>c \<in> set w. \<not> is_ws c) \<Longrightarrow> ws \<noteq> [] \<Longrightarrow> split_ws (join_sp ws) = ws"
  by (induction ws rule: join_sp.induct) (auto simp: split_ws_word)

lemma strip_join:
  assumes "\<forall>w \<in> set ws. w \<noteq> [] \<and> (\<forall>c \<in> set w. \<not> is_ws c)" "ws \<noteq> []"
  shows "strip (join_sp ws) = join_sp ws \<and> join_sp ws \<noteq> []"
proof -
  have "join_sp ws \<noteq> [] \<and> \<not> is_ws (hd (join_sp ws)) \<and> \<not> is_ws (last (join_sp ws))"
    using assms by (induction ws rule: join_sp.induct) auto
  then show ?thesis unfolding strip_def by (blast intro: strip_by_id)
qed

lemma step_text_word:
  assumes "step_ok tp"
  shows "step_text tp \<noteq> [] \<and> (\<forall>c \<in> set (step_text tp). \<not> is_ws c)"
proof -
  have "\<not> is_ws (CHR '':'')" by (simp add: is_ws_def code_def)
  then show ?thesis
    using assms fmt_num_chars [of "fst tp"] fmt_num_chars [of "snd tp"]
    by (auto simp: step_text_def step_ok_def)
qed

section \<open>The codec\<close>

lemma drop_bit_byte: "0 \<le> t \<Longrightarrow> t \<le> 600 \<Longrightarrow> (t AND 255) + push_bit 8 (drop_bit 8 t AND 255) = (t :: int)"
  by (simp add: and_255 drop_bit_eq_div push_bit_eq_mult)

lemma length_block_of [simp]: "length (block_of ps) = 3 * length ps"
  by (induction ps) (auto simp: block_of_def)

lemma concat_pairs_nth:
  "i < length ps \<Longrightarrow> concat (map (\<lambda>(t, _). [f t, g t]) ps) ! (2 * i) = f (fst (ps ! i))
    \<and> concat (map (\<lambda>(t, _). [f t, g t]) ps) ! Suc (2 * i) = g (fst (ps ! i))"
  by (induction ps arbitrary: i) (auto simp: nth_Cons split: nat.splits prod.splits)

lemma length_concat_pairs [simp]: "length (concat (map (\<lambda>(t, _). [f t, g t]) ps)) = 2 * length ps"
  by (induction ps) auto

lemma block_of_nth:
  assumes "i < length ps"
  shows "block_of ps ! (2 * i) = fst (ps ! i) AND 255"
    and "block_of ps ! Suc (2 * i) = drop_bit 8 (fst (ps ! i)) AND 255"
    and "block_of ps ! (2 * length ps + i) = snd (ps ! i)"
proof -
  let ?c = "concat (map (\<lambda>(t, _). [t AND 255, drop_bit 8 t AND 255]) ps)"
  have l: "length ?c = 2 * length ps" by (rule length_concat_pairs)
  show "block_of ps ! (2 * i) = fst (ps ! i) AND 255"
    "block_of ps ! Suc (2 * i) = drop_bit 8 (fst (ps ! i)) AND 255"
    unfolding block_of_def using l assms
      concat_pairs_nth [OF assms, of "\<lambda>t. t AND 255" "\<lambda>t. drop_bit 8 t AND 255"]
    by (simp_all only: nth_append) simp_all
  show "block_of ps ! (2 * length ps + i) = snd (ps ! i)"
    unfolding block_of_def using nth_append_length_plus [of ?c "map snd ps" i] l assms by simp
qed

lemma block_of_bytes:
  assumes "\<forall>tp \<in> set ps. step_ok tp"
  shows "list_all is_byte (block_of ps)"
proof -
  have "\<forall>b \<in> set (concat (map (\<lambda>(t, _). [t AND 255, drop_bit 8 t AND 255]) ps)). is_byte b"
    by auto
  moreover have "\<forall>b \<in> set (map snd ps). is_byte b"
    using assms by (auto simp: step_ok_def is_byte_def)
  ultimately show ?thesis unfolding block_of_def list_all_iff set_append ball_Un by (rule conjI)
qed

lemma decode_block_of:
  assumes "length ps = 5" "\<forall>tp \<in> set ps. step_ok tp"
  shows "decode_profile (block_of ps) = Inr (join_sp (map step_text ps))"
proof -
  have s: "profile_step (block_of ps) i = Inr (step_text (ps ! i))" if i: "i < 5" for i
  proof -
    have ok: "step_ok (ps ! i)" using assms i by simp
    have "nat (int i * 2) = 2 * i" "nat (int i * 2 + 1) = Suc (2 * i)" "nat (10 + int i) = 2 * length ps + i"
      using assms(1) by (simp_all add: nat_add_distrib nat_mult_distrib)
    then have it: "py_item (block_of ps) (int i * 2) = Inr (fst (ps ! i) AND 255)"
      "py_item (block_of ps) (int i * 2 + 1) = Inr (drop_bit 8 (fst (ps ! i)) AND 255)"
      "py_item (block_of ps) (10 + int i) = Inr (snd (ps ! i))"
      using i assms(1) block_of_nth [of i ps] unfolding py_item_def by simp_all
    have "(fst (ps ! i) AND 255) + push_bit 8 (drop_bit 8 (fst (ps ! i)) AND 255) = fst (ps ! i)"
      using ok by (intro drop_bit_byte) (simp_all add: step_ok_def)
    then show ?thesis unfolding profile_step_def it bind_res_Inr Let_def step_text_def by simp
  qed
  have "map_res (profile_step (block_of ps)) [0..<PROFILE_STEPS]
      = Inr (map (\<lambda>i. step_text (ps ! i)) [0..<PROFILE_STEPS])"
    by (rule map_res_all_Inr) (simp add: s PROFILE_STEPS_def)
  moreover have "map (\<lambda>i. step_text (ps ! i)) [0..<PROFILE_STEPS] = map step_text ps"
    using assms(1) by (auto simp: PROFILE_STEPS_def intro!: nth_equalityI)
  ultimately show ?thesis by (simp add: decode_profile_def)
qed

lemma encode_step_texts:
  assumes "length ps = 5" "\<forall>tp \<in> set ps. step_ok tp"
  shows "encode_profile (join_sp (map step_text ps)) = Inr (block_of ps)"
proof -
  have w: "\<forall>w \<in> set (map step_text ps). w \<noteq> [] \<and> (\<forall>c \<in> set w. \<not> is_ws c)" "map step_text ps \<noteq> []"
    using assms step_text_word by auto
  have m: "map_res parse_step (map step_text ps) = Inr ps"
  proof -
    have "qs = ps \<Longrightarrow> map_res parse_step (map step_text ps) = Inr ps" for qs
      using assms(2) by (induction ps arbitrary: qs) (auto simp: parse_step_text)
    then show ?thesis by blast
  qed
  show ?thesis
    using strip_join [OF w] split_ws_join [OF w] assms(1) m
    by (simp add: encode_profile_def Let_def PROFILE_STEPS_def block_of_def)
qed

lemma encode_profile_InrD:
  assumes "encode_profile txt = Inr block"
  shows "\<exists>ps. length ps = 5 \<and> (\<forall>tp \<in> set ps. step_ok tp) \<and> block = block_of ps"
proof -
  define steps where "steps = (if strip txt \<noteq> [] then split_ws (strip txt) else [])"
  from assms obtain ps where ps: "length steps \<le> 5" "map_res parse_step steps = Inr ps"
    and b: "block = (concat (map (\<lambda>(t, _). [t AND 255, drop_bit 8 t AND 255]) ps)
        @ concat (replicate (5 - length steps) [0, 0])) @ map snd ps @ replicate (5 - length steps) 0"
    by (auto simp: encode_profile_def Let_def steps_def [symmetric] PROFILE_STEPS_def bind_res_eq_Inr
        split: if_splits)
  let ?qs = "ps @ replicate (5 - length steps) (0, 0)"
  have l: "length ps = length steps" using map_res_length [OF ps(2)] .
  have "length ?qs = 5" using l ps(1) by simp
  moreover have "\<forall>tp \<in> set ?qs. step_ok tp"
  proof -
    have "step_ok tp" if "tp \<in> set ps" for tp
      using map_res_set [OF ps(2) that] parse_step_InrD by blast
    then show ?thesis by (auto simp: step_ok_def)
  qed
  moreover have "block = block_of ?qs" by (simp add: b block_of_def)
  ultimately show ?thesis by blast
qed

text \<open>The blocks the encoder can produce, written out.\<close>

definition profile_ok :: "int list \<Rightarrow> bool" where
  "profile_ok block \<longleftrightarrow> length block = 15 \<and> list_all is_byte block
     \<and> (\<forall>i < 5. block ! (2 * i) + 256 * block ! (2 * i + 1) \<le> 600 \<and> block ! (10 + i) \<le> 100)"

lemma profile_ok_block_of:
  assumes "length ps = 5" "\<forall>tp \<in> set ps. step_ok tp"
  shows "profile_ok (block_of ps)"
proof -
  have "block_of ps ! (2 * i) + 256 * block_of ps ! (2 * i + 1) \<le> 600 \<and> block_of ps ! (10 + i) \<le> 100"
    if "i < 5" for i
  proof -
    have "step_ok (ps ! i)" using assms that by simp
    then show ?thesis
      using that assms(1) block_of_nth [of i ps] drop_bit_byte [of "fst (ps ! i)"]
      by (simp add: step_ok_def push_bit_eq_mult)
  qed
  then show ?thesis using assms by (simp add: profile_ok_def block_of_bytes)
qed

lemma profile_ok_exists:
  assumes "profile_ok block"
  shows "\<exists>ps. length ps = 5 \<and> (\<forall>tp \<in> set ps. step_ok tp) \<and> block = block_of ps"
proof -
  have b: "is_byte (block ! i)" if "i < 15" for i
    using assms that by (auto simp: profile_ok_def list_all_length)
  define ps where "ps = map (\<lambda>i. (block ! (2 * i) + 256 * block ! (2 * i + 1), block ! (10 + i))) [0..<5]"
  have l: "length ps = 5" by (simp add: ps_def)
  have ok: "\<forall>tp \<in> set ps. step_ok tp"
    using assms b by (auto simp: ps_def step_ok_def profile_ok_def is_byte_def intro!: add_nonneg_nonneg)
  have half: "(x + 256 * y) AND 255 = x \<and> drop_bit 8 (x + 256 * y) AND 255 = y" if "is_byte x" "is_byte y" for x y
    using that by (simp add: and_255 drop_bit_eq_div is_byte_def)
  have "block ! j = block_of ps ! j" if j: "j < 15" for j
  proof -
    consider i where "i < 5" "j = 2 * i" | i where "i < 5" "j = Suc (2 * i)" | i where "i < 5" "j = 10 + i"
    proof (cases "j < 10")
      case True
      then show thesis using that(1) [of "j div 2"] that(2) [of "j div 2"] by (cases "even j") auto
    next
      case False
      then show thesis using that(3) [of "j - 10"] j by simp
    qed
    then show ?thesis
    proof cases
      case (1 i)
      then show ?thesis using block_of_nth(1) [of i ps] l half [of "block ! (2 * i)" "block ! Suc (2 * i)"] b
        by (simp add: ps_def)
    next
      case (2 i)
      then show ?thesis using block_of_nth(2) [of i ps] l half [of "block ! (2 * i)" "block ! Suc (2 * i)"] b
        by (simp add: ps_def)
    next
      case (3 i)
      then show ?thesis using block_of_nth(3) [of i ps] l by (simp add: ps_def)
    qed
  qed
  then have "block = block_of ps" using assms l by (intro nth_equalityI) (auto simp: profile_ok_def)
  then show ?thesis using l ok by blast
qed

lemma profile_round_trip:
  assumes "profile_ok block"
  shows "\<exists>t. decode_profile block = Inr t \<and> encode_profile t = Inr block"
  using profile_ok_exists [OF assms] decode_block_of encode_step_texts by blast

lemma encode_profile_ok: "encode_profile txt = Inr block \<Longrightarrow> profile_ok block"
  using encode_profile_InrD profile_ok_block_of by blast

section \<open>Property\<close>

text \<open>C28: The blocks that the profile encoder can produce are exactly those of 15 bytes with
  every time at most 60 s and every pressure at most 10 bar, and exactly those for which
  the text shown by the decoder is accepted again and gives back the same block: the
  text the user sees is always a text the user can send.\<close>

theorem profile_codec:
  "((\<exists>txt. encode_profile txt = Inr block) \<longleftrightarrow> profile_ok block)
   \<and> (profile_ok block \<longleftrightarrow> (\<exists>t. decode_profile block = Inr t \<and> encode_profile t = Inr block))"
  using profile_round_trip encode_profile_ok by blast

end
