(* ===== verification/HaSurfaces.thy ===== *)
theory HaSurfaces
  imports HaProfile
begin

text \<open>
  What the two surfaces of the machine promise about one memory: a command an
  integration entity accepts is a write of bytes inside the settings block which the
  entity then shows as a value giving the same write; and the integration's entities
  (\<open>custom_components/rocket_r60v/entities.py\<close>) decode and encode as the bridge's
  (\<open>bridge/r60v_broker/state.py\<close>) do, up to the type of the value.
\<close>

section \<open>One memory\<close>

definition bridge_view :: "ha_snapshot \<Rightarrow> snapshot" where
  "bridge_view s = \<lparr>sn_settings = hs_settings s, sn_live = hs_live s\<rparr>"

lemma ha_settings_byte_view: "ha_settings_byte s a = settings_byte (bridge_view s) a"
  by (simp add: ha_settings_byte_def settings_byte_def bridge_view_def)

lemma ha_live_bytes_view: "ha_live_bytes s a = live_bytes (bridge_view s) a"
  by (simp add: ha_live_bytes_def live_bytes_def bridge_view_def)

lemma ha_settings_byte_bounds: "0 \<le> ha_settings_byte s a" "ha_settings_byte s a \<le> 255"
  by (auto simp: ha_settings_byte_def and_255)

definition ha_written :: "ha_snapshot \<Rightarrow> write_op \<Rightarrow> ha_snapshot" where
  "ha_written s w = s\<lparr>hs_settings := write_at (hs_settings s) (nat (fst w)) (snd w)\<rparr>"

lemma bridge_view_written: "bridge_view (ha_written s w) = written (bridge_view s) w"
  by (simp add: bridge_view_def ha_written_def written_def)

lemma ha_settings_byte_written:
  assumes "length (hs_settings s) = nat SETTINGS_LEN" "0 \<le> a" "a < SETTINGS_LEN"
  shows "ha_settings_byte (ha_written s (a, [b])) a = b AND 255"
    and "ha_settings_byte (ha_written s (a, [b, c])) a = b AND 255"
    and "a + 1 < SETTINGS_LEN \<Longrightarrow> ha_settings_byte (ha_written s (a, [b, c])) (a + 1) = c AND 255"
proof -
  have l: "int (length (sn_settings (bridge_view s))) = SETTINGS_LEN"
    using assms(1) by (simp add: bridge_view_def SETTINGS_LEN_def)
  show "ha_settings_byte (ha_written s (a, [b])) a = b AND 255"
    "ha_settings_byte (ha_written s (a, [b, c])) a = b AND 255"
    "a + 1 < SETTINGS_LEN \<Longrightarrow> ha_settings_byte (ha_written s (a, [b, c])) (a + 1) = c AND 255"
    unfolding ha_settings_byte_view bridge_view_written
    using settings_byte_written [of a "bridge_view s"] assms(2,3) l by simp_all
qed

lemma ha_settings_block_written:
  assumes "length (hs_settings s) = nat SETTINGS_LEN" "0 \<le> a" "a + PROFILE_LEN \<le> SETTINGS_LEN"
    and "list_all is_byte d" "length d = nat PROFILE_LEN"
  shows "ha_settings_block (ha_written s (a, d)) a PROFILE_LEN = d"
proof (rule nth_equalityI)
  fix i assume "i < length (ha_settings_block (ha_written s (a, d)) a PROFILE_LEN)"
  then have i: "i < nat PROFILE_LEN" by (simp add: ha_settings_block_def)
  have "ha_settings_byte (ha_written s (a, d)) (a + int i) = d ! i AND 255"
    unfolding ha_settings_byte_view bridge_view_written written_def
    using settings_byte_write [of "a + int i" "bridge_view s" a d] assms(1-3,5) i
    by (simp add: bridge_view_def SETTINGS_LEN_def PROFILE_LEN_def)
  then show "ha_settings_block (ha_written s (a, d)) a PROFILE_LEN ! i = d ! i"
    using i assms(4,5) by (simp add: ha_settings_block_def list_all_length)
qed (use assms(5) in \<open>simp add: ha_settings_block_def\<close>)

section \<open>A command is shown\<close>

definition ha_command_shown :: "ha_decoder \<Rightarrow> ha_encoder \<Rightarrow> write_op \<Rightarrow> ha_snapshot \<Rightarrow> bool" where
  "ha_command_shown dec enc w s \<longleftrightarrow>
     0 \<le> fst w \<and> fst w + int (length (snd w)) \<le> SETTINGS_LEN \<and> list_all is_byte (snd w)
     \<and> (\<exists>v. dec (ha_written s w) = Inr v \<and> enc v = Inr w)"

lemma shown_switch:
  assumes "ha_encode_bool a on off v = Inr w" "length (hs_settings s) = nat SETTINGS_LEN"
    and "0 \<le> a" "a < SETTINGS_LEN"
  shows "on = 0 \<Longrightarrow> off = 1 \<Longrightarrow> ha_command_shown (bool_on_zero a) (ha_encode_bool a on off) w s"
    and "on = 1 \<Longrightarrow> off = 0 \<Longrightarrow> ha_command_shown (bool_on_nonzero a) (ha_encode_bool a on off) w s"
  using assms(1) ha_settings_byte_written(1) [OF assms(2-4)] assms(3,4)
  by (auto simp: ha_command_shown_def ha_encode_bool_def bool_on_zero_def bool_on_nonzero_def is_byte_def
      split: if_splits)

lemma shown_enum:
  assumes "ha_encode_enum a opts v = Inr w" "length (hs_settings s) = nat SETTINGS_LEN"
    and "0 \<le> a" "a < SETTINGS_LEN" "distinct opts" "length opts \<le> 256"
  shows "ha_command_shown (ha_enum a opts) (ha_encode_enum a opts) w s"
proof -
  obtain p i where i: "v = HStr p" "index_of opts p = Some i" "w = (a, [int i])"
    using assms(1) by (auto simp: ha_encode_enum_def split: haval.splits option.splits)
  have o: "i < length opts" "opts ! i = p" using index_of_Some [OF i(2)] by auto
  have b: "is_byte (int i)" using o(1) assms(6) by (simp add: is_byte_def)
  have "ha_settings_byte (ha_written s w) a = int i"
    using ha_settings_byte_written(1) [OF assms(2-4)] b i(3) by simp
  then have "ha_enum a opts (ha_written s w) = Inr v" using o i(1) by (simp add: ha_enum_def)
  then show ?thesis using assms(1,3,4) b i(3) by (auto simp: ha_command_shown_def)
qed

lemma shown_time:
  assumes "ha_encode_time a v = Inr w" "valid_haval v" "length (hs_settings s) = nat SETTINGS_LEN"
    and "0 \<le> a" "a + 1 < SETTINGS_LEN"
  shows "ha_command_shown (ha_time a (a + 1)) (ha_encode_time a) w s"
proof -
  obtain h m where i: "v = HTime h m" "w = (a, [h, m])"
    using assms(1) by (auto simp: ha_encode_time_def split: haval.splits)
  have r: "0 \<le> h" "h \<le> 23" "0 \<le> m" "m \<le> 59" using assms(2) i(1) by simp_all
  then have b: "is_byte h" "is_byte m" by (simp_all add: is_byte_def)
  have a: "a < SETTINGS_LEN" using assms(5) by simp
  have "ha_settings_byte (ha_written s w) a = h" "ha_settings_byte (ha_written s w) (a + 1) = m"
    using ha_settings_byte_written(2,3) [OF assms(3,4) a] assms(5) b i(2) by simp_all
  then have "ha_time a (a + 1) (ha_written s w) = Inr v" using r i(1) by (simp add: ha_time_def)
  then show ?thesis using assms(1,4,5) b i(2) by (auto simp: ha_command_shown_def)
qed

lemma shown_profile:
  assumes "encode_profile_at a v = Inr w" "length (hs_settings s) = nat SETTINGS_LEN"
    and "0 \<le> a" "a + PROFILE_LEN \<le> SETTINGS_LEN"
  shows "ha_command_shown (decode_profile_at a) (encode_profile_at a) w s"
proof -
  obtain t0 block where b: "v = HStr t0" "encode_profile t0 = Inr block" "w = (a, block)"
    using assms(1) by (auto simp: encode_profile_at_def bind_res_eq_Inr split: haval.splits)
  have ok: "profile_ok block" by (rule encode_profile_ok [OF b(2)])
  obtain t where t: "decode_profile block = Inr t" "encode_profile t = Inr block"
    using profile_round_trip [OF ok] by blast
  have l: "list_all is_byte block" "length block = nat PROFILE_LEN" "int (length block) = PROFILE_LEN"
    using ok by (simp_all add: profile_ok_def PROFILE_LEN_def)
  have "ha_settings_block (ha_written s w) a PROFILE_LEN = block"
    using ha_settings_block_written [OF assms(2-4) l(1,2)] b(3) by simp
  then have "decode_profile_at a (ha_written s w) = Inr (HStr t)"
    using t(1) by (simp add: decode_profile_at_def)
  moreover have "encode_profile_at a (HStr t) = Inr w" using t(2) b(3) by (simp add: encode_profile_at_def)
  ultimately show ?thesis using assms(3,4) l b(3) by (auto simp: ha_command_shown_def)
qed

text \<open>The table, as pairs of codecs.\<close>

lemma time_minutes: "AUTO_ON_MINUTE = AUTO_ON_HOUR + 1" "AUTO_OFF_MINUTE = AUTO_OFF_HOUR + 1"
  by (simp_all add: address_defs)

lemma option_lists:
  "distinct PROFILE_OPTIONS" "length PROFILE_OPTIONS \<le> 256"
  "distinct WATER_FEED_OPTIONS" "length WATER_FEED_OPTIONS \<le> 256"
  "distinct TEMP_UNIT_OPTIONS" "length TEMP_UNIT_OPTIONS \<le> 256"
  "distinct LANGUAGE_OPTIONS" "length LANGUAGE_OPTIONS \<le> 256"
  by (simp_all add: PROFILE_OPTIONS_def WATER_FEED_OPTIONS_def TEMP_UNIT_OPTIONS_def
      LANGUAGE_OPTIONS_def)

lemma ha_codecs:
  "map (\<lambda>e. (he_decode e, he_encode e)) HA_ENTITIES =
     [(live_decibar CURRENT_PRESSURE, None),
      (\<lambda>s. bind_res (live_text DISPLAY s) (\<lambda>t. Inr (HStr t)), None),
      (\<lambda>s. Inr (HInt (ha_le16 (hs_settings s) TOTAL_COFFEE_COUNT)), None),
      (bool_on_zero STANDBY, Some (ha_encode_bool STANDBY 0 1)),
      (bool_on_nonzero SERVICE_BOILER_ENABLE, Some (ha_encode_bool SERVICE_BOILER_ENABLE 1 0)),
      (ha_enum ACTIVE_PROFILE PROFILE_OPTIONS, Some (ha_encode_enum ACTIVE_PROFILE PROFILE_OPTIONS)),
      (ha_enum WATER_FEED WATER_FEED_OPTIONS, Some (ha_encode_enum WATER_FEED WATER_FEED_OPTIONS)),
      (ha_enum TEMPERATURE_UNIT TEMP_UNIT_OPTIONS,
       Some (ha_encode_enum TEMPERATURE_UNIT TEMP_UNIT_OPTIONS)),
      (ha_enum LANGUAGE LANGUAGE_OPTIONS, Some (ha_encode_enum LANGUAGE LANGUAGE_OPTIONS)),
      (ha_time AUTO_ON_HOUR (AUTO_ON_HOUR + 1), Some (ha_encode_time AUTO_ON_HOUR)),
      (ha_time AUTO_OFF_HOUR (AUTO_OFF_HOUR + 1), Some (ha_encode_time AUTO_OFF_HOUR)),
      (decode_profile_at PROFILE_A, Some (encode_profile_at PROFILE_A)),
      (decode_profile_at PROFILE_B, Some (encode_profile_at PROFILE_B)),
      (decode_profile_at PROFILE_C, Some (encode_profile_at PROFILE_C))]"
  unfolding HA_ENTITIES_def HaEntity_def time_minutes by simp

lemma ha_command_cases:
  assumes "e \<in> set HA_ENTITIES" "he_encode e = Some enc"
  obtains (zero) a where "he_decode e = bool_on_zero a" "enc = ha_encode_bool a 0 1" "0 \<le> a"
      "a < SETTINGS_LEN"
  | (nonzero) a where "he_decode e = bool_on_nonzero a" "enc = ha_encode_bool a 1 0" "0 \<le> a"
      "a < SETTINGS_LEN"
  | (enum) a opts where "he_decode e = ha_enum a opts" "enc = ha_encode_enum a opts" "0 \<le> a"
      "a < SETTINGS_LEN" "distinct opts" "length opts \<le> 256"
  | (time) a where "he_decode e = ha_time a (a + 1)" "enc = ha_encode_time a" "0 \<le> a"
      "a + 1 < SETTINGS_LEN"
  | (profile) a where "he_decode e = decode_profile_at a" "enc = encode_profile_at a" "0 \<le> a"
      "a + PROFILE_LEN \<le> SETTINGS_LEN"
proof -
  have a: "0 \<le> STANDBY" "STANDBY < SETTINGS_LEN" "0 \<le> SERVICE_BOILER_ENABLE"
    "SERVICE_BOILER_ENABLE < SETTINGS_LEN" "0 \<le> ACTIVE_PROFILE" "ACTIVE_PROFILE < SETTINGS_LEN"
    "0 \<le> WATER_FEED" "WATER_FEED < SETTINGS_LEN" "0 \<le> TEMPERATURE_UNIT"
    "TEMPERATURE_UNIT < SETTINGS_LEN" "0 \<le> LANGUAGE" "LANGUAGE < SETTINGS_LEN"
    "0 \<le> AUTO_ON_HOUR" "AUTO_ON_HOUR + 1 < SETTINGS_LEN" "0 \<le> AUTO_OFF_HOUR"
    "AUTO_OFF_HOUR + 1 < SETTINGS_LEN" "0 \<le> PROFILE_A" "PROFILE_A + PROFILE_LEN \<le> SETTINGS_LEN"
    "0 \<le> PROFILE_B" "PROFILE_B + PROFILE_LEN \<le> SETTINGS_LEN" "0 \<le> PROFILE_C"
    "PROFILE_C + PROFILE_LEN \<le> SETTINGS_LEN"
    by (simp_all add: address_defs PROFILE_LEN_def)
  have "(he_decode e, Some enc) \<in> set (map (\<lambda>e. (he_decode e, he_encode e)) HA_ENTITIES)"
    using assms by (auto intro: rev_image_eqI)
  then show thesis
    unfolding ha_codecs
    using zero [OF _ _ a(1,2)] nonzero [OF _ _ a(3,4)]
      enum [OF _ _ a(5,6) option_lists(1,2)] enum [OF _ _ a(7,8) option_lists(3,4)]
      enum [OF _ _ a(9,10) option_lists(5,6)] enum [OF _ _ a(11,12) option_lists(7,8)]
      time [OF _ _ a(13,14)] time [OF _ _ a(15,16)]
      profile [OF _ _ a(17,18)] profile [OF _ _ a(19,20)] profile [OF _ _ a(21,22)]
    by (simp only: list.set insert_iff empty_iff prod.inject option.inject option.distinct) blast
qed

lemma ha_command_shown_all:
  assumes "e \<in> set HA_ENTITIES" "he_encode e = Some enc" "valid_haval v" "enc v = Inr w"
    and "length (hs_settings s) = nat SETTINGS_LEN"
  shows "ha_command_shown (he_decode e) enc w s"
  using assms(1,2)
proof (cases rule: ha_command_cases)
  case zero then show ?thesis using assms(4,5) by (simp add: shown_switch)
next
  case nonzero then show ?thesis using assms(4,5) by (simp add: shown_switch)
next
  case enum then show ?thesis using assms(4,5) by (simp add: shown_enum)
next
  case time then show ?thesis using assms(3-5) by (simp add: shown_time)
next
  case profile then show ?thesis using assms(4,5) by (simp add: shown_profile)
qed

section \<open>The two surfaces\<close>

text \<open>A value the bridge publishes as text and the native value the integration shows for
  it; an integration entity without a value stands for an index or a time out of range.\<close>

definition hhmm :: "int \<Rightarrow> int \<Rightarrow> string" where
  "hhmm h m = fmt_int 10 2 h @ '':'' @ fmt_int 10 2 m"

fun same_value :: "pyval \<Rightarrow> haval \<Rightarrow> bool" where
  "same_value (VInt n) (HInt m) \<longleftrightarrow> n = m"
| "same_value (VFloat x) (HFloat y) \<longleftrightarrow> x = y"
| "same_value (VStr v) (HStr t) \<longleftrightarrow> v = t"
| "same_value (VStr v) (HBool b) \<longleftrightarrow> v = (if b then ''ON'' else ''OFF'')"
| "same_value (VStr v) (HTime h m) \<longleftrightarrow> v = hhmm h m"
| "same_value (VStr v) HNone \<longleftrightarrow>
     v = ''unknown'' \<or> v \<in> {hhmm h m |h m. 0 \<le> h \<and> 0 \<le> m \<and> (23 < h \<or> 59 < m)}"
| "same_value _ _ \<longleftrightarrow> False"

fun same_result :: "pyval res \<Rightarrow> haval res \<Rightarrow> bool" where
  "same_result (Inr x) (Inr y) \<longleftrightarrow> same_value x y"
| "same_result (Inl e) (Inl e') \<longleftrightarrow> e = e'"
| "same_result _ _ \<longleftrightarrow> False"

text \<open>The values each Home Assistant platform hands to an encoder, and the text of each
  as an MQTT command.\<close>

fun native_value :: "string \<Rightarrow> haval \<Rightarrow> bool" where
  "native_value platform (HBool b) \<longleftrightarrow> platform = ''switch''"
| "native_value platform (HStr s) \<longleftrightarrow> platform = ''select'' \<or> platform = ''text''"
| "native_value platform (HTime h m) \<longleftrightarrow> platform = ''time'' \<and> valid_haval (HTime h m)"
| "native_value platform _ \<longleftrightarrow> False"

fun mqtt_text :: "haval \<Rightarrow> string" where
  "mqtt_text (HBool b) = (if b then ''ON'' else ''OFF'')"
| "mqtt_text (HStr s) = s"
| "mqtt_text (HTime h m) = hhmm h m"
| "mqtt_text _ = []"

fun same_commands :: "string \<Rightarrow> (string \<Rightarrow> write_op res) option \<Rightarrow> ha_encoder option \<Rightarrow> bool" where
  "same_commands platform None None \<longleftrightarrow> True"
| "same_commands platform (Some be) (Some he) \<longleftrightarrow>
     (\<forall>v. native_value platform v \<longrightarrow> he v = be (mqtt_text v))"
| "same_commands platform _ _ \<longleftrightarrow> False"

definition counterpart :: "entity \<Rightarrow> ha_entity \<Rightarrow> ha_snapshot \<Rightarrow> bool" where
  "counterpart e h s \<longleftrightarrow> he_key h = en_key e \<and> he_name h = en_name e
     \<and> same_result (en_decode e (bridge_view s)) (he_decode h s)
     \<and> same_commands (he_platform h) (en_encode e) (he_encode h)"

lemma same_enum:
  "same_result (dec_enum a opts (bridge_view s)) (ha_enum a opts s)"
  by (simp add: dec_enum_def ha_enum_def ha_settings_byte_view Let_def)

lemma same_time:
  "same_result (dec_time a b (bridge_view s)) (ha_time a b s)"
  using ha_settings_byte_bounds [of s a] ha_settings_byte_bounds [of s b]
  by (auto simp: dec_time_def ha_time_def ha_settings_byte_view hhmm_def not_le Let_def)

lemma same_power: "same_result (dec_power (bridge_view s)) (bool_on_zero STANDBY s)"
  by (simp add: dec_power_def bool_on_zero_def ha_settings_byte_view)

lemma same_service:
  "same_result (dec_service (bridge_view s)) (bool_on_nonzero SERVICE_BOILER_ENABLE s)"
  by (simp add: dec_service_def bool_on_nonzero_def ha_settings_byte_view)

lemma same_decibar: "same_result (dec_live_decibar a (bridge_view s)) (live_decibar a s)"
  by (simp add: dec_live_decibar_def live_decibar_def ha_live_bytes_view Let_def)

lemma same_text:
  "same_result (dec_live_text a (bridge_view s)) (bind_res (live_text a s) (\<lambda>t. Inr (HStr t)))"
  by (simp add: dec_live_text_def live_text_def ha_live_bytes_view bind_res_def split: sum.split)

lemma same_count:
  assumes "length (hs_settings s) = nat SETTINGS_LEN"
  shows "same_result (dec_count (bridge_view s))
    (Inr (HInt (ha_le16 (hs_settings s) TOTAL_COFFEE_COUNT)))"
  using assms
  by (simp add: dec_count_def le16_def ha_le16_def py_item_def bridge_view_def address_defs
      SETTINGS_LEN_def)

lemma same_bool_commands:
  "same_commands ''switch'' (Some (encode_bool a on off)) (Some (ha_encode_bool a on off))"
proof -
  have on: "upper (strip ''ON'') = ''ON''" "upper (strip ''OFF'') = ''OFF''" by code_simp+
  have "ha_encode_bool a on off v = encode_bool a on off (mqtt_text v)"
    if "native_value ''switch'' v" for v
    using that by (cases v) (simp_all add: ha_encode_bool_def encode_bool_def on)
  then show ?thesis by simp
qed

lemma same_enum_commands:
  "same_commands ''select'' (Some (encode_enum a opts)) (Some (ha_encode_enum a opts))"
proof -
  have "ha_encode_enum a opts v = encode_enum a opts (mqtt_text v)"
    if "native_value ''select'' v" for v
    using that by (cases v) (simp_all add: ha_encode_enum_def encode_enum_def)
  then show ?thesis by simp
qed

lemma same_time_commands:
  "same_commands ''time'' (Some (encode_time a)) (Some (ha_encode_time a))"
proof -
  have "ha_encode_time a v = encode_time a (mqtt_text v)" if "native_value ''time'' v" for v
    using that by (cases v) (simp_all add: ha_encode_time_def hhmm_def encode_time_canonical [simplified])
  then show ?thesis by simp
qed

lemmas same_surface = same_enum same_time same_power same_service same_decibar same_text
  same_count same_bool_commands same_enum_commands same_time_commands

lemma counterparts_zip:
  assumes "length (hs_settings s) = nat SETTINGS_LEN"
  shows "list_all2 (\<lambda>e h. counterpart e h s) ENTITIES (take 11 HA_ENTITIES)"
  unfolding ENTITIES_def HA_ENTITIES_def Entity_def HaEntity_def
  using assms
  by (simp add: counterpart_def same_surface del: same_commands.simps(2-4) same_result.simps)

lemma bridge_counterpart:
  assumes "e \<in> set ENTITIES" "length (hs_settings s) = nat SETTINGS_LEN"
  shows "\<exists>h \<in> set HA_ENTITIES. counterpart e h s"
proof -
  obtain i where i: "i < length ENTITIES" "e = ENTITIES ! i" using assms(1) by (metis in_set_conv_nth)
  have z: "list_all2 (\<lambda>e h. counterpart e h s) ENTITIES (take 11 HA_ENTITIES)"
    by (rule counterparts_zip [OF assms(2)])
  then have "counterpart e (take 11 HA_ENTITIES ! i) s" "i < length (take 11 HA_ENTITIES)"
    using i by (auto simp: list_all2_conv_all_nth)
  then show ?thesis by (metis in_set_takeD nth_mem)
qed

text \<open>An accepted command is never empty.\<close>

lemma ha_command_bytes:
  assumes "e \<in> set HA_ENTITIES" "he_encode e = Some enc" "valid_haval v" "enc v = Inr (a, d)"
  shows "list_all is_byte d \<and> d \<noteq> []"
proof -
  let ?s = "\<lparr>hs_settings = replicate (nat SETTINGS_LEN) 0, hs_live = [], hs_available = True\<rparr>"
  have "list_all is_byte d"
    using ha_command_shown_all [OF assms, of ?s] by (simp add: ha_command_shown_def)
  moreover have "d \<noteq> []"
    using assms(1,2)
  proof (cases rule: ha_command_cases)
    case (profile b)
    then obtain t0 where "encode_profile t0 = Inr d"
      using assms(4) by (auto simp: encode_profile_at_def bind_res_eq_Inr split: haval.splits)
    then show ?thesis using encode_profile_ok [of t0 d] by (auto simp: profile_ok_def)
  qed (use assms(4) in \<open>auto simp: ha_encode_bool_def ha_encode_enum_def ha_encode_time_def
      split: haval.splits option.splits\<close>)
  ultimately show ?thesis by simp
qed

section \<open>Properties\<close>

text \<open>Every command that a writable integration entity accepts is a write of bytes
  inside the settings block, and once the block holds them the entity shows a value
  which, sent back, is the same write. This covers the switches, the selects, the time
  pickers and the pressure profiles, whose text is parsed and printed in binary64.\<close>

theorem ha_entity_command_shown:
  assumes "e \<in> set HA_ENTITIES" "he_encode e = Some enc" "valid_haval v" "enc v = Inr (a, d)"
    and "length (hs_settings s) = nat SETTINGS_LEN"
  shows "0 \<le> a \<and> a + int (length d) \<le> SETTINGS_LEN \<and> list_all is_byte d
    \<and> (\<exists>v'. he_decode e (s\<lparr>hs_settings := write_at (hs_settings s) (nat a) d\<rparr>) = Inr v'
          \<and> enc v' = Inr (a, d))"
  using ha_command_shown_all [OF assms]
  by (simp add: ha_command_shown_def ha_written_def)

theorem ha_entity_command_shown_witness:
  "\<exists>v'. ha_time AUTO_ON_HOUR AUTO_ON_MINUTE
          (\<lparr>hs_settings = replicate 115 0, hs_live = [], hs_available = True\<rparr>
            \<lparr>hs_settings := write_at (replicate 115 0) (nat 81) [7, 5]\<rparr>)
        = Inr v' \<and> ha_encode_time AUTO_ON_HOUR v' = Inr (81, [7, 5])"
proof -
  let ?e = "HaEntity ''auto_on'' ''Auto-On Time'' ''time''
    (ha_time AUTO_ON_HOUR AUTO_ON_MINUTE) (Some (ha_encode_time AUTO_ON_HOUR)) ''mdi:clock-start''"
  let ?s = "\<lparr>hs_settings = replicate 115 0, hs_live = [], hs_available = True\<rparr> :: ha_snapshot"
  have "?e \<in> set HA_ENTITIES" by (simp add: HA_ENTITIES_def)
  moreover have "he_encode ?e = Some (ha_encode_time AUTO_ON_HOUR)" by (simp add: HaEntity_def)
  moreover have "valid_haval (HTime 7 5)" by simp
  moreover have "ha_encode_time AUTO_ON_HOUR (HTime 7 5) = Inr (81, [7, 5])"
    by (simp add: ha_encode_time_def AUTO_ON_HOUR_def)
  moreover have "length (hs_settings ?s) = nat SETTINGS_LEN" by (simp add: SETTINGS_LEN_def)
  ultimately show ?thesis
    using ha_entity_command_shown [of ?e "ha_encode_time AUTO_ON_HOUR" "HTime 7 5" 81 "[7, 5]" ?s]
    by (simp add: HaEntity_def)
qed

text \<open>C26: The bridge and the integration read one memory alike: each of the bridge's
  eleven entities has an integration entity of the same key and name that decodes every
  full snapshot to the same value (an option or a time out of range being the native
  entity's unknown) or raises the same exception, and a command given natively is the
  write, or the error, that the bridge makes of its MQTT text.\<close>

theorem surfaces_agree:
  assumes "e \<in> set ENTITIES" "length (hs_settings s) = nat SETTINGS_LEN"
  shows "\<exists>h \<in> set HA_ENTITIES. he_key h = en_key e \<and> he_name h = en_name e
    \<and> same_result (en_decode e (bridge_view s)) (he_decode h s)
    \<and> same_commands (he_platform h) (en_encode e) (he_encode h)"
  using bridge_counterpart [OF assms] unfolding counterpart_def .

theorem surfaces_agree_witness:
  "\<exists>h \<in> set HA_ENTITIES. he_key h = ''power'' \<and> he_name h = ''Power''
    \<and> same_result (dec_power (bridge_view \<lparr>hs_settings = replicate 115 0, hs_live = [], hs_available = True\<rparr>))
        (he_decode h \<lparr>hs_settings = replicate 115 0, hs_live = [], hs_available = True\<rparr>)
    \<and> same_commands (he_platform h) (Some (encode_bool STANDBY 0 1)) (he_encode h)"
proof -
  let ?e = "Entity ''power'' ''Power'' ''switch'' dec_power (Some (encode_bool STANDBY 0 1))
    [icon_config ''mdi:power'']"
  let ?s = "\<lparr>hs_settings = replicate 115 0, hs_live = [], hs_available = True\<rparr> :: ha_snapshot"
  have "?e \<in> set ENTITIES" by (simp add: ENTITIES_def)
  moreover have "length (hs_settings ?s) = nat SETTINGS_LEN" by (simp add: SETTINGS_LEN_def)
  ultimately show ?thesis
    using surfaces_agree [of ?e ?s] by (simp add: Entity_def del: same_commands.simps same_result.simps)
qed

text \<open>A temperature that a thermostat accepts is one byte, the rounded setpoint,
  within the limits of its boiler; the thermostat then shows it as its target, accepts
  it again as the same write, and the bridge accepts its decimal text on the climate
  entity of the same key as the same write.\<close>

theorem ha_setpoint_shown:
  assumes "c \<in> set HA_CLIMATE_ENTITIES" "encode_setpoint c x s = Inr (a, d)"
    and "length (hs_settings s) = nat SETTINGS_LEN"
  shows "\<exists>v. d = [v] \<and> fst (hc_range_c c) \<le> v \<and> v \<le> snd (hc_range_c c)
    \<and> target_c c (s\<lparr>hs_settings := write_at (hs_settings s) (nat a) d\<rparr>) = v
    \<and> encode_setpoint c (Fin (of_int v)) s = Inr (a, d)
    \<and> (\<exists>b \<in> set CLIMATE_ENTITIES. cl_key b = hc_key c \<and> cl_encode_target b (int_str v) = Inr (a, d))"
proof -
  obtain v where v: "a = hc_setpoint_address c" "d = [v]" "fst (hc_range_c c) \<le> v"
      "v \<le> snd (hc_range_c c)" "py_round x = Inr v"
    using assms(2) by (auto simp: encode_setpoint_def bind_res_eq_Inr split: prod.splits if_splits)
  have c: "hc_setpoint_address c \<in> {2, 3}" "85 \<le> fst (hc_range_c c)" "snd (hc_range_c c) \<le> 125"
    using assms(1)
    by (auto simp: HA_CLIMATE_ENTITIES_def address_defs BREW_TEMP_RANGE_C_def SERVICE_TEMP_RANGE_C_def)
  have r: "0 \<le> v" "v < 2 ^ 53" "is_byte v" using v(3,4) c(2,3) by (simp_all add: is_byte_def)
  have "ha_settings_byte (ha_written s (a, [v])) a = v"
    using assms(3) c(1) r(3) v(1) by (subst ha_settings_byte_written) (auto simp: SETTINGS_LEN_def)
  then have t: "target_c c (s\<lparr>hs_settings := write_at (hs_settings s) (nat a) d\<rparr>) = v"
    using v(1,2) by (simp add: target_c_def ha_written_def)
  have e: "encode_setpoint c (Fin (of_int v)) s = Inr (a, d)"
    using v by (cases "hc_range_c c") (simp add: encode_setpoint_def)
  have "\<exists>b \<in> set CLIMATE_ENTITIES. cl_key b = hc_key c
      \<and> cl_encode_target b (int_str v)
        = encode_ranged (hc_setpoint_address c) (fst (hc_range_c c)) (snd (hc_range_c c)) (int_str v)"
    using assms(1) by (auto simp: HA_CLIMATE_ENTITIES_def CLIMATE_ENTITIES_def)
  moreover have "encode_ranged (hc_setpoint_address c) (fst (hc_range_c c)) (snd (hc_range_c c)) (int_str v)
      = Inr (a, d)"
    using v r by (simp add: encode_ranged_def py_float_int_str)
  ultimately show ?thesis using v t e by metis
qed

theorem ha_setpoint_shown_witness:
  "\<exists>v. [105] = [v] \<and> 85 \<le> v \<and> v \<le> 115
    \<and> target_c (HA_CLIMATE_ENTITIES ! 0)
        (\<lparr>hs_settings = replicate 115 0, hs_live = [], hs_available = True\<rparr>
          \<lparr>hs_settings := write_at (replicate 115 0) (nat 2) [105]\<rparr>) = v
    \<and> encode_setpoint (HA_CLIMATE_ENTITIES ! 0) (Fin (of_int v))
        \<lparr>hs_settings = replicate 115 0, hs_live = [], hs_available = True\<rparr> = Inr (2, [105])
    \<and> (\<exists>b \<in> set CLIMATE_ENTITIES. cl_key b = hc_key (HA_CLIMATE_ENTITIES ! 0)
          \<and> cl_encode_target b (int_str v) = Inr (2, [105]))"
proof -
  let ?c = "HA_CLIMATE_ENTITIES ! 0"
  let ?s = "\<lparr>hs_settings = replicate 115 0, hs_live = [], hs_available = True\<rparr> :: ha_snapshot"
  have r: "fst (hc_range_c ?c) = 85" "snd (hc_range_c ?c) = 115"
    by (simp_all add: HA_CLIMATE_ENTITIES_def BREW_TEMP_RANGE_C_def)
  have "?c \<in> set HA_CLIMATE_ENTITIES" by (simp add: HA_CLIMATE_ENTITIES_def)
  moreover have "encode_setpoint ?c (Fin (1052 / 10)) ?s = Inr (2, [105])" by code_simp
  moreover have "length (hs_settings ?s) = nat SETTINGS_LEN" by (simp add: SETTINGS_LEN_def)
  ultimately show ?thesis
    using ha_setpoint_shown [of ?c "Fin (1052 / 10)" ?s 2 "[105]"] unfolding r by simp
qed

end
