(* ===== verification/HaPush.thy ===== *)
theory HaPush
  imports HaCoordinator HaSurfaces Intents
begin

text \<open>
  The push channel between the two processes: the frames the bridge's push server sends
  (\<open>WsPushServer._wrap\<close>), what \<open>custom_components/rocket_r60v/push_client.py\<close> makes of a
  frame, and its subscribe loop with the reconnect back-off. The end-to-end properties
  join the integration's entities and coordinator with the bridge's store and write
  intents.
\<close>

section \<open>Frames of the bridge\<close>

definition SCHEMA :: int where
  "SCHEMA = 1"

definition state_frame :: "rat \<Rightarrow> raw_snap \<Rightarrow> json" where
  "state_frame ts state =
     JObj [(''type'', JStr ''state''), (''schema'', JInt SCHEMA), (''ts'', JFloat (Fin ts)),
           (''available'', JBool (rs_available state)),
           (''settings'', JList (map JInt (rs_settings state))),
           (''live'', JObj (map (\<lambda>(k, d). (k, JList (map JInt d))) (rs_live state)))]"

section \<open>Handling a frame\<close>

text \<open>\<open>list(value)\<close>.\<close>

fun py_list :: "json \<Rightarrow> json list res" where
  "py_list (JList xs) = Inr xs"
| "py_list (JStr s) = Inr (map (\<lambda>c. JStr [c]) s)"
| "py_list (JObj kvs) = Inr (map (\<lambda>(k, _). JStr k) kvs)"
| "py_list _ = Inl TypeError"

fun all_ints :: "json list \<Rightarrow> int list option" where
  "all_ints [] = Some []"
| "all_ints (j # js) =
     (case (as_int j, all_ints js) of (Some n, Some ns) \<Rightarrow> Some (n # ns) | _ \<Rightarrow> None)"

text \<open>The program keeps register values of any type; a snapshot of the model holds
  integers, so a frame with other values is \<open>Untyped\<close>. No bridge sends one.\<close>

datatype handled = Ignored | Updated ha_snapshot | Raised exn | Untyped

fun live_entries :: "(string \<times> json) list \<Rightarrow> (int \<times> int list) list \<Rightarrow> (int \<times> int list) list option" where
  "live_entries [] live = Some live"
| "live_entries ((key, value) # kvs) live =
     (case (py_list value, py_int 10 key) of
        (Inr js, Inr address) \<Rightarrow>
          (case all_ints js of
             None \<Rightarrow> None
           | Some d \<Rightarrow> live_entries kvs (AList.update address d live))
      | _ \<Rightarrow> live_entries kvs live)"

definition handle_frame :: "json option \<Rightarrow> handled" where
  "handle_frame parsed =
     (case parsed of
        Some (JObj data) \<Rightarrow>
          if map_of data ''type'' \<noteq> Some (JStr ''state'') then Ignored
          else
            (case map_of data ''settings'' of
               Some (JList regs) \<Rightarrow>
                 let live = json_get data ''live'' JNull;
                     live_raw = (if json_true live then live else JObj [])
                 in (case live_raw of
                       JObj kvs \<Rightarrow>
                         (case (live_entries kvs [], all_ints regs) of
                            (Some lv, Some st) \<Rightarrow>
                              Updated \<lparr>hs_settings = st, hs_live = lv,
                                hs_available = json_true (json_get data ''available'' (JBool True))\<rparr>
                          | _ \<Rightarrow> Untyped)
                     | _ \<Rightarrow> Raised AttributeError)
             | _ \<Rightarrow> Ignored)
      | _ \<Rightarrow> Ignored)"

section \<open>The subscribe loop\<close>

definition BACKOFF_START :: time where
  "BACKOFF_START = 1"

definition BACKOFF_MAX :: time where
  "BACKOFF_MAX = 30"

text \<open>One connection: refused, or a stream of text messages (what \<open>json.loads\<close> makes of
  each, \<open>None\<close> when it raises) that ends by itself or with an exception.\<close>

datatype session = Refused exn | Streamed "json option list" "exn option"

definition stream_errors :: "exn set" where
  "stream_errors = {ClientError, TimeoutError, OSError}"

fun handle_messages :: "json option list \<Rightarrow> coordinator \<Rightarrow> unit res \<times> coordinator" where
  "handle_messages [] co = (Inr (), co)"
| "handle_messages (m # ms) co =
     (case handle_frame m of
        Updated s \<Rightarrow> handle_messages ms (call_base (Set_updated_data s) co)
      | Raised e \<Rightarrow> (Inl e, co)
      | _ \<Rightarrow> handle_messages ms co)"

text \<open>One pass of the loop: an exception that ends the task, or the delay before the next
  connection; with the back-off carried over.\<close>

definition push_round :: "session \<Rightarrow> time \<times> coordinator \<Rightarrow> time res \<times> time \<times> coordinator" where
  "push_round session s =
     (let (backoff, co) = s;
          (r, backoff, co) =
            (case session of
               Refused e \<Rightarrow> (Inl e, backoff, co)
             | Streamed ms end \<Rightarrow>
                 (case handle_messages ms co of
                    (Inl e, co) \<Rightarrow> (Inl e, BACKOFF_START, co)
                  | (Inr _, co) \<Rightarrow>
                      ((case end of None \<Rightarrow> Inr () | Some e \<Rightarrow> Inl e), BACKOFF_START, co)))
      in (case r of
            Inl e \<Rightarrow>
              if e \<in> stream_errors
              then (Inr (min backoff BACKOFF_MAX), min (backoff * 2) BACKOFF_MAX,
                    call_base Set_update_error co)
              else (Inl e, backoff, co)
          | Inr _ \<Rightarrow> (Inr (min backoff BACKOFF_MAX), min (backoff * 2) BACKOFF_MAX,
                      call_base Set_update_error co)))"

fun push_run :: "session list \<Rightarrow> time \<times> coordinator \<Rightarrow> time res list \<times> time \<times> coordinator" where
  "push_run [] s = ([], s)"
| "push_run (session # sessions) s =
     (case push_round session s of
        (Inl e, s) \<Rightarrow> ([Inl e], s)
      | (Inr delay, s) \<Rightarrow> (case push_run sessions s of (rs, s) \<Rightarrow> (Inr delay # rs, s)))"

text \<open>The client's task: it runs, or an exception has ended it. Its stop cancels the task and
  awaits it, and an exception other than the cancellation is raised again there.\<close>

datatype push_task = Running | Ended exn

record push_client =
  pc_task :: "push_task option"
  pc_closing :: bool

definition new_push_client :: push_client where
  "new_push_client = \<lparr>pc_task = None, pc_closing = False\<rparr>"

definition push_start :: "push_client \<Rightarrow> push_client" where
  "push_start pc = pc\<lparr>pc_task := Some Running\<rparr>"

definition push_stop :: "push_client \<Rightarrow> unit res \<times> push_client" where
  "push_stop pc =
     (let pc = pc\<lparr>pc_closing := True\<rparr>
      in (case pc_task pc of
            Some (Ended e) \<Rightarrow>
              if e = CancelledError then (Inr (), pc\<lparr>pc_task := None\<rparr>) else (Inl e, pc)
          | _ \<Rightarrow> (Inr (), pc\<lparr>pc_task := None\<rparr>)))"

text \<open>What is left of the task after a run.\<close>

definition task_after :: "time res list \<Rightarrow> push_task" where
  "task_after rs = (case rs of [] \<Rightarrow> Running | _ \<Rightarrow> (case last rs of Inl e \<Rightarrow> Ended e | Inr _ \<Rightarrow> Running))"

section \<open>Facts\<close>

lemma all_ints_map [simp]: "all_ints (map JInt xs) = Some xs"
  by (induction xs) auto

lemma as_bytes_map: "list_all is_byte d \<Longrightarrow> as_bytes (map JInt d) = Some d"
  by (induction d) (auto simp: is_byte_def)

lemma py_int_str: "0 \<le> n \<Longrightarrow> py_int 10 (int_str n) = Inr n"
  by (rule py_int_fmt_int) auto

lemma live_entries_wire:
  assumes "\<forall>(a, d) \<in> set live. 0 \<le> a" "distinct (map fst (acc @ live))"
  shows "live_entries (map (\<lambda>(k, d). (k, JList (map JInt d))) (map (\<lambda>(a, d). (int_str a, d)) live)) acc
    = Some (acc @ live)"
  using assms
proof (induction live arbitrary: acc)
  case (Cons p live)
  obtain a d where p: "p = (a, d)" by (cases p)
  have new: "a \<notin> fst ` set acc" using Cons.prems(2) by (auto simp: p)
  have "AList.update a d acc = acc @ [(a, d)]" using new by (induction acc) auto
  then show ?case using Cons by (simp add: p py_int_str)
qed simp

lemma handle_state_frame:
  assumes "\<forall>(a, d) \<in> set (sn_live (st_snapshot st)). 0 \<le> a" "distinct (map fst (sn_live (st_snapshot st)))"
  shows "handle_frame (Some (state_frame ts (raw_snapshot st)))
    = Updated \<lparr>hs_settings = settings st, hs_live = sn_live (st_snapshot st), hs_available = available st\<rparr>"
proof -
  let ?kvs = "map (\<lambda>(k, d). (k, JList (map JInt d)))
      (map (\<lambda>(a, d). (int_str a, d)) (sn_live (st_snapshot st)))"
  have "live_entries ?kvs [] = Some (sn_live (st_snapshot st))"
    using live_entries_wire [of "sn_live (st_snapshot st)" "[]"] assms by simp
  moreover have "(if json_true (JObj ?kvs) then JObj ?kvs else JObj []) = JObj ?kvs" by simp
  ultimately show ?thesis
    unfolding handle_frame_def state_frame_def raw_snapshot_def
    by (simp add: json_get_def Let_def del: map_map)
qed

text \<open>The live registers of a store that only polled real addresses.\<close>

definition live_keys_ok :: "store \<Rightarrow> bool" where
  "live_keys_ok st \<longleftrightarrow> distinct (map fst (sn_live (st_snapshot st)))
     \<and> (\<forall>(a, d) \<in> set (sn_live (st_snapshot st)). 0 \<le> a)"

fun polls_real_address :: "store_op \<Rightarrow> bool" where
  "polls_real_address (Live now a d) \<longleftrightarrow> 0 \<le> a"
| "polls_real_address _ \<longleftrightarrow> True"

lemma live_keys_update:
  assumes "live_keys_ok st" "0 \<le> a" "sn_live (st_snapshot st') = AList.update a d (sn_live (st_snapshot st))"
  shows "live_keys_ok st'"
proof -
  let ?l = "sn_live (st_snapshot st)"
  have "distinct (map fst (AList.update a d ?l))"
    using assms(1) by (simp add: live_keys_ok_def AList.distinct_update)
  moreover have "0 \<le> b" if "(b, e) \<in> set (AList.update a d ?l)" for b e
  proof -
    have "b \<in> fst ` set (AList.update a d ?l)" using that by (force simp: image_iff)
    then have "b = a \<or> b \<in> fst ` set ?l" by (auto simp: AList.dom_update)
    then show ?thesis using assms(1,2) by (auto simp: live_keys_ok_def)
  qed
  ultimately show ?thesis unfolding live_keys_ok_def assms(3) by auto
qed

lemma live_keys_frame:
  "live_keys_ok st \<Longrightarrow> sn_live (st_snapshot st') = sn_live (st_snapshot st) \<Longrightarrow> live_keys_ok st'"
  by (simp add: live_keys_ok_def)

lemma live_keys_ease:
  assumes "live_keys_ok st" "0 \<le> a"
  shows "live_keys_ok (ease a b st)"
  using assms live_keys_update [OF assms]
  by (auto simp: ease_def set_live_def Let_def split: option.split)

lemma live_keys_step:
  assumes "live_keys_ok st" "polls_real_address op"
  shows "live_keys_ok (store_step op st)"
proof (cases op)
  case (Live now a d)
  then show ?thesis using assms by (auto intro!: live_keys_update [of st a _ d] simp: update_live_fields)
next
  case (Optimistic a d)
  show ?thesis
    unfolding Optimistic store_step.simps
    by (rule apply_optimistic_cases [of a d st]) (auto intro: live_keys_frame [OF assms(1)])
next
  case (Interpolate now)
  have "0 \<le> CURRENT_BREW_TEMP" "0 \<le> CURRENT_SERVICE_TEMP" by (simp_all add: address_defs)
  then show ?thesis
    using assms(1) by (simp add: Interpolate interpolate_live_temps_def live_keys_ease Let_def)
qed (auto intro: live_keys_frame [OF assms(1)] simp: update_settings_fields note_fields)

lemma live_keys_run:
  "live_keys_ok st \<Longrightarrow> list_all polls_real_address ops \<Longrightarrow> live_keys_ok (store_run ops st)"
  by (induction ops arbitrary: st) (auto simp: live_keys_step)

lemma live_keys_new: "live_keys_ok (new_store g sa step)"
  by (simp add: live_keys_ok_def new_store_def empty_snapshot_def)

lemma handle_messages_append:
  "handle_messages (ms @ ms') co =
     (case handle_messages ms co of (Inl e, co) \<Rightarrow> (Inl e, co) | (Inr _, co) \<Rightarrow> handle_messages ms' co)"
  by (induction ms arbitrary: co) (auto split: handled.split)

text \<open>Which frames raise, and what they do to the task.\<close>

definition malformed :: "json option \<Rightarrow> bool" where
  "malformed m \<longleftrightarrow>
     (case m of
        Some (JObj data) \<Rightarrow>
          map_of data ''type'' = Some (JStr ''state'')
          \<and> (case map_of data ''settings'' of Some (JList _) \<Rightarrow> True | _ \<Rightarrow> False)
          \<and> json_true (json_get data ''live'' JNull)
          \<and> (case json_get data ''live'' JNull of JObj _ \<Rightarrow> False | _ \<Rightarrow> True)
      | _ \<Rightarrow> False)"

lemma handle_frame_raises: "handle_frame m = Raised e \<longleftrightarrow> malformed m \<and> e = AttributeError"
  by (auto simp: handle_frame_def malformed_def Let_def split: option.splits json.splits if_splits)

lemma handle_messages_result:
  "fst (handle_messages ms co) = (if list_ex malformed ms then Inl AttributeError else Inr ())"
  "co_client (snd (handle_messages ms co)) = co_client co"
proof (induction ms arbitrary: co)
  case (Cons m ms)
  { case 1 show ?case
      using Cons handle_frame_raises [of m] by (cases "handle_frame m") (auto simp: call_base_def) }
  { case 2 show ?case using Cons by (cases "handle_frame m") (auto simp: call_base_def) }
qed simp_all

fun ends_well :: "session \<Rightarrow> bool" where
  "ends_well (Refused e) \<longleftrightarrow> e \<in> stream_errors"
| "ends_well (Streamed ms ending) \<longleftrightarrow> (case ending of None \<Rightarrow> True | Some e \<Rightarrow> e \<in> stream_errors)"

fun breaks :: "session \<Rightarrow> bool" where
  "breaks (Refused e) \<longleftrightarrow> False"
| "breaks (Streamed ms ending) \<longleftrightarrow> list_ex malformed ms"

lemma push_round_result:
  assumes "ends_well session"
  shows "(case fst (push_round session (backoff, co)) of
           Inl e \<Rightarrow> breaks session \<and> e = AttributeError | Inr _ \<Rightarrow> \<not> breaks session)
    \<and> co_client (snd (snd (push_round session (backoff, co)))) = co_client co"
proof (cases session)
  case (Streamed ms ending)
  obtain r co' where m: "handle_messages ms co = (r, co')" by (rule prod.exhaust)
  then have "r = (if list_ex malformed ms then Inl AttributeError else Inr ())" "co_client co' = co_client co"
    using handle_messages_result [of ms co] by simp_all
  then show ?thesis
    using assms by (auto simp: Streamed m push_round_def stream_errors_def call_base_def split: option.splits)
qed (use assms in \<open>simp add: push_round_def call_base_def\<close>)

lemma push_run_result:
  assumes "list_all ends_well sessions"
  shows "task_after (fst (push_run sessions s)) = (if list_ex breaks sessions then Ended AttributeError else Running)
    \<and> co_client (snd (snd (push_run sessions s))) = co_client (snd s)"
  using assms
proof (induction sessions arbitrary: s)
  case (Cons session sessions)
  obtain r s' where r: "push_round session s = (r, s')" by (rule prod.exhaust)
  obtain rs s'' where rs: "push_run sessions s' = (rs, s'')" by (rule prod.exhaust)
  have one: "(case r of Inl e \<Rightarrow> breaks session \<and> e = AttributeError | Inr _ \<Rightarrow> \<not> breaks session)
      \<and> co_client (snd s') = co_client (snd s)"
    using push_round_result [of session "fst s" "snd s"] Cons.prems r by simp
  have more: "task_after rs = (if list_ex breaks sessions then Ended AttributeError else Running)
      \<and> co_client (snd s'') = co_client (snd s')"
    using Cons.IH [of s'] Cons.prems rs by simp
  show ?case
    using one more by (cases r) (auto simp: r rs task_after_def split: list.splits)
qed (simp add: task_after_def)

section \<open>Properties\<close>

text \<open>A state frame whose live registers are a truthy value that is not an object ends
  the subscription for good: the exception escapes the loop, no later connection is
  tried, and the coordinator is not told, so that the last snapshot stays in force.\<close>

theorem malformed_frame_ends_stream:
  assumes "handle_messages ms co = (Inr (), co')"
    and "map_of data ''type'' = Some (JStr ''state'')" "map_of data ''settings'' = Some (JList regs)"
    and "map_of data ''live'' = Some live" "json_true live" "\<forall>kvs. live \<noteq> JObj kvs"
  shows "push_run (Streamed (ms @ Some (JObj data) # ms') ending # sessions) (backoff, co)
    = ([Inl AttributeError], BACKOFF_START, co')"
proof -
  have "handle_frame (Some (JObj data)) = Raised AttributeError"
    using assms(2-6) by (cases live) (simp_all add: handle_frame_def json_get_def)
  then have "handle_messages (ms @ Some (JObj data) # ms') co = (Inl AttributeError, co')"
    using assms(1) by (simp add: handle_messages_append)
  then show ?thesis by (simp add: push_round_def stream_errors_def)
qed

theorem malformed_frame_ends_stream_witness:
  "push_run [Streamed ([] @ [Some (JObj [(''type'', JStr ''state''), (''settings'', JList []),
         (''live'', JList [JInt 1])])]) None, Refused OSError]
       (1, new_coordinator (ha_new_conn (demo_tape []) 10) (\<lambda>t. t) None None True)
     = ([Inl AttributeError], BACKOFF_START,
        new_coordinator (ha_new_conn (demo_tape []) 10) (\<lambda>t. t) None None True)"
  by (rule malformed_frame_ends_stream [where live = "JList [JInt 1]" and regs = "[]"]) simp_all

end
