(* ===== verification/HaPlatforms.thy ===== *)
theory HaPlatforms
  imports HaCoordinator HaSurfaces
begin

text \<open>
  The platforms of the integration: the base entity (\<open>entity.py\<close>), switches and timer
  switches (\<open>switch.py\<close>), selects, time pickers and texts, thermostats (\<open>climate.py\<close>),
  the diagnostics of \<open>sensor.py\<close> and \<open>binary_sensor.py\<close>, the button and the clock sync
  (\<open>clock.py\<close>), all over the coordinator's cached snapshot. An entity is its
  description and the coordinator; only a timer switch has a state of its own.
\<close>

section \<open>The base entity\<close>

text \<open>\<open>super().available\<close> of the coordinator entity is \<open>last_update_success\<close>.\<close>

definition entity_available :: "coordinator \<Rightarrow> bool" where
  "entity_available co \<longleftrightarrow>
     co_last_update_success co \<and> (case co_data co of None \<Rightarrow> False | Some s \<Rightarrow> hs_available s)"

text \<open>Decoding with no snapshot is an attribute error of \<open>None\<close>.\<close>

definition decoded :: "(ha_snapshot \<Rightarrow> 'a res) \<Rightarrow> coordinator \<Rightarrow> 'a res" where
  "decoded f co = (case co_data co of None \<Rightarrow> Inl AttributeError | Some s \<Rightarrow> f s)"

definition native_value :: "ha_entity \<Rightarrow> coordinator \<Rightarrow> haval res" where
  "native_value e co = decoded (he_decode e) co"

text \<open>The command of a switch, select, time picker or text.\<close>

definition set_value :: "ha_entity \<Rightarrow> haval \<Rightarrow> coordinator \<Rightarrow> unit res \<times> coordinator" where
  "set_value e value co =
     (case he_encode e of
        None \<Rightarrow> (Inl TypeError, co)
      | Some encode \<Rightarrow>
          (case encode value of
             Inl x \<Rightarrow> (Inl x, co)
           | Inr (address, data) \<Rightarrow> async_write address data (Some (he_key e)) co))"

definition switch_turn_on :: "ha_entity \<Rightarrow> coordinator \<Rightarrow> unit res \<times> coordinator" where
  "switch_turn_on e co = set_value e (HBool True) co"

definition switch_turn_off :: "ha_entity \<Rightarrow> coordinator \<Rightarrow> unit res \<times> coordinator" where
  "switch_turn_off e co = set_value e (HBool False) co"

definition select_option :: "ha_entity \<Rightarrow> string \<Rightarrow> coordinator \<Rightarrow> unit res \<times> coordinator" where
  "select_option e option co = set_value e (HStr option) co"

definition time_set_value :: "ha_entity \<Rightarrow> int \<times> int \<Rightarrow> coordinator \<Rightarrow> unit res \<times> coordinator" where
  "time_set_value e value co = set_value e (HTime (fst value) (snd value)) co"

definition text_set_value :: "ha_entity \<Rightarrow> string \<Rightarrow> coordinator \<Rightarrow> unit res \<times> coordinator" where
  "text_set_value e value co = set_value e (HStr value) co"

definition switch_is_on :: "ha_entity \<Rightarrow> coordinator \<Rightarrow> bool res" where
  "switch_is_on e co = bind_res (native_value e co) (\<lambda>v. Inr (truthy v))"

definition select_icon :: "ha_entity \<Rightarrow> coordinator \<Rightarrow> string option res" where
  "select_icon e co = bind_res (native_value e co) (\<lambda>v. Inr (icon_for e v))"

section \<open>The entities each platform adds\<close>

text \<open>Their keys, from which the unique ids are formed.\<close>

definition sensor_keys :: "coordinator \<Rightarrow> string list" where
  "sensor_keys co =
     map he_key (entities_for_platform ''sensor'') @ [''connection'']
     @ (if bridge_health_enabled co
        then [''bridge_link'', ''bridge_signal'', ''bridge_recoveries'', ''bridge_last_recovery'',
              ''bridge_uptime''] else [])"

definition binary_sensor_keys :: "coordinator \<Rightarrow> string list" where
  "binary_sensor_keys co =
     (if co_push_enabled co then [''machine_connectivity''] else [])
     @ (if bridge_health_enabled co
        then [''bridge_diagnostic_window'', ''bridge_machine_reachable''] else [])"

definition switch_keys :: "string list" where
  "switch_keys = map he_key (entities_for_platform ''switch'') @ map ts_key TIMER_SWITCHES"

definition select_keys :: "string list" where
  "select_keys = map he_key (entities_for_platform ''select'')"

definition time_keys :: "string list" where
  "time_keys = map he_key (entities_for_platform ''time'')"

definition text_keys :: "string list" where
  "text_keys = map he_key (entities_for_platform ''text'')"

definition climate_keys :: "string list" where
  "climate_keys = map hc_key HA_CLIMATE_ENTITIES"

definition button_keys :: "string list" where
  "button_keys = [''end_cooldown'']"

section \<open>Timer switches\<close>

record timer_entity =
  te_desc :: timer_switch
  te_configured :: "int \<times> int"

definition new_timer :: "timer_switch \<Rightarrow> timer_entity" where
  "new_timer desc = \<lparr>te_desc = desc, te_configured = ts_default desc\<rparr>"

definition snapshot_time :: "timer_entity \<Rightarrow> coordinator \<Rightarrow> (int \<times> int) option res" where
  "snapshot_time t co =
     decoded (\<lambda>s. Inr (timer_time s (ts_hour_address (te_desc t)) (ts_minute_address (te_desc t)))) co"

definition timer_is_on :: "timer_entity \<Rightarrow> coordinator \<Rightarrow> bool res" where
  "timer_is_on t co = bind_res (snapshot_time t co) (\<lambda>v. Inr (v \<noteq> None))"

definition configured_time :: "timer_entity \<Rightarrow> string" where
  "configured_time t = fmt_int 10 2 (fst (te_configured t)) @ '':'' @ fmt_int 10 2 (snd (te_configured t))"

definition handle_coordinator_update :: "coordinator \<Rightarrow> timer_entity \<Rightarrow> timer_entity res" where
  "handle_coordinator_update co t =
     bind_res (snapshot_time t co)
       (\<lambda>current. Inr (case current of None \<Rightarrow> t | Some hm \<Rightarrow> t\<lparr>te_configured := hm\<rparr>))"

text \<open>The stored attribute of the last run, \<open>None\<close> when there is none or it is not text;
  any malformed text is ignored.\<close>

definition parse_stored :: "string \<Rightarrow> (int \<times> int) option" where
  "parse_stored stored =
     (case split_on (CHR '':'') stored of
        [h, m] \<Rightarrow>
          (case (py_int 10 h, py_int 10 m) of
             (Inr hour, Inr minute) \<Rightarrow>
               if 0 \<le> hour \<and> hour \<le> 23 \<and> 0 \<le> minute \<and> minute \<le> 59
               then Some (hour, minute) else None
           | _ \<Rightarrow> None)
      | _ \<Rightarrow> None)"

definition added_to_hass :: "string option \<Rightarrow> coordinator \<Rightarrow> timer_entity \<Rightarrow> timer_entity res" where
  "added_to_hass stored co t =
     bind_res (snapshot_time t co)
       (\<lambda>current. Inr (case current of
            Some hm \<Rightarrow> t\<lparr>te_configured := hm\<rparr>
          | None \<Rightarrow>
              (case Option.bind stored parse_stored of
                 None \<Rightarrow> t | Some hm \<Rightarrow> t\<lparr>te_configured := hm\<rparr>)))"

definition timer_turn_on :: "timer_entity \<Rightarrow> coordinator \<Rightarrow> unit res \<times> coordinator" where
  "timer_turn_on t co =
     (let (address, data) = encode_timer (ts_hour_address (te_desc t)) (Some (te_configured t))
      in async_write address data (Some (ts_key (te_desc t))) co)"

definition timer_turn_off :: "timer_entity \<Rightarrow> coordinator \<Rightarrow> unit res \<times> coordinator" where
  "timer_turn_off t co =
     (let (address, data) = encode_timer (ts_hour_address (te_desc t)) None
      in async_write address data (Some (ts_key (te_desc t))) co)"

section \<open>Thermostats\<close>

text \<open>The mode and the action have the same two values here, heat (or heating) and off.\<close>

datatype hvac = Heat | Off

definition current_temperature :: "ha_climate \<Rightarrow> coordinator \<Rightarrow> int res" where
  "current_temperature c co = decoded (current_c c) co"

definition target_temperature :: "ha_climate \<Rightarrow> coordinator \<Rightarrow> int res" where
  "target_temperature c co = decoded (\<lambda>s. Inr (target_c c s)) co"

definition hvac_mode :: "ha_climate \<Rightarrow> coordinator \<Rightarrow> hvac res" where
  "hvac_mode c co = decoded (\<lambda>s. Inr (if hc_is_on c s then Heat else Off)) co"

definition hvac_action :: "ha_climate \<Rightarrow> coordinator \<Rightarrow> hvac res" where
  "hvac_action c co = decoded (\<lambda>s. Inr (if hc_is_on c s then Heat else Off)) co"

definition set_temperature :: "ha_climate \<Rightarrow> pyfloat option \<Rightarrow> coordinator \<Rightarrow> unit res \<times> coordinator" where
  "set_temperature c temperature co =
     (case temperature of
        None \<Rightarrow> (Inr (), co)
      | Some x \<Rightarrow>
          (case encode_setpoint c x (case co_data co of None \<Rightarrow> seed_snapshot | Some s \<Rightarrow> s) of
             Inl e \<Rightarrow> (Inl e, co)
           | Inr (address, data) \<Rightarrow> async_write address data (Some (hc_key c)) co))"

definition set_hvac_mode :: "ha_climate \<Rightarrow> hvac \<Rightarrow> coordinator \<Rightarrow> unit res \<times> coordinator" where
  "set_hvac_mode c mode co =
     (let (address, data) = encode_power c (mode \<noteq> Off)
      in async_write address data (Some (hc_key c)) co)"

definition climate_turn_on :: "ha_climate \<Rightarrow> coordinator \<Rightarrow> unit res \<times> coordinator" where
  "climate_turn_on c co = set_hvac_mode c Heat co"

definition climate_turn_off :: "ha_climate \<Rightarrow> coordinator \<Rightarrow> unit res \<times> coordinator" where
  "climate_turn_off c co = set_hvac_mode c Off co"

section \<open>Diagnostics\<close>

definition connection_icon :: "coordinator \<Rightarrow> string" where
  "connection_icon co =
     (case map_of
        [(''connected'', ''mdi:wifi''), (''reconnecting'', ''mdi:wifi-sync''),
         (''machine_unavailable'', ''mdi:coffee-off-outline''), (''cooldown'', ''mdi:wifi-off''),
         (''bridge_down'', ''mdi:wifi-strength-off''), (''bridge_recovering'', ''mdi:wifi-sync'')]
        (connection_state co) of
        None \<Rightarrow> ''mdi:wifi'' | Some i \<Rightarrow> i)"

definition connection_attributes :: "coordinator \<Rightarrow> int \<times> time option \<times> nat" where
  "connection_attributes co = (co_cooldown_remaining co, cooldown_ends_at co, co_failures co)"

definition bridge_link :: "coordinator \<Rightarrow> string" where
  "bridge_link co =
     (case co_bridge co of
        None \<Rightarrow> ''unknown''
      | Some h \<Rightarrow>
          if \<not> usable h then ''unknown''
          else if bh_diagnostic_window h then ''recovering''
          else if bh_link_up h then ''up'' else ''down'')"

definition bridge_link_icon :: "coordinator \<Rightarrow> string" where
  "bridge_link_icon co =
     (case map_of
        [(''up'', ''mdi:wifi''), (''down'', ''mdi:wifi-strength-off''), (''recovering'', ''mdi:wifi-sync'')]
        (bridge_link co) of
        None \<Rightarrow> ''mdi:wifi-strength-alert-outline'' | Some i \<Rightarrow> i)"

definition bridge_link_attributes :: "coordinator \<Rightarrow>
    (bool \<times> bool \<times> bool \<times> bool \<times> string option \<times> string option) option" where
  "bridge_link_attributes co =
     map_option (\<lambda>h. (bh_available h, bh_stale h, bh_ap_visible h, bh_machine_powered_off h,
                      bh_ip h, bh_ssid h)) (co_bridge co)"

definition bridge_signal :: "coordinator \<Rightarrow> int option" where
  "bridge_signal co =
     (case co_bridge co of None \<Rightarrow> None
      | Some h \<Rightarrow> if \<not> usable h \<or> \<not> bh_link_up h then None else bh_signal h)"

definition bridge_recoveries :: "coordinator \<Rightarrow> int option" where
  "bridge_recoveries co =
     (case co_bridge co of None \<Rightarrow> None
      | Some h \<Rightarrow> if \<not> bh_available h then None else bh_recoveries_total h)"

definition bridge_last_recovery :: "(string \<Rightarrow> 'dt option) \<Rightarrow> coordinator \<Rightarrow> 'dt option" where
  "bridge_last_recovery fromisoformat co =
     (case co_bridge co of None \<Rightarrow> None | Some h \<Rightarrow> parse_iso fromisoformat (bh_last_recovery h))"

definition bridge_uptime :: "coordinator \<Rightarrow> int option" where
  "bridge_uptime co =
     (case co_bridge co of None \<Rightarrow> None
      | Some h \<Rightarrow> if \<not> usable h \<or> \<not> bh_link_up h then None else bh_link_uptime_s h)"

definition machine_connectivity :: "coordinator \<Rightarrow> bool option" where
  "machine_connectivity co = map_option hs_available (co_data co)"

definition diagnostic_window :: "coordinator \<Rightarrow> bool option" where
  "diagnostic_window co =
     (case co_bridge co of None \<Rightarrow> None
      | Some h \<Rightarrow> if \<not> usable h then None else Some (bh_diagnostic_window h))"

definition machine_reachable :: "coordinator \<Rightarrow> bool option" where
  "machine_reachable co =
     (case co_bridge co of None \<Rightarrow> None
      | Some h \<Rightarrow> if \<not> usable h then None else Some (bh_machine_reachable h))"

definition press_end_cooldown :: "coordinator \<Rightarrow> coordinator" where
  "press_end_cooldown co = async_end_cooldown co"

section \<open>The clock\<close>

record datetime =
  dt_year :: int
  dt_month :: int
  dt_day :: int
  dt_weekday :: int
  dt_hour :: int
  dt_minute :: int

definition build_clock_payload :: "datetime \<Rightarrow> int list" where
  "build_clock_payload now =
     [0, dt_minute now, dt_hour now, dt_weekday now + 1, dt_day now, dt_month now, dt_year now - 2000]"

definition push_clock :: "datetime \<Rightarrow> conn \<Rightarrow> bool res \<times> conn" where
  "push_clock now c =
     (case ha_write DATE_TIME (build_clock_payload now) c of
        (Inr _, c) \<Rightarrow> (Inr True, c)
      | (Inl e, c) \<Rightarrow> (if e = R60VConnectionError then Inr False else Inl e, c))"

section \<open>Facts on the keys\<close>

lemma unique_keys:
  "distinct (sensor_keys co @ binary_sensor_keys co @ switch_keys @ select_keys @ time_keys
     @ text_keys @ climate_keys @ button_keys)"
proof -
  define ks where "ks = (\<lambda>health push.
    (map he_key (entities_for_platform ''sensor'') @ [''connection'']
      @ (if health then [''bridge_link'', ''bridge_signal'', ''bridge_recoveries'',
           ''bridge_last_recovery'', ''bridge_uptime''] else []))
    @ ((if push then [''machine_connectivity''] else [])
      @ (if health then [''bridge_diagnostic_window'', ''bridge_machine_reachable''] else []))
    @ switch_keys @ select_keys @ time_keys @ text_keys @ climate_keys @ button_keys)"
  have "distinct (ks True True)" "distinct (ks True False)"
    "distinct (ks False True)" "distinct (ks False False)"
    unfolding ks_def by code_simp+
  then have "distinct (ks health push)" for health push
    by (cases health; cases push) (simp_all only: )
  then show ?thesis unfolding sensor_keys_def binary_sensor_keys_def ks_def .
qed

section \<open>Facts on the timers\<close>

lemma decoded_Some [simp]: "co_data co = Some s \<Longrightarrow> decoded f co = f s"
  by (simp add: decoded_def)

lemma timer_time_is_ha_time:
  "ha_time a b s = Inr (case timer_time s a b of None \<Rightarrow> HNone | Some (h, m) \<Rightarrow> HTime h m)"
  by (simp add: ha_time_def timer_time_def Let_def)

lemma timer_switch_cases:
  assumes "d \<in> set TIMER_SWITCHES"
  shows "ts_minute_address d = ts_hour_address d + 1 \<and> 0 \<le> ts_hour_address d
    \<and> ts_hour_address d + 1 < SETTINGS_LEN \<and> valid_haval (HTime (fst (ts_default d)) (snd (ts_default d)))"
  using assms by (auto simp: TIMER_SWITCHES_def address_defs)

lemma timer_written:
  assumes "length (hs_settings s) = nat SETTINGS_LEN" "0 \<le> a" "a + 1 < SETTINGS_LEN"
  shows "valid_haval (HTime h m) \<Longrightarrow> timer_time (ha_written s (encode_timer a (Some (h, m)))) a (a + 1) = Some (h, m)"
    and "timer_time (ha_written s (encode_timer a None)) a (a + 1) = None"
proof -
  have a: "a < SETTINGS_LEN" using assms(3) by simp
  note w = ha_settings_byte_written(2,3) [OF assms(1,2) a]
  show "timer_time (ha_written s (encode_timer a (Some (h, m)))) a (a + 1) = Some (h, m)"
    if "valid_haval (HTime h m)"
  proof -
    have "is_byte h" "is_byte m" using that by (simp_all add: is_byte_def)
    then show ?thesis using w [of h m] that assms(3) by (simp add: timer_time_def encode_timer_def Let_def)
  qed
  have "is_byte TIMER_DISABLED" by (simp add: is_byte_def TIMER_DISABLED_def)
  then show "timer_time (ha_written s (encode_timer a None)) a (a + 1) = None"
    using w [of TIMER_DISABLED TIMER_DISABLED] assms(3)
    by (simp add: timer_time_def encode_timer_def TIMER_DISABLED_def Let_def)
qed

lemma parse_stored_configured:
  assumes "valid_haval (HTime (fst (te_configured t)) (snd (te_configured t)))"
  shows "parse_stored (configured_time t) = Some (te_configured t)"
proof -
  let ?H = "fmt_int 10 2 (fst (te_configured t))" and ?M = "fmt_int 10 2 (snd (te_configured t))"
  have r: "0 \<le> fst (te_configured t)" "0 \<le> snd (te_configured t)" using assms by simp_all
  have "CHR '':'' \<notin> set ?H" "CHR '':'' \<notin> set ?M" using fmt_int_chars r by blast+
  then have "split_on (CHR '':'') (configured_time t) = [?H, ?M]"
    by (simp add: configured_time_def split_on_append split_on_no_sep)
  then show ?thesis using assms r by (simp add: parse_stored_def py_int_fmt_int)
qed

text \<open>The updates of a run, and the last enabled time among their snapshots.\<close>

fun timer_updates :: "ha_snapshot list \<Rightarrow> coordinator \<Rightarrow> timer_entity \<Rightarrow> timer_entity res" where
  "timer_updates [] co t = Inr t"
| "timer_updates (s # ss) co t =
     bind_res (handle_coordinator_update (co\<lparr>co_data := Some s\<rparr>) t) (timer_updates ss co)"

definition last_enabled :: "timer_switch \<Rightarrow> int \<times> int \<Rightarrow> ha_snapshot list \<Rightarrow> int \<times> int" where
  "last_enabled d t0 ss =
     last (t0 # List.map_filter (\<lambda>s. timer_time s (ts_hour_address d) (ts_minute_address d)) ss)"

lemma timer_updates_last:
  "timer_updates ss co t = Inr (t\<lparr>te_configured := last_enabled (te_desc t) (te_configured t) ss\<rparr>)"
proof (induction ss arbitrary: t)
  case (Cons s ss)
  show ?case
    by (cases "timer_time s (ts_hour_address (te_desc t)) (ts_minute_address (te_desc t))")
      (simp_all add: handle_coordinator_update_def snapshot_time_def Cons last_enabled_def map_filter_simps)
qed (simp add: last_enabled_def map_filter_simps)

lemma last_enabled_valid:
  assumes "valid_haval (HTime (fst t0) (snd t0))"
  shows "valid_haval (HTime (fst (last_enabled d t0 ss)) (snd (last_enabled d t0 ss)))"
proof -
  let ?xs = "t0 # List.map_filter (\<lambda>s. timer_time s (ts_hour_address d) (ts_minute_address d)) ss"
  have "valid_haval (HTime (fst x) (snd x))" if "x \<in> set ?xs" for x
    using that assms by (auto simp: List.map_filter_def timer_time_def Let_def split: if_splits)
  then have "valid_haval (HTime (fst (last ?xs)) (snd (last ?xs)))"
    using last_in_set [of ?xs] by blast
  then show ?thesis unfolding last_enabled_def .
qed

text \<open>The clock payload of every local time up to 2255 is a block of bytes.\<close>

definition datetime_ok :: "datetime \<Rightarrow> bool" where
  "datetime_ok n \<longleftrightarrow> 2000 \<le> dt_year n \<and> dt_year n \<le> 2255 \<and> 1 \<le> dt_month n \<and> dt_month n \<le> 12
     \<and> 1 \<le> dt_day n \<and> dt_day n \<le> 31 \<and> 0 \<le> dt_weekday n \<and> dt_weekday n \<le> 6
     \<and> 0 \<le> dt_hour n \<and> dt_hour n \<le> 23 \<and> 0 \<le> dt_minute n \<and> dt_minute n \<le> 59"

lemma clock_payload_bytes: "datetime_ok n \<Longrightarrow> list_all is_byte (build_clock_payload n)"
  by (simp add: datetime_ok_def build_clock_payload_def is_byte_def)

section \<open>Properties\<close>

text \<open>In push mode the first snapshot after a restart is the zero seed, which reads as an
  enabled timer at midnight: the stored time is dropped, and when the frame that follows
  shows the timer disabled, turning it on writes 00:00.\<close>

lemma seed_drops_stored_time:
  "bind_res (added_to_hass (Some ''07:30'')
       ((new_coordinator (ha_new_conn (demo_tape []) 10) (\<lambda>t. t) None None True)\<lparr>co_data := Some seed_snapshot\<rparr>)
       (new_timer (TIMER_SWITCHES ! 0)))
     (handle_coordinator_update ((new_coordinator (ha_new_conn (demo_tape []) 10) (\<lambda>t. t) None None True)
       \<lparr>co_data := Some (seed_snapshot\<lparr>hs_settings := replicate 115 100\<rparr>)\<rparr>))
   = Inr ((new_timer (TIMER_SWITCHES ! 0))\<lparr>te_configured := (0, 0)\<rparr>)"
  by code_simp

text \<open>C32: A timer switch remembers the time it took away: begun with a valid time, whatever snapshots it has seen,
  turning it on writes the last time the machine had enabled (or the time it started
  with), turning it off writes the disabled mark, and once the machine holds either, the
  switch is on, respectively off, and the time picker shows that time, respectively none.
  A restart takes the time of the first snapshot \<open>s0\<close> there is, and restores the stored
  one only when that snapshot shows the timer disabled.\<close>

theorem timer_switch_restores:
  assumes "d \<in> set TIMER_SWITCHES" "te_desc t = d" "valid_haval (HTime (fst (te_configured t)) (snd (te_configured t)))"
    and "timer_updates ss co t = Inr t'" "length (hs_settings s) = nat SETTINGS_LEN"
    and "(h, m) = last_enabled d (te_configured t) ss"
    and "on = s\<lparr>hs_settings := write_at (hs_settings s) (nat (ts_hour_address d)) [h, m]\<rparr>"
    and "off = s\<lparr>hs_settings := write_at (hs_settings s) (nat (ts_hour_address d)) [100, 100]\<rparr>"
  shows "timer_turn_on t' co = async_write (ts_hour_address d) [h, m] (Some (ts_key d)) co
    \<and> timer_turn_off t' co = async_write (ts_hour_address d) [100, 100] (Some (ts_key d)) co
    \<and> timer_is_on t' (co\<lparr>co_data := Some on\<rparr>) = Inr True
    \<and> timer_is_on t' (co\<lparr>co_data := Some off\<rparr>) = Inr False
    \<and> ha_time (ts_hour_address d) (ts_minute_address d) on = Inr (HTime h m)
    \<and> ha_time (ts_hour_address d) (ts_minute_address d) off = Inr HNone
    \<and> added_to_hass (Some (configured_time t')) (co\<lparr>co_data := Some off\<rparr>) (new_timer d)
      = Inr (new_timer d\<lparr>te_configured := (h, m)\<rparr>)
    \<and> added_to_hass (Some (configured_time t')) (co\<lparr>co_data := Some s0\<rparr>) (new_timer d)
      = Inr (new_timer d\<lparr>te_configured :=
          (case timer_time s0 (ts_hour_address d) (ts_minute_address d) of
             None \<Rightarrow> (h, m) | Some shown \<Rightarrow> shown)\<rparr>)"
proof -
  let ?a = "ts_hour_address d"
  have d: "ts_minute_address d = ?a + 1" "0 \<le> ?a" "?a + 1 < SETTINGS_LEN"
    using timer_switch_cases [OF assms(1)] by auto
  have t': "t' = t\<lparr>te_configured := (h, m)\<rparr>"
    using assms(4) timer_updates_last [of ss co t] assms(2,6) by simp
  have v: "valid_haval (HTime h m)"
    using last_enabled_valid [OF assms(3), of d ss] assms(6) by (metis fst_conv snd_conv)
  have on: "timer_time on ?a (?a + 1) = Some (h, m)"
    using timer_written(1) [OF assms(5) d(2,3) v] by (simp add: assms(7) ha_written_def encode_timer_def)
  have off: "timer_time off ?a (?a + 1) = None"
    using timer_written(2) [OF assms(5) d(2,3)]
    by (simp add: assms(8) ha_written_def encode_timer_def TIMER_DISABLED_def)
  have st: "parse_stored (configured_time t') = Some (h, m)"
    using parse_stored_configured [of t'] v t' by simp
  show ?thesis
    using on off st d(1) assms(2)
    by (simp add: t' timer_turn_on_def timer_turn_off_def encode_timer_def TIMER_DISABLED_def
        timer_is_on_def snapshot_time_def timer_time_is_ha_time added_to_hass_def new_timer_def
        split: option.split)
qed

theorem timer_switch_restores_witness:
  "timer_turn_on (\<lparr>te_desc = TIMER_SWITCHES ! 0, te_configured = (7, 30)\<rparr>)
       (new_coordinator (ha_new_conn (demo_tape []) 10) (\<lambda>t. t) None None False)
     = async_write (ts_hour_address (TIMER_SWITCHES ! 0)) [7, 30] (Some (ts_key (TIMER_SWITCHES ! 0)))
       (new_coordinator (ha_new_conn (demo_tape []) 10) (\<lambda>t. t) None None False)"
proof -
  let ?d = "TIMER_SWITCHES ! 0"
  let ?co = "new_coordinator (ha_new_conn (demo_tape []) 10) (\<lambda>t. t) None None False"
  let ?s = "seed_snapshot\<lparr>hs_settings := (replicate 115 0)[81 := 7, 82 := 30]\<rparr>"
  have "?d \<in> set TIMER_SWITCHES" by (simp add: TIMER_SWITCHES_def)
  moreover have "valid_haval (HTime (fst (te_configured (new_timer ?d))) (snd (te_configured (new_timer ?d))))"
    by (simp add: new_timer_def TIMER_SWITCHES_def)
  moreover have "timer_updates [?s] ?co (new_timer ?d) = Inr \<lparr>te_desc = ?d, te_configured = (7, 30)\<rparr>"
    by code_simp
  moreover have "(7, 30) = last_enabled ?d (te_configured (new_timer ?d)) [?s]" by code_simp
  moreover have "length (hs_settings ?s) = nat SETTINGS_LEN" by (simp add: SETTINGS_LEN_def)
  moreover have "te_desc (new_timer ?d) = ?d" by (simp add: new_timer_def)
  ultimately show ?thesis using timer_switch_restores [OF _ _ _ _ _ _ refl refl] by blast
qed

end
