(* ===== verification/HaIsolation.thy ===== *)
theory HaIsolation
  imports HaSurfaces
begin

text \<open>
  Commands do not interfere: which bytes of the settings each entity and thermostat of
  \<open>custom_components/rocket_r60v/entities.py\<close> decodes and writes, and that a write of one
  leaves what every other shows.
\<close>

section \<open>The bytes a decoder depends on\<close>

definition reads_only :: "(ha_snapshot \<Rightarrow> 'a) \<Rightarrow> int \<times> int \<Rightarrow> bool" where
  "reads_only f ab \<longleftrightarrow>
     (\<forall>s s'. hs_live s' = hs_live s \<longrightarrow> length (hs_settings s') = length (hs_settings s) \<longrightarrow>
        (\<forall>x. fst ab \<le> x \<and> x < snd ab \<longrightarrow> ha_settings_byte s' x = ha_settings_byte s x) \<longrightarrow>
        f s' = f s)"

lemma reads_onlyI:
  "(\<And>s s'. hs_live s' = hs_live s \<Longrightarrow> length (hs_settings s') = length (hs_settings s) \<Longrightarrow>
     (\<And>x. a \<le> x \<Longrightarrow> x < b \<Longrightarrow> ha_settings_byte s' x = ha_settings_byte s x) \<Longrightarrow> f s' = f s)
   \<Longrightarrow> reads_only f (a, b)"
  unfolding reads_only_def fst_conv snd_conv by blast

lemma reads_onlyD:
  "reads_only f (a, b) \<Longrightarrow> hs_live s' = hs_live s \<Longrightarrow> length (hs_settings s') = length (hs_settings s) \<Longrightarrow>
     (\<And>x. a \<le> x \<Longrightarrow> x < b \<Longrightarrow> ha_settings_byte s' x = ha_settings_byte s x) \<Longrightarrow> f s' = f s"
  unfolding reads_only_def fst_conv snd_conv by blast

lemma reads_live:
  "reads_only (live_decibar x) (0, 0)"
  "reads_only (\<lambda>s. bind_res (live_text x s) (\<lambda>t. Inr (HStr t))) (0, 0)"
  unfolding reads_only_def live_decibar_def live_text_def ha_live_bytes_def by simp_all

lemma reads_settings:
  "reads_only (bool_on_zero a) (a, a + 1)" "reads_only (bool_on_nonzero a) (a, a + 1)"
  "reads_only (ha_enum a opts) (a, a + 1)" "reads_only (ha_time a (a + 1)) (a, a + 2)"
  "reads_only (decode_profile_at a) (a, a + PROFILE_LEN)"
  "reads_only (target_c c) (hc_setpoint_address c, hc_setpoint_address c + 1)"
proof -
  show "reads_only (bool_on_zero a) (a, a + 1)" "reads_only (bool_on_nonzero a) (a, a + 1)"
    "reads_only (ha_enum a opts) (a, a + 1)" "reads_only (ha_time a (a + 1)) (a, a + 2)"
    "reads_only (target_c c) (hc_setpoint_address c, hc_setpoint_address c + 1)"
    by (simp_all add: reads_only_def bool_on_zero_def bool_on_nonzero_def ha_enum_def ha_time_def
        target_c_def)
  show "reads_only (decode_profile_at a) (a, a + PROFILE_LEN)"
  proof (rule reads_onlyI)
    fix s s'
    assume "\<And>x. a \<le> x \<Longrightarrow> x < a + PROFILE_LEN \<Longrightarrow> ha_settings_byte s' x = ha_settings_byte s x"
    then have "ha_settings_block s' a PROFILE_LEN = ha_settings_block s a PROFILE_LEN"
      by (simp add: ha_settings_block_def PROFILE_LEN_def)
    then show "decode_profile_at a s' = decode_profile_at a s" by (simp add: decode_profile_at_def)
  qed
qed

lemma le16_bytes:
  "0 \<le> a \<Longrightarrow> a + 1 < int (length (hs_settings s)) \<Longrightarrow>
     ha_le16 (hs_settings s) a = ha_settings_byte s a OR push_bit 8 (ha_settings_byte s (a + 1))"
  by (simp add: ha_le16_def ha_settings_byte_def)

lemma reads_count:
  assumes "0 \<le> a"
  shows "reads_only (\<lambda>s. Inr (HInt (ha_le16 (hs_settings s) a)) :: haval res) (a, a + 2)"
proof (rule reads_onlyI)
  fix s s' :: ha_snapshot
  assume l: "length (hs_settings s') = length (hs_settings s)"
    and b: "\<And>x. a \<le> x \<Longrightarrow> x < a + 2 \<Longrightarrow> ha_settings_byte s' x = ha_settings_byte s x"
  show "Inr (HInt (ha_le16 (hs_settings s') a)) = (Inr (HInt (ha_le16 (hs_settings s) a)) :: haval res)"
  proof (cases "a + 1 < int (length (hs_settings s))")
    case True
    then show ?thesis using b [of a] b [of "a + 1"] l assms by (simp add: le16_bytes)
  next
    case False
    then show ?thesis using l by (simp add: ha_le16_def)
  qed
qed

section \<open>What an entity reads and writes\<close>

definition writes_only :: "('v \<Rightarrow> write_op res) option \<Rightarrow> int \<times> int \<Rightarrow> bool" where
  "writes_only enc ab \<longleftrightarrow>
     (\<forall>f v a d. enc = Some f \<longrightarrow> f v = Inr (a, d) \<longrightarrow>
        0 \<le> a \<and> fst ab \<le> a \<and> a + int (length d) \<le> snd ab)"

lemma writes_settings:
  "0 \<le> a \<Longrightarrow> writes_only (Some (ha_encode_bool a on off)) (a, a + 1)"
  "0 \<le> a \<Longrightarrow> writes_only (Some (ha_encode_enum a opts)) (a, a + 1)"
  "0 \<le> a \<Longrightarrow> writes_only (Some (ha_encode_time a)) (a, a + 2)"
  "0 \<le> a \<Longrightarrow> writes_only (Some (encode_profile_at a)) (a, a + PROFILE_LEN)"
  "writes_only (None :: ha_encoder option) ab"
proof -
  show "writes_only (Some (ha_encode_bool a on off)) (a, a + 1)"
    "writes_only (Some (ha_encode_enum a opts)) (a, a + 1)"
    "writes_only (Some (ha_encode_time a)) (a, a + 2)" if "0 \<le> a"
    using that by (auto simp: writes_only_def ha_encode_bool_def ha_encode_enum_def ha_encode_time_def
        split: haval.splits option.splits)
  show "writes_only (Some (encode_profile_at a)) (a, a + PROFILE_LEN)" if "0 \<le> a"
  proof -
    have "length d = nat PROFILE_LEN" if "encode_profile t = Inr d" for t d
      using encode_profile_ok [OF that] by (simp add: profile_ok_def PROFILE_LEN_def)
    then show ?thesis
      using that by (auto simp: writes_only_def encode_profile_at_def bind_res_eq_Inr PROFILE_LEN_def
          split: haval.splits)
  qed
  show "writes_only (None :: ha_encoder option) ab" by (simp add: writes_only_def)
qed

definition FOOTPRINTS :: "(string \<times> int \<times> int) list" where
  "FOOTPRINTS =
     [(''current_pressure'', 0, 0), (''display'', 0, 0),
      (''total_coffee_count'', TOTAL_COFFEE_COUNT, TOTAL_COFFEE_COUNT + 2),
      (''power'', STANDBY, STANDBY + 1), (''service_boiler'', SERVICE_BOILER_ENABLE, SERVICE_BOILER_ENABLE + 1),
      (''active_profile'', ACTIVE_PROFILE, ACTIVE_PROFILE + 1), (''water_feed'', WATER_FEED, WATER_FEED + 1),
      (''temperature_unit'', TEMPERATURE_UNIT, TEMPERATURE_UNIT + 1), (''language'', LANGUAGE, LANGUAGE + 1),
      (''auto_on'', AUTO_ON_HOUR, AUTO_ON_HOUR + 2), (''auto_off'', AUTO_OFF_HOUR, AUTO_OFF_HOUR + 2),
      (''profile_a'', PROFILE_A, PROFILE_A + PROFILE_LEN), (''profile_b'', PROFILE_B, PROFILE_B + PROFILE_LEN),
      (''profile_c'', PROFILE_C, PROFILE_C + PROFILE_LEN),
      (''brew_boiler'', BREW_BOILER_TEMP, BREW_BOILER_TEMP + 1),
      (''steam_boiler'', SERVICE_BOILER_TEMP, SERVICE_BOILER_TEMP + 1)]"

lemma entity_footprint:
  assumes "e \<in> set HA_ENTITIES"
  shows "\<exists>ab. (he_key e, ab) \<in> set FOOTPRINTS \<and> reads_only (he_decode e) ab \<and> writes_only (he_encode e) ab"
proof -
  let ?ok = "\<lambda>e ab. reads_only (he_decode e) (snd ab) \<and> writes_only (he_encode e) (snd ab) \<and> he_key e = fst ab"
  have nonneg: "0 \<le> TOTAL_COFFEE_COUNT" "0 \<le> STANDBY" "0 \<le> SERVICE_BOILER_ENABLE" "0 \<le> ACTIVE_PROFILE"
    "0 \<le> WATER_FEED" "0 \<le> TEMPERATURE_UNIT" "0 \<le> LANGUAGE" "0 \<le> AUTO_ON_HOUR" "0 \<le> AUTO_OFF_HOUR"
    "0 \<le> PROFILE_A" "0 \<le> PROFILE_B" "0 \<le> PROFILE_C" by (simp_all add: address_defs)
  have k: "map he_key HA_ENTITIES = map fst (take 14 FOOTPRINTS)"
    by (simp add: HA_ENTITIES_def HaEntity_def FOOTPRINTS_def)
  let ?fs = "take 14 FOOTPRINTS"
  have "list_all2 (\<lambda>c ab. reads_only (fst c) (snd ab) \<and> writes_only (snd c) (snd ab))
      (map (\<lambda>e. (he_decode e, he_encode e)) HA_ENTITIES) (take 14 FOOTPRINTS)"
    unfolding ha_codecs FOOTPRINTS_def
    by (simp add: reads_live reads_settings reads_count writes_settings nonneg)
  then have c: "list_all2 (\<lambda>e ab. reads_only (he_decode e) (snd ab) \<and> writes_only (he_encode e) (snd ab))
      HA_ENTITIES ?fs"
    by (simp only: list_all2_map1 fst_conv snd_conv)
  have all: "list_all2 ?ok HA_ENTITIES ?fs"
  proof (rule list_all2_all_nthI)
    show len: "length HA_ENTITIES = length ?fs" by (rule list_all2_lengthD [OF c])
    fix n assume n: "n < length HA_ENTITIES"
    have "he_key (HA_ENTITIES ! n) = fst (?fs ! n)"
      using arg_cong [OF k, of "\<lambda>xs. xs ! n"] n len by (simp only: nth_map)
    then show "?ok (HA_ENTITIES ! n) (?fs ! n)" using list_all2_nthD [OF c n] by blast
  qed
  obtain i where i: "i < length HA_ENTITIES" "HA_ENTITIES ! i = e"
    using assms by (auto simp: in_set_conv_nth)
  let ?ab = "take 14 FOOTPRINTS ! i"
  have "?ok e ?ab" using list_all2_nthD [OF all i(1)] by (simp only: i(2))
  moreover have "?ab \<in> set FOOTPRINTS"
    by (rule in_set_takeD [OF nth_mem [OF i(1) [unfolded list_all2_lengthD [OF all]]]])
  ultimately have "\<exists>p \<in> set FOOTPRINTS. ?ok e p" by (rule rev_bexI [rotated])
  then obtain p where p: "p \<in> set FOOTPRINTS" "?ok e p" by (rule bexE)
  then have "(he_key e, snd p) \<in> set FOOTPRINTS" by (simp only: prod.collapse)
  then show ?thesis using conjunct1 [OF p(2)] conjunct1 [OF conjunct2 [OF p(2)]] by (intro exI conjI)
qed

lemma thermostat_cases:
  assumes "c \<in> set HA_CLIMATE_ENTITIES"
  obtains "c = HA_CLIMATE_ENTITIES ! 0" | "c = HA_CLIMATE_ENTITIES ! 1"
  using assms by (auto simp: HA_CLIMATE_ENTITIES_def)

lemma thermostat_footprint:
  assumes "c \<in> set HA_CLIMATE_ENTITIES"
  shows "\<exists>ab. (hc_key c, ab) \<in> set FOOTPRINTS \<and> reads_only (target_c c) ab
    \<and> writes_only (Some (\<lambda>(x, s). encode_setpoint c x s)) ab"
proof -
  have c: "(hc_key c, hc_setpoint_address c, hc_setpoint_address c + 1) \<in> set FOOTPRINTS"
    "0 \<le> hc_setpoint_address c"
    using assms by (elim thermostat_cases; simp add: HA_CLIMATE_ENTITIES_def FOOTPRINTS_def address_defs)+
  have "writes_only (Some (\<lambda>(x, s). encode_setpoint c x s)) (hc_setpoint_address c, hc_setpoint_address c + 1)"
    using c(2) by (auto simp: writes_only_def encode_setpoint_def bind_res_eq_Inr split: if_splits prod.splits)
  then show ?thesis using c(1) reads_settings(6) by blast
qed

lemma footprints_disjoint:
  assumes "(k, ab) \<in> set FOOTPRINTS" "(k', ab') \<in> set FOOTPRINTS" "k \<noteq> k'"
  shows "snd ab \<le> fst ab' \<or> snd ab' \<le> fst ab \<or> fst ab' = snd ab'"
proof -
  have "list_all (\<lambda>(k, a, b). list_all (\<lambda>(k', a', b'). k = k' \<or> b \<le> a' \<or> b' \<le> a \<or> a' = b') FOOTPRINTS)
      FOOTPRINTS" by code_simp
  then show ?thesis using assms by (force simp: list_all_iff)
qed

section \<open>Writing elsewhere\<close>

lemma written_elsewhere:
  assumes "0 \<le> a" "0 \<le> x" "x < a \<or> a + int (length d) \<le> x"
  shows "ha_settings_byte (ha_written s (a, d)) x = ha_settings_byte s x"
proof (cases "x < int (length (hs_settings s))")
  case True
  then show ?thesis
    using settings_byte_write [of x "bridge_view s" a d] assms
    unfolding ha_settings_byte_view bridge_view_written written_def by (auto simp: bridge_view_def)
qed (use assms in \<open>simp add: ha_settings_byte_def ha_written_def\<close>)

lemma unaffected:
  assumes "reads_only f ab'" "0 \<le> a" "fst ab \<le> a" "a + int (length d) \<le> snd ab" "0 \<le> fst ab'"
    and "snd ab \<le> fst ab' \<or> snd ab' \<le> fst ab \<or> fst ab' = snd ab'"
  shows "f (ha_written s (a, d)) = f s"
proof -
  have "ha_settings_byte (ha_written s (a, d)) x = ha_settings_byte s x" if "fst ab' \<le> x" "x < snd ab'" for x
    using assms(2-6) that by (intro written_elsewhere) auto
  moreover have "hs_live (ha_written s (a, d)) = hs_live s"
    "length (hs_settings (ha_written s (a, d))) = length (hs_settings s)"
    by (simp_all add: ha_written_def)
  ultimately show ?thesis using assms(1) by (intro reads_onlyD [of f "fst ab'" "snd ab'"]) simp_all
qed

lemma footprint_nonneg: "(k, ab) \<in> set FOOTPRINTS \<Longrightarrow> 0 \<le> fst ab"
proof -
  have "\<forall>p \<in> set FOOTPRINTS. 0 \<le> fst (snd p)"
    unfolding list_all_iff [symmetric] by code_simp
  then show "(k, ab) \<in> set FOOTPRINTS \<Longrightarrow> 0 \<le> fst ab" by fastforce
qed

lemma isolated:
  assumes "(k, ab) \<in> set FOOTPRINTS" "writes_only (Some enc) ab" "enc v = Inr (a, d)"
    and "(k', ab') \<in> set FOOTPRINTS" "reads_only f ab'" "k \<noteq> k'"
  shows "f (ha_written s (a, d)) = f s"
  using assms(2,3) footprints_disjoint [OF assms(1,4,6)] footprint_nonneg [OF assms(4)]
  by (intro unaffected [OF assms(5)]) (auto simp: writes_only_def)

section \<open>The commands\<close>

text \<open>Every command a user can give, by the key of what it writes to: an entity's own, a
  thermostat's setpoint, a timer switch, which writes the time of its picker, and a
  thermostat's mode, which writes what the Power and Steam switches write.\<close>

definition command_writes :: "string \<Rightarrow> write_op \<Rightarrow> bool" where
  "command_writes key w \<longleftrightarrow>
     (\<exists>e \<in> set HA_ENTITIES. he_key e = key \<and> (\<exists>enc v. he_encode e = Some enc \<and> enc v = Inr w))
     \<or> (\<exists>c \<in> set HA_CLIMATE_ENTITIES. hc_key c = key \<and> (\<exists>x s. encode_setpoint c x s = Inr w))
     \<or> (\<exists>t \<in> set TIMER_SWITCHES. ts_key t = key @ ''_enabled''
          \<and> (\<exists>hm. encode_timer (ts_hour_address t) hm = w))
     \<or> key = ''power'' \<and> (\<exists>on. encode_power (HA_CLIMATE_ENTITIES ! 0) on = w)
     \<or> key = ''service_boiler'' \<and> (\<exists>on. encode_power (HA_CLIMATE_ENTITIES ! 1) on = w)"

lemma timer_cases:
  assumes "t \<in> set TIMER_SWITCHES" "ts_key t = key @ ''_enabled''"
  shows "(key, ts_hour_address t, ts_hour_address t + 2) \<in> set FOOTPRINTS"
proof -
  have "t = TIMER_SWITCHES ! 0 \<or> t = TIMER_SWITCHES ! 1" using assms(1) by (auto simp: TIMER_SWITCHES_def)
  then have "key = ''auto_on'' \<and> ts_hour_address t = AUTO_ON_HOUR
      \<or> key = ''auto_off'' \<and> ts_hour_address t = AUTO_OFF_HOUR"
  proof
    assume t: "t = TIMER_SWITCHES ! 0"
    then have "key @ ''_enabled'' = ''auto_on'' @ ''_enabled''" using assms(2) by (simp add: TIMER_SWITCHES_def)
    then have "key = ''auto_on''" by (simp only: append_same_eq)
    then show ?thesis by (simp add: t TIMER_SWITCHES_def)
  next
    assume t: "t = TIMER_SWITCHES ! 1"
    then have "key @ ''_enabled'' = ''auto_off'' @ ''_enabled''" using assms(2) by (simp add: TIMER_SWITCHES_def)
    then have "key = ''auto_off''" by (simp only: append_same_eq)
    then show ?thesis by (simp add: t TIMER_SWITCHES_def)
  qed
  then show ?thesis by (auto simp: FOOTPRINTS_def)
qed

lemma footprint_members:
  "(''power'', STANDBY, STANDBY + 1) \<in> set FOOTPRINTS"
  "(''service_boiler'', SERVICE_BOILER_ENABLE, SERVICE_BOILER_ENABLE + 1) \<in> set FOOTPRINTS"
  by (simp_all add: FOOTPRINTS_def)

lemma thermostat_fields:
  "hc_is_on (HA_CLIMATE_ENTITIES ! 0) = brew_is_on" "hc_is_on (HA_CLIMATE_ENTITIES ! 1) = steam_is_on"
  "hc_power_address (HA_CLIMATE_ENTITIES ! 0) = STANDBY"
  "hc_power_address (HA_CLIMATE_ENTITIES ! 1) = SERVICE_BOILER_ENABLE"
  by (simp_all add: HA_CLIMATE_ENTITIES_def)

lemma command_footprint:
  assumes "command_writes key (a, d)"
  shows "\<exists>ab. (key, ab) \<in> set FOOTPRINTS \<and> writes_only (Some (\<lambda>_ :: unit. Inr (a, d))) ab"
  using assms unfolding command_writes_def
proof (elim disjE bexE exE conjE)
  fix e enc v
  assume "e \<in> set HA_ENTITIES" "he_key e = key" "he_encode e = Some enc" "enc v = Inr (a, d)"
  then show ?thesis using entity_footprint [of e] by (fastforce simp: writes_only_def)
next
  fix c x s
  assume c: "c \<in> set HA_CLIMATE_ENTITIES" "hc_key c = key" "encode_setpoint c x s = Inr (a, d)"
  then obtain ab where ab: "(key, ab) \<in> set FOOTPRINTS" "writes_only (Some (\<lambda>(x, s). encode_setpoint c x s)) ab"
    using thermostat_footprint [of c] by blast
  moreover have "(\<lambda>(x, s). encode_setpoint c x s) (x, s) = Inr (a, d)" using c by simp
  ultimately have "writes_only (Some (\<lambda>_ :: unit. Inr (a, d))) ab" by (simp add: writes_only_def)
  with ab(1) show ?thesis by blast
next
  fix t hm
  assume t: "t \<in> set TIMER_SWITCHES" "ts_key t = key @ ''_enabled''" "encode_timer (ts_hour_address t) hm = (a, d)"
  have "0 \<le> ts_hour_address t" using t(1) by (auto simp: TIMER_SWITCHES_def address_defs)
  then show ?thesis
    using timer_cases [OF t(1,2)] t(3)
    by (intro exI [of _ "(ts_hour_address t, ts_hour_address t + 2)"])
      (auto simp: writes_only_def encode_timer_def split: option.splits)
next
  fix on
  assume "key = ''power''" "encode_power (HA_CLIMATE_ENTITIES ! 0) on = (a, d)"
  then show ?thesis
    using footprint_members(1)
    by (intro exI [of _ "(STANDBY, STANDBY + 1)"])
      (auto simp: writes_only_def encode_power_def thermostat_fields [unfolded One_nat_def] address_defs)
next
  fix on
  assume "key = ''service_boiler''" "encode_power (HA_CLIMATE_ENTITIES ! 1) on = (a, d)"
  then show ?thesis
    using footprint_members(2)
    by (intro exI [of _ "(SERVICE_BOILER_ENABLE, SERVICE_BOILER_ENABLE + 1)"])
      (auto simp: writes_only_def encode_power_def thermostat_fields [unfolded One_nat_def] address_defs)
qed

text \<open>What a thermostat and a timer switch read besides the setpoint.\<close>

lemma current_c_written: "current_c c (ha_written s w) = current_c c s"
proof -
  have "ha_live_bytes (ha_written s w) x = ha_live_bytes s x" for x
    by (simp add: ha_live_bytes_def ha_written_def)
  then show ?thesis by (simp add: current_c_def live_text_def live_byte_def cong: option.case_cong)
qed

lemma reads_modes:
  "reads_only (\<lambda>s. ha_settings_byte s a) (a, a + 1)"
  "reads_only (\<lambda>s. timer_time s a (a + 1)) (a, a + 2)"
  by (simp_all add: reads_only_def timer_time_def)

section \<open>Properties\<close>

text \<open>C20: Commands do not interfere: whatever the settings hold, the write of an accepted
  command, be it of an entity, of a thermostat's setpoint or mode or of a timer switch,
  leaves what every other entity shows, the target of every other thermostat and the
  current temperatures. Of the modes and the timer switches, which share bytes with
  entities, only a power command changes the brew thermostat's mode, only a power or a
  steam command the steam thermostat's, and only a command of a timer or of its picker
  changes the timer switch.\<close>

theorem commands_isolated:
  assumes "command_writes key (a, d)"
  shows "(\<forall>e' \<in> set HA_ENTITIES. he_key e' \<noteq> key \<longrightarrow> he_decode e' (ha_written s (a, d)) = he_decode e' s)
    \<and> (\<forall>c' \<in> set HA_CLIMATE_ENTITIES. hc_key c' \<noteq> key \<longrightarrow> target_c c' (ha_written s (a, d)) = target_c c' s)
    \<and> (\<forall>c' \<in> set HA_CLIMATE_ENTITIES. current_c c' (ha_written s (a, d)) = current_c c' s)
    \<and> (key \<noteq> ''power'' \<longrightarrow> hc_is_on (HA_CLIMATE_ENTITIES ! 0) (ha_written s (a, d))
         = hc_is_on (HA_CLIMATE_ENTITIES ! 0) s)
    \<and> (key \<notin> {''power'', ''service_boiler''} \<longrightarrow>
         hc_is_on (HA_CLIMATE_ENTITIES ! 1) (ha_written s (a, d)) = hc_is_on (HA_CLIMATE_ENTITIES ! 1) s)
    \<and> (\<forall>t \<in> set TIMER_SWITCHES. ts_key t \<noteq> key @ ''_enabled'' \<longrightarrow>
         timer_time (ha_written s (a, d)) (ts_hour_address t) (ts_minute_address t)
         = timer_time s (ts_hour_address t) (ts_minute_address t))"
proof -
  obtain ab where ab: "(key, ab) \<in> set FOOTPRINTS" and w: "writes_only (Some (\<lambda>_ :: unit. Inr (a, d))) ab"
    using command_footprint [OF assms] by blast
  note away = isolated [OF ab w refl]
  have byte: "key \<noteq> k \<Longrightarrow> (k, x, x + 1) \<in> set FOOTPRINTS \<Longrightarrow>
      ha_settings_byte (ha_written s (a, d)) x = ha_settings_byte s x" for k x
    by (rule away [OF _ reads_modes(1)])
  note power = byte [OF _ footprint_members(1)] and steam = byte [OF _ footprint_members(2)]
  show ?thesis
  proof (intro conjI ballI impI)
    fix e' assume "e' \<in> set HA_ENTITIES" "he_key e' \<noteq> key"
    then show "he_decode e' (ha_written s (a, d)) = he_decode e' s"
      using entity_footprint [of e'] away by metis
  next
    fix c' assume "c' \<in> set HA_CLIMATE_ENTITIES" "hc_key c' \<noteq> key"
    then show "target_c c' (ha_written s (a, d)) = target_c c' s"
      using thermostat_footprint [of c'] away by metis
  next
    fix t assume t: "t \<in> set TIMER_SWITCHES" "ts_key t \<noteq> key @ ''_enabled''"
    then obtain k where k: "ts_key t = k @ ''_enabled''" "k \<noteq> key"
      and m: "ts_minute_address t = ts_hour_address t + 1"
      by (auto simp: TIMER_SWITCHES_def address_defs intro: that [of "''auto_on''"] that [of "''auto_off''"])
    show "timer_time (ha_written s (a, d)) (ts_hour_address t) (ts_minute_address t)
        = timer_time s (ts_hour_address t) (ts_minute_address t)"
      unfolding m using k(2) by (intro away [OF timer_cases [OF t(1) k(1)] reads_modes(2)]) simp
  qed (simp_all add: power steam current_c_written thermostat_fields [unfolded One_nat_def]
    brew_is_on_def steam_is_on_def)
qed

theorem commands_isolated_witness:
  "he_decode (HA_ENTITIES ! 9) (ha_written \<lparr> hs_settings = replicate 115 1, hs_live = [], hs_available = True \<rparr> (AUTO_OFF_HOUR, [22, 15]))
     = he_decode (HA_ENTITIES ! 9) \<lparr> hs_settings = replicate 115 1, hs_live = [], hs_available = True \<rparr>"
proof -
  have e: "HA_ENTITIES ! 10 \<in> set HA_ENTITIES" "he_key (HA_ENTITIES ! 10) = ''auto_off''"
    "he_encode (HA_ENTITIES ! 10) = Some (ha_encode_time AUTO_OFF_HOUR)"
    "ha_encode_time AUTO_OFF_HOUR (HTime 22 15) = Inr (AUTO_OFF_HOUR, [22, 15])"
    by (simp_all add: HA_ENTITIES_def HaEntity_def ha_encode_time_def)
  then have "command_writes ''auto_off'' (AUTO_OFF_HOUR, [22, 15])"
    unfolding command_writes_def by (intro disjI1) blast
  note w = conjunct1 [OF commands_isolated [OF this]]
  have "HA_ENTITIES ! 9 \<in> set HA_ENTITIES" "he_key (HA_ENTITIES ! 9) \<noteq> ''auto_off''"
    by (simp_all add: HA_ENTITIES_def HaEntity_def)
  then show ?thesis by (rule w [THEN bspec, THEN mp])
qed

end
