(* ===== verification/EndToEnd.thy ===== *)
theory EndToEnd
  imports Bridged HaPush HaPlatforms HaIsolation
begin

text \<open>
  From the controls of Home Assistant to the machine's memory and back: the entities and
  coordinator of \<open>custom_components/rocket_r60v/\<close>, the command frames of
  \<open>push_client.py\<close>, the bridge's write intents (\<open>broker.py\<close>), its governor and the emulated
  machine, and the state frame that returns (\<open>push_server.py\<close>, \<open>push_client.py\<close>).
\<close>

section \<open>Commands as frames\<close>

text \<open>A value that a writable entity accepts, and its write.\<close>

definition accepted :: "ha_entity \<times> haval \<Rightarrow> int \<times> int list \<Rightarrow> bool" where
  "accepted c w \<longleftrightarrow> fst c \<in> set HA_ENTITIES \<and> valid_haval (snd c)
     \<and> (case he_encode (fst c) of None \<Rightarrow> False | Some enc \<Rightarrow> enc (snd c) = Inr w)"

lemma acceptedD:
  assumes "accepted c w"
  obtains enc where "fst c \<in> set HA_ENTITIES" "he_encode (fst c) = Some enc" "valid_haval (snd c)"
    "enc (snd c) = Inr w"
  using assms by (auto simp: accepted_def split: option.splits)

lemma accepted_in_block: "accepted c w \<Longrightarrow> in_block w"
proof (elim acceptedD)
  fix enc assume c: "fst c \<in> set HA_ENTITIES" "he_encode (fst c) = Some enc" "valid_haval (snd c)"
    "enc (snd c) = Inr w"
  obtain a d where w: "w = (a, d)" by (cases w)
  have "length (hs_settings \<lparr>hs_settings = replicate (nat SETTINGS_LEN) 0, hs_live = [], hs_available = True\<rparr>)
      = nat SETTINGS_LEN" by simp
  from ha_command_shown_all [OF c this] ha_command_bytes [OF c(1-3) c(4) [unfolded w]]
  show ?thesis by (simp add: ha_command_shown_def in_block_def w)
qed

definition frame_of :: "ha_entity \<times> haval \<Rightarrow> int \<times> int list \<Rightarrow> json" where
  "frame_of c w = command_frame (fst w) (snd w) (Some (he_key (fst c)))"

text \<open>Controls used one after the other, until one raises.\<close>

fun press_all :: "(ha_entity \<times> haval) list \<Rightarrow> coordinator \<Rightarrow> unit res \<times> coordinator" where
  "press_all [] co = (Inr (), co)"
| "press_all (c # cs) co =
     (case set_value (fst c) (snd c) co of
        (Inl e, co) \<Rightarrow> (Inl e, co)
      | (Inr _, co) \<Rightarrow> press_all cs co)"

lemma press_all_sends:
  assumes "list_all2 accepted cmds ws" "co_push_enabled co" "co_channel co = Some ch" "ch_open ch"
    and "\<forall>n. ch_outcome ch n = Inr ()"
  shows "press_all cmds co =
    (Inr (), co\<lparr>co_channel := Some (ch\<lparr>ch_sent := ch_sent ch @ map2 frame_of cmds ws\<rparr>)\<rparr>)"
  using assms
proof (induction cmds ws arbitrary: co ch rule: list_all2_induct)
  case (Cons c cs w ws)
  let ?ch = "ch\<lparr>ch_sent := ch_sent ch @ [frame_of c w]\<rparr>"
  have "set_value (fst c) (snd c) co = (Inr (), co\<lparr>co_channel := Some ?ch\<rparr>)"
    using Cons.hyps(1) Cons.prems
    by (auto elim!: acceptedD simp: set_value_def async_write_def send_command_def frame_of_def split: prod.split)
  moreover have "press_all cs (co\<lparr>co_channel := Some ?ch\<rparr>) =
      (Inr (), co\<lparr>co_channel := Some (?ch\<lparr>ch_sent := ch_sent ?ch @ map2 frame_of cs ws\<rparr>)\<rparr>)"
    using Cons.IH [of "co\<lparr>co_channel := Some ?ch\<rparr>" ?ch] Cons.prems by simp
  ultimately show ?case by simp
qed simp

section \<open>Frames as intents\<close>

lemma handle_command:
  assumes "in_block w" "bk_intents b = Some q" "length q < INTENT_QUEUE_MAX"
  shows "handle_inbound (Some (frame_of c w)) b
    = broadcast_state (on_store (Optimistic (fst w) (snd w)) (b\<lparr>bk_intents := Some (q @ [w])\<rparr>))"
proof -
  obtain a x xs where w: "w = (a, x # xs)" "list_all is_byte (x # xs)"
    using assms(1) by (cases w; cases "snd w") (auto simp: in_block_def)
  have "as_bytes (JInt x # map JInt xs) = Some (x # xs)" using as_bytes_map [OF w(2)] by simp
  then have "parse_command (frame_of c w) = Some (a, x # xs)"
    unfolding frame_of_def command_frame_def by (simp add: w(1) del: as_bytes.simps)
  then show ?thesis
    using assms(2,3)
    by (simp add: handle_inbound_def on_ws_command_def frame_of_def command_frame_def w(1))
qed

lemma handle_commands:
  assumes "list_all2 accepted cmds ws" "bk_intents b = Some q" "length q + length ws \<le> INTENT_QUEUE_MAX"
    and "b' = fold (\<lambda>f. handle_inbound (Some f)) (map2 frame_of cmds ws) b"
  shows "bk_intents b' = Some (q @ ws)
    \<and> bk_store b' = store_run (map (\<lambda>w. Optimistic (fst w) (snd w)) ws) (bk_store b)
    \<and> bk_dev b' = bk_dev b \<and> bk_now b' = bk_now b \<and> bk_wedge b' = bk_wedge b"
  using assms
proof (induction cmds ws arbitrary: b q rule: list_all2_induct)
  case (Cons c cs w ws)
  let ?b = "broadcast_state (on_store (Optimistic (fst w) (snd w)) (b\<lparr>bk_intents := Some (q @ [w])\<rparr>))"
  have "handle_inbound (Some (frame_of c w)) b = ?b"
    using handle_command [OF accepted_in_block [OF Cons.hyps(1)] Cons.prems(1)] Cons.prems(2) by simp
  then have "b' = fold (\<lambda>f. handle_inbound (Some f)) (map2 frame_of cs ws) ?b"
    using Cons.prems(3) by simp
  moreover have "bk_intents ?b = Some (q @ [w])" "length (q @ [w]) + length ws \<le> INTENT_QUEUE_MAX"
    using Cons.prems(2) by simp_all
  moreover have "bk_dev ?b = bk_dev b" by (simp add: broadcast_state_def)
  ultimately show ?case using Cons.IH by simp
qed simp

text \<open>The overlay holds nothing but bytes of the commands reflected.\<close>

lemma optimistic_run_pending:
  assumes "map_of (st_pending (store_run (map (\<lambda>w. Optimistic (fst w) (snd w)) ws) st)) x = Some y"
  shows "map_of (st_pending st) x = Some y
    \<or> (\<exists>(a, d) \<in> set ws. \<exists>k < length d. x = a + int k \<and> d ! k = y)"
  using assms
proof (induction ws arbitrary: st)
  case (Cons w ws)
  obtain a d where w: "w = (a, d)" by (cases w)
  have "map_of (st_pending st) x = Some y \<or> (\<exists>k < length d. x = a + int k \<and> d ! k = y)"
    if "map_of (st_pending (fst (apply_optimistic a d st))) x = Some y"
  proof (cases "a \<le> x \<and> x < a + int (length d)")
    case True
    then have k: "nat (x - a) < length d" "x = a + int (nat (x - a))" by auto
    have "map_of (st_pending st) x = Some y \<or> d ! nat (x - a) = y"
      using that True
      by (cases rule: apply_optimistic_cases [of a d st]) (auto simp: map_of_put_bytes split: if_splits)
    then show ?thesis using k by blast
  next
    case False
    then show ?thesis
      using that by (cases rule: apply_optimistic_cases [of a d st]) (auto simp: map_of_put_bytes split: if_splits)
  qed
  then show ?case using Cons.IH [of "fst (apply_optimistic a d st)"] Cons.prems by (auto simp: w)
qed simp

section \<open>What is shown\<close>

lemma fold_written:
  "fold (\<lambda>w s. ha_written s w) ws s = s\<lparr>hs_settings := write_all ws (hs_settings s)\<rparr>"
  by (induction ws arbitrary: s) (simp_all add: ha_written_def write_all_def)

lemma entity_isolated:
  assumes "accepted c w" "e \<in> set HA_ENTITIES" "he_key e \<noteq> he_key (fst c)"
  shows "he_decode e (ha_written s w) = he_decode e s"
proof -
  obtain a d where w: "w = (a, d)" by (cases w)
  obtain enc where c: "fst c \<in> set HA_ENTITIES" "he_encode (fst c) = Some enc" "enc (snd c) = Inr (a, d)"
    using assms(1) by (auto elim: acceptedD simp: w)
  obtain ab where ab: "(he_key (fst c), ab) \<in> set FOOTPRINTS" "writes_only (Some enc) ab"
    using entity_footprint [OF c(1)] c(2) by auto
  obtain ab' where ab': "(he_key e, ab') \<in> set FOOTPRINTS" "reads_only (he_decode e) ab'"
    using entity_footprint [OF assms(2)] by auto
  show ?thesis
    unfolding w by (rule isolated [OF ab c(3) ab']) (use assms(3) in simp)
qed

text \<open>Each entity shows the last value it was given.\<close>

lemma last_shown:
  assumes "list_all2 accepted cmds ws" "length (hs_settings s) = nat SETTINGS_LEN" "i < length cmds"
    and "\<forall>j < length cmds. i < j \<longrightarrow> he_key (fst (cmds ! j)) \<noteq> he_key (fst (cmds ! i))"
  shows "\<exists>enc v. he_encode (fst (cmds ! i)) = Some enc \<and> enc v = Inr (ws ! i)
    \<and> he_decode (fst (cmds ! i)) (fold (\<lambda>w s. ha_written s w) ws s) = Inr v"
  using assms
proof (induction cmds arbitrary: ws rule: rev_induct)
  case (snoc c cs)
  obtain ws' w where ws: "ws = ws' @ [w]" "list_all2 accepted cs ws'" "accepted c w"
    using snoc.prems(1) by (auto simp: list_all2_append1 list_all2_Cons1)
  then have len: "length ws' = length cs" by (simp add: list_all2_lengthD)
  let ?s = "fold (\<lambda>w s. ha_written s w) ws' s"
  show ?case
  proof (cases "i = length cs")
    case True
    obtain enc where c: "fst c \<in> set HA_ENTITIES" "he_encode (fst c) = Some enc" "valid_haval (snd c)"
      "enc (snd c) = Inr w"
      using ws(3) by (rule acceptedD)
    have "length (hs_settings ?s) = nat SETTINGS_LEN" using snoc.prems(2) by (simp add: fold_written)
    from ha_command_shown_all [OF c this] show ?thesis
      using True c(2) len by (auto simp: ws(1) nth_append ha_command_shown_def)
  next
    case False
    then have i: "i < length cs" using snoc.prems(3) by simp
    have e: "fst (cs ! i) \<in> set HA_ENTITIES"
      using list_all2_nthD [OF ws(2) i] by (auto elim: acceptedD)
    have "he_key (fst (cs ! i)) \<noteq> he_key (fst c)"
      using snoc.prems(4) [rule_format, of "length cs"] i by (simp add: nth_append)
    then have "he_decode (fst (cs ! i)) (ha_written ?s w) = he_decode (fst (cs ! i)) ?s"
      by (rule entity_isolated [OF ws(3) e])
    moreover have "\<forall>j < length cs. i < j \<longrightarrow> he_key (fst (cs ! j)) \<noteq> he_key (fst (cs ! i))"
    proof (intro allI impI)
      fix j assume "j < length cs" "i < j"
      then show "he_key (fst (cs ! j)) \<noteq> he_key (fst (cs ! i))"
        using snoc.prems(4) [rule_format, of j] i by (simp add: nth_append)
    qed
    ultimately show ?thesis
      using snoc.IH [OF ws(2) snoc.prems(2) i] i len by (simp add: ws(1) nth_append)
  qed
qed simp

lemma settings_block_written:
  assumes "list_all in_block ws" "length xs = 0x100"
  shows "take (nat SETTINGS_LEN) (write_all ws xs) = write_all ws (take (nat SETTINGS_LEN) xs)"
  using assms
proof (induction ws arbitrary: xs)
  case (Cons w ws)
  have "nat (fst w) + length (snd w) \<le> nat SETTINGS_LEN" using Cons.prems(1) by (simp add: in_block_def) linarith
  then have "take (nat SETTINGS_LEN) (write_at xs (nat (fst w)) (snd w))
      = write_at (take (nat SETTINGS_LEN) xs) (nat (fst w)) (snd w)"
    using Cons.prems(2) by (intro nth_equalityI) (auto simp: nth_write_at)
  then show ?case using Cons by (simp add: write_all_def)
qed (simp add: write_all_def)

section \<open>Properties\<close>

text \<open>C16: Commands reach the machine and come back. In push mode with the command channel open,
  any values that writable entities accept, as many as the bridge's queue holds, are sent
  without an exception, one frame each; when the bridge, in no cooldown, with an idle
  governor and nothing pending, has received them and drained its queue undisturbed, the
  machine's memory is the old one with exactly those writes in their order, nothing is
  pending, the machine is available, and the cache is the machine's settings block; and
  from the bridge's next state frame each entity shows the last value it was given.\<close>

theorem commands_reach_machine:
  assumes "list_all2 accepted cmds ws" "ws \<noteq> []" "length ws \<le> INTENT_QUEUE_MAX"
    and "co_push_enabled co" "co_channel co = Some ch" "ch_open ch" "\<forall>n. ch_outcome ch n = Inr ()"
    and "bk_store b = store_run hist (new_store g sa step)" "list_all polls_real_address hist"
    and "st_pending (bk_store b) = []" "bk_intents b = Some []"
    and "\<not> in_cooldown (bk_now b) (bk_wedge b)" "on_machine clock m b"
  shows "\<exists>frames b' m' s.
      press_all cmds co = (Inr (), co\<lparr>co_channel := Some (ch\<lparr>ch_sent := ch_sent ch @ frames\<rparr>)\<rparr>)
    \<and> drain_intents (length frames) (bridged_machine clock) (fold (\<lambda>f. handle_inbound (Some f)) frames b) = Some b'
    \<and> on_machine clock m' b' \<and> mm_settings m' = write_all ws (mm_settings m)
    \<and> st_pending (bk_store b') = [] \<and> available (bk_store b') \<and> settings (bk_store b') = settings_block m'
    \<and> handle_frame (Some (state_frame ts (raw_snapshot (bk_store b')))) = Updated s
    \<and> hs_available s \<and> hs_settings s = settings_block m'
    \<and> (\<forall>i < length cmds. (\<forall>j < length cmds. i < j \<longrightarrow> he_key (fst (cmds ! j)) \<noteq> he_key (fst (cmds ! i))) \<longrightarrow>
         (\<exists>enc v. he_encode (fst (cmds ! i)) = Some enc \<and> enc v = Inr (ws ! i)
            \<and> he_decode (fst (cmds ! i)) s = Inr v))"
proof -
  let ?frames = "map2 frame_of cmds ws"
  define b0 where "b0 = fold (\<lambda>f. handle_inbound (Some f)) ?frames b"
  have b0: "bk_intents b0 = Some ws" "bk_store b0 = store_run (map (\<lambda>w. Optimistic (fst w) (snd w)) ws) (bk_store b)"
    "bk_dev b0 = bk_dev b" "bk_now b0 = bk_now b" "bk_wedge b0 = bk_wedge b"
    using handle_commands [OF assms(1,11) _ b0_def] assms(3) by simp_all
  have blk: "list_all in_block ws"
    using assms(1) by (auto simp: list_all_length list_all2_conv_all_nth intro: accepted_in_block)
  have o: "on_machine clock m b0" "\<not> in_cooldown (bk_now b0) (bk_wedge b0)"
    using assms(12,13) b0 by (simp_all add: on_machine_def)
  obtain b' m' ops where d: "drain_intents (length ws) (bridged_machine clock) b0 = Some b'" "on_machine clock m' b'"
    "mm_settings m' = write_all ws (mm_settings m)" "bk_store b' = store_run ops (bk_store b0)"
    "\<forall>op \<in> set ops. case op of Live _ _ _ \<Rightarrow> False | _ \<Rightarrow> True"
    "st_pending (bk_store b') = pending_after ws (st_pending (bk_store b0))"
    "settings (bk_store b') = overlay (st_pending (bk_store b')) (settings_block m')" "available (bk_store b')"
    by (rule bridged_queue [OF o b0(1) blk assms(2)])
  have p: "st_pending (bk_store b') = []"
    unfolding d(6) using optimistic_run_pending [of ws "bk_store b"] assms(10)
    by (intro pending_after_gone) (simp add: b0(2))
  then have st: "settings (bk_store b') = settings_block m'" by (simp add: d(7) overlay_def)
  define s where "s = \<lparr>hs_settings = settings_block m', hs_live = sn_live (st_snapshot (bk_store b')), hs_available = True\<rparr>"
  have "live_keys_ok (bk_store b')"
  proof -
    have "polls_real_address op" if "op \<in> set ops" for op
      using d(5) [rule_format, OF that] by (cases op) simp_all
    then have "list_all polls_real_address ops" by (simp add: list_all_iff)
    moreover have "list_all polls_real_address (map (\<lambda>w. Optimistic (fst w) (snd w)) ws)"
      by (simp add: list_all_iff)
    ultimately show ?thesis
      unfolding d(4) b0(2) assms(8) by (intro live_keys_run live_keys_new assms(9))
  qed
  then have f: "handle_frame (Some (state_frame ts (raw_snapshot (bk_store b')))) = Updated s"
    using handle_state_frame [of "bk_store b'" ts] st d(8) by (auto simp: live_keys_ok_def s_def)
  let ?s0 = "s\<lparr>hs_settings := settings_block m\<rparr>"
  have mem: "length (mm_settings m) = 0x100" using assms(13) by (simp add: on_machine_def live_ok_def mem_ok_def)
  then have "settings_block m' = write_all ws (settings_block m)"
    unfolding settings_block_def d(3) by (rule settings_block_written [OF blk])
  then have sw: "s = fold (\<lambda>w s. ha_written s w) ws ?s0" by (simp add: fold_written s_def)
  have "length (hs_settings ?s0) = nat SETTINGS_LEN" using mem by (simp add: settings_block_def SETTINGS_LEN_def)
  note shown = last_shown [OF assms(1) this, folded sw]
  have "length ?frames = length ws" using list_all2_lengthD [OF assms(1)] by simp
  then show ?thesis
    using press_all_sends [OF assms(1,4-7)] d(1-3,8) p st f shown
    by (intro exI [of _ ?frames] exI [of _ b'] exI [of _ m'] exI [of _ s]) (auto simp: b0_def s_def)
qed

text \<open>The machine is switched on, its timer set, and it is switched off again.\<close>

definition demo_commands :: "(ha_entity \<times> haval) list" where
  "demo_commands =
     [(HA_ENTITIES ! 3, HBool True), (HA_ENTITIES ! 9, HTime 7 5), (HA_ENTITIES ! 3, HBool False)]"

lemma demo_commands:
  "list_all2 accepted demo_commands [(74, [0]), (81, [7, 5]), (74, [1])]"
  "length demo_commands = 3" "map (\<lambda>c. he_key (fst c)) demo_commands = [''power'', ''auto_on'', ''power'']"
  "he_encode (fst (demo_commands ! 1)) = Some (ha_encode_time AUTO_ON_HOUR)"
  "he_decode (fst (demo_commands ! 1)) = ha_time AUTO_ON_HOUR AUTO_ON_MINUTE"
proof -
  have n: "3 < length HA_ENTITIES" "9 < length HA_ENTITIES" by (simp_all add: HA_ENTITIES_def)
  have p: "he_encode (HA_ENTITIES ! 3) = Some (ha_encode_bool STANDBY 0 1)" "he_key (HA_ENTITIES ! 3) = ''power''"
    and t: "he_encode (HA_ENTITIES ! 9) = Some (ha_encode_time AUTO_ON_HOUR)" "he_key (HA_ENTITIES ! 9) = ''auto_on''"
      "he_decode (HA_ENTITIES ! 9) = ha_time AUTO_ON_HOUR AUTO_ON_MINUTE"
    by (simp_all add: HA_ENTITIES_def HaEntity_def)
  show "list_all2 accepted demo_commands [(74, [0]), (81, [7, 5]), (74, [1])]"
    using nth_mem [OF n(1)] nth_mem [OF n(2)]
    by (simp add: demo_commands_def accepted_def p t ha_encode_bool_def ha_encode_time_def STANDBY_def AUTO_ON_HOUR_def)
  show "length demo_commands = 3" "map (\<lambda>c. he_key (fst c)) demo_commands = [''power'', ''auto_on'', ''power'']"
    "he_encode (fst (demo_commands ! 1)) = Some (ha_encode_time AUTO_ON_HOUR)"
    "he_decode (fst (demo_commands ! 1)) = ha_time AUTO_ON_HOUR AUTO_ON_MINUTE"
    by (simp_all add: demo_commands_def p t)
qed

lemma demo_last:
  "j < length demo_commands \<Longrightarrow> 1 < j \<Longrightarrow>
     he_key (fst (demo_commands ! j)) \<noteq> he_key (fst (demo_commands ! 1))"
proof -
  assume j: "j < length demo_commands" "1 < j"
  then have "j = 2" by (simp add: demo_commands(2))
  moreover have "map (\<lambda>c. he_key (fst c)) demo_commands ! 2 \<noteq> map (\<lambda>c. he_key (fst c)) demo_commands ! 1"
    by (simp add: demo_commands(3))
  ultimately show ?thesis using j by simp
qed

theorem commands_reach_machine_witness:
  "\<exists>frames b' m' s v.
      drain_intents (length frames) (bridged_machine [])
        (fold (\<lambda>f. handle_inbound (Some f)) frames
          (new_broker mqtt_config 0 (gv_start (new_governor 0), new_machine))) = Some b'
    \<and> on_machine [] m' b'
    \<and> mm_settings m' = write_all [(74, [0]), (81, [7, 5]), (74, [1])] (mm_settings new_machine)
    \<and> handle_frame (Some (state_frame 0 (raw_snapshot (bk_store b')))) = Updated s
    \<and> ha_encode_time AUTO_ON_HOUR v = Inr (81, [7, 5]) \<and> ha_time AUTO_ON_HOUR AUTO_ON_MINUTE s = Inr v"
proof -
  let ?ws = "[(74, [0]), (81, [7, 5]), (74, [1])] :: (int \<times> int list) list"
  let ?ch = "\<lparr>ch_open = True, ch_outcome = (\<lambda>_. Inr ()), ch_sent = []\<rparr>"
  let ?co = "(new_coordinator (ha_new_conn (demo_tape []) 10) (\<lambda>t. t) None None True)\<lparr>co_channel := Some ?ch\<rparr>"
  let ?b = "new_broker mqtt_config 0 (gv_start (new_governor 0), new_machine)"
  have "?ws \<noteq> []" "length ?ws \<le> INTENT_QUEUE_MAX" "co_push_enabled ?co" "co_channel ?co = Some ?ch" "ch_open ?ch"
    "\<forall>n. ch_outcome ?ch n = Inr ()" "bk_store ?b = store_run [Subscribe PUBLISHER] (new_store 4 12 1)"
    "list_all polls_real_address [Subscribe PUBLISHER]" "st_pending (bk_store ?b) = []" "bk_intents ?b = Some []"
    "\<not> in_cooldown (bk_now ?b) (bk_wedge ?b)" "on_machine [] new_machine ?b"
    by (simp_all add: INTENT_QUEUE_MAX_def new_coordinator_def new_broker_def subscribe_def new_store_def
        in_cooldown_def default_wedge_def new_wedge_def on_machine_def quiescent_def gv_start_def
        new_governor_def live_ok_def new_machine_ok)
  from commands_reach_machine [OF demo_commands(1) this, of 0] obtain frames b' m' s where e:
    "drain_intents (length frames) (bridged_machine []) (fold (\<lambda>f. handle_inbound (Some f)) frames ?b) = Some b'"
    "on_machine [] m' b'" "mm_settings m' = write_all ?ws (mm_settings new_machine)"
    "handle_frame (Some (state_frame 0 (raw_snapshot (bk_store b')))) = Updated s"
    "\<forall>i < length demo_commands.
       (\<forall>j < length demo_commands. i < j \<longrightarrow> he_key (fst (demo_commands ! j)) \<noteq> he_key (fst (demo_commands ! i))) \<longrightarrow>
         (\<exists>enc v. he_encode (fst (demo_commands ! i)) = Some enc \<and> enc v = Inr (?ws ! i)
            \<and> he_decode (fst (demo_commands ! i)) s = Inr v)"
    by blast
  from e(5) [rule_format, of 1] demo_last obtain v where
    "ha_encode_time AUTO_ON_HOUR v = Inr (81, [7, 5])" "ha_time AUTO_ON_HOUR AUTO_ON_MINUTE s = Inr v"
    using demo_commands(4,5) by (auto simp: demo_commands(2))
  then show ?thesis using e(1-4) by blast
qed

end
