(* ===== verification/Mirrored.thy ===== *)
theory Mirrored
  imports EndToEnd
begin

text \<open>
  What Home Assistant shows after a poll of the bridge: the poll loop (\<open>broker.py\<close>) reads the
  emulated machine through the governor into the store (\<open>store.py\<close>), and the frame that
  the push server sends (\<open>push_server.py\<close>) makes every entity and thermostat of the
  integration (\<open>entities.py\<close>) show what its decoder makes of the machine's own memory.
\<close>

section \<open>Polling the machine\<close>

text \<open>The machine answers each live register; the emulator's temperatures fit a byte.\<close>

definition live_value :: "int list \<Rightarrow> machine \<Rightarrow> int \<times> int \<Rightarrow> int list" where
  "live_value clock m r = (case em_read clock m (fst r) (snd r) of Inr d \<Rightarrow> d | Inl _ \<Rightarrow> [])"

definition answers_live :: "int list \<Rightarrow> machine \<Rightarrow> bool" where
  "answers_live clock m \<longleftrightarrow> list_all (\<lambda>r. \<not> isl (em_read clock m (fst r) (snd r))) LIVE_REGISTERS"

text \<open>The machine as a snapshot.\<close>

definition machine_view :: "int list \<Rightarrow> machine \<Rightarrow> ha_snapshot" where
  "machine_view clock m =
     \<lparr>hs_settings = settings_block m, hs_live = map (\<lambda>r. (fst r, live_value clock m r)) LIVE_REGISTERS,
      hs_available = True\<rparr>"

lemma bridged_live:
  assumes "on_machine clock m b" "list_all (\<lambda>r. is_addr (fst r) \<and> is_addr (snd r)
      \<and> \<not> isl (em_read clock m (fst r) (snd r))) regs"
  obtains b' where "poll_live (bridged_machine clock) regs b = (Inr (), b')" "on_machine clock m b'"
    "bk_store b' = store_run (map (\<lambda>r. Live (bk_now b) (fst r) (live_value clock m r)) regs) (bk_store b)"
    "bk_push b' = bk_push b" "bk_wedge b' = bk_wedge b" "bk_now b' = bk_now b"
  using assms
proof (induction regs arbitrary: b thesis)
  case Nil
  show ?case by (rule Nil.prems(1) [of b]) (simp_all add: Nil.prems(2))
next
  case (Cons r regs)
  obtain a n where r: "r = (a, n)" by (cases r)
  have rd: "em_read clock m a n = Inr (live_value clock m r)"
    using Cons.prems(3) by (cases "em_read clock m a n") (simp_all add: r live_value_def)
  have ad: "is_addr a" "is_addr n" using Cons.prems(3) by (simp_all add: r)
  obtain b1 where b1: "dv_read (bridged_machine clock) a n b = (Inr (live_value clock m r), b1)"
    "on_machine clock m b1" "b1 = b\<lparr>bk_dev := bk_dev b1\<rparr>"
    by (rule bridged_read [OF Cons.prems(2) ad rd])
  have fr: "bk_now b1 = bk_now b" "bk_store b1 = bk_store b" "bk_push b1 = bk_push b" "bk_wedge b1 = bk_wedge b"
    by (subst b1(3), simp)+
  let ?b = "on_store (Live (bk_now b1) a (live_value clock m r)) b1"
  have o: "on_machine clock m ?b" using b1(2) by (simp add: on_machine_def)
  obtain b' where b': "poll_live (bridged_machine clock) regs ?b = (Inr (), b')" "on_machine clock m b'"
    "bk_store b' = store_run (map (\<lambda>r. Live (bk_now ?b) (fst r) (live_value clock m r)) regs) (bk_store ?b)"
    "bk_push b' = bk_push ?b" "bk_wedge b' = bk_wedge ?b" "bk_now b' = bk_now ?b"
    by (rule Cons.IH [OF _ o]) (use Cons.prems(3) in auto)
  show ?case
    using b' fr by (intro Cons.prems(1) [of b']) (simp_all add: r b1(1))
qed

text \<open>What a poll does to the store, depending on whether it reads the settings.\<close>

definition poll_ops :: "bool \<Rightarrow> int list \<Rightarrow> machine \<Rightarrow> time \<Rightarrow> store_op list" where
  "poll_ops reads clock m now =
     (if reads then [Settings (settings_block m)] else [])
     @ map (\<lambda>r. Live now (fst r) (live_value clock m r)) LIVE_REGISTERS @ [Success]"

lemma live_addresses: "list_all (\<lambda>r. is_addr (fst r) \<and> is_addr (snd r)) LIVE_REGISTERS"
  by (simp add: LIVE_REGISTERS_def address_defs is_addr_def)

lemma bridged_settings:
  assumes "on_machine clock m b"
  obtains b' where "(if reads then poll_settings (bridged_machine clock) b else (Inr (), b)) = (Inr (), b')"
    "on_machine clock m b'" "bk_push b' = bk_push b" "bk_now b' = bk_now b"
    "bk_store b' = store_run (if reads then [Settings (settings_block m)] else []) (bk_store b)"
proof (cases reads)
  case True
  have rd: "em_read clock m SETTINGS_BASE SETTINGS_LEN = Inr (settings_block m)"
    using assms by (intro em_read_block) (simp add: on_machine_def)
  have sa: "is_addr SETTINGS_BASE" "is_addr SETTINGS_LEN"
    by (simp_all add: is_addr_def SETTINGS_BASE_def SETTINGS_LEN_def)
  obtain b1 where b1: "dv_read (bridged_machine clock) SETTINGS_BASE SETTINGS_LEN b = (Inr (settings_block m), b1)"
    "on_machine clock m b1" "b1 = b\<lparr>bk_dev := bk_dev b1\<rparr>"
    by (rule bridged_read [OF assms sa rd])
  have fr: "bk_now b1 = bk_now b" "bk_store b1 = bk_store b" "bk_push b1 = bk_push b"
    by (subst b1(3), simp)+
  show thesis
    using True b1(2) fr
    by (intro that [of "on_store (Settings (settings_block m)) b1"])
      (simp_all add: poll_settings_def b1(1) on_machine_def)
next
  case False
  then show thesis using assms by (intro that [of b]) simp_all
qed

lemma bridged_poll:
  assumes "on_machine clock m b" "answers_live clock m"
  obtains b' where "poll_once (bridged_machine clock) reads b = b'" "on_machine clock m b'"
    "bk_store b' = store_run (poll_ops reads clock m (bk_now b)) (bk_store b)" "bk_push b' = bk_push b"
proof -
  obtain b1 where b1: "(if reads then poll_settings (bridged_machine clock) b else (Inr (), b)) = (Inr (), b1)"
    "on_machine clock m b1" "bk_push b1 = bk_push b" "bk_now b1 = bk_now b"
    "bk_store b1 = store_run (if reads then [Settings (settings_block m)] else []) (bk_store b)"
    by (rule bridged_settings [OF assms(1)])
  have regs: "list_all (\<lambda>r. is_addr (fst r) \<and> is_addr (snd r)
      \<and> \<not> isl (em_read clock m (fst r) (snd r))) LIVE_REGISTERS"
    using live_addresses assms(2) by (simp add: answers_live_def list_all_iff)
  obtain b2 where b2: "poll_live (bridged_machine clock) LIVE_REGISTERS b1 = (Inr (), b2)" "on_machine clock m b2"
    "bk_store b2 = store_run (map (\<lambda>r. Live (bk_now b1) (fst r) (live_value clock m r)) LIVE_REGISTERS) (bk_store b1)"
    "bk_push b2 = bk_push b1" "bk_wedge b2 = bk_wedge b1" "bk_now b2 = bk_now b1"
    by (rule bridged_live [OF b1(2) regs])
  have "poll_once (bridged_machine clock) reads b = on_wedge record_success (on_store Success b2)"
    by (simp add: poll_once_def b1(1) b2(1))
  moreover have "store_run (poll_ops reads clock m (bk_now b)) (bk_store b) = note_success (bk_store b2)"
    by (simp add: poll_ops_def b2(3) b1(4,5))
  ultimately show thesis
    using b2 b1(3) by (intro that [OF refl]) (simp_all add: on_machine_def on_wedge_def)
qed

section \<open>What a poll leaves in the store\<close>

lemma live_run:
  "sn_live (st_snapshot (store_run (map (\<lambda>r. Live now (fst r) (f r)) regs) st))
     = fold (\<lambda>r. AList.update (fst r) (f r)) regs (sn_live (st_snapshot st))"
  "settings (store_run (map (\<lambda>r. Live now (fst r) (f r)) regs) st) = settings st"
  "st_pending (store_run (map (\<lambda>r. Live now (fst r) (f r)) regs) st) = st_pending st"
  by (induction regs arbitrary: st) (simp_all add: update_live_fields)

lemma map_of_updates:
  "distinct (map fst regs) \<Longrightarrow> r \<in> set regs \<Longrightarrow>
     map_of (fold (\<lambda>r. AList.update (fst r) (f r)) regs m) (fst r) = Some (f r)"
proof (induction regs arbitrary: m)
  case (Cons q regs)
  have same: "x \<notin> fst ` set regs \<Longrightarrow>
      map_of (fold (\<lambda>r. AList.update (fst r) (f r)) regs m') x = map_of m' x" for x m'
    by (induction regs arbitrary: m') (auto simp: update_conv')
  show ?case
  proof (cases "r = q")
    case True
    then show ?thesis using Cons.prems(1) by (simp add: same update_conv')
  next
    case False
    then show ?thesis using Cons by simp
  qed
qed simp

lemma poll_run:
  assumes "st' = store_run (poll_ops reads clock m now) st"
  shows "settings st' = (if reads then overlay (st_pending st) (settings_block m) else settings st)"
    "available st'"
    "r \<in> set LIVE_REGISTERS \<Longrightarrow> map_of (sn_live (st_snapshot st')) (fst r) = Some (live_value clock m r)"
proof -
  have d: "distinct (map fst LIVE_REGISTERS)" by (simp add: LIVE_REGISTERS_def address_defs)
  show "settings st' = (if reads then overlay (st_pending st) (settings_block m) else settings st)" "available st'"
    by (simp_all add: assms poll_ops_def note_fields live_run update_settings_fields)
  show "map_of (sn_live (st_snapshot st')) (fst r) = Some (live_value clock m r)" if "r \<in> set LIVE_REGISTERS"
    using map_of_updates [OF d that, of "live_value clock m"]
    by (cases reads) (simp_all add: assms poll_ops_def note_fields live_run)
qed

lemma live_view:
  "r \<in> set LIVE_REGISTERS \<Longrightarrow>
     map_of (map (\<lambda>r. (fst r, live_value clock m r)) LIVE_REGISTERS) (fst r) = Some (live_value clock m r)"
  by (auto simp: LIVE_REGISTERS_def address_defs)

section \<open>Decoding alike\<close>

definition same_bytes :: "ha_snapshot \<Rightarrow> ha_snapshot \<Rightarrow> bool" where
  "same_bytes s s' \<longleftrightarrow> hs_settings s' = hs_settings s
     \<and> (\<forall>r \<in> set LIVE_REGISTERS. ha_live_bytes s' (fst r) = ha_live_bytes s (fst r))"

lemma same_bytesD:
  assumes "same_bytes s s'"
  shows "ha_settings_byte s' a = ha_settings_byte s a" "hs_settings s' = hs_settings s"
    "ha_live_bytes s' CURRENT_PRESSURE = ha_live_bytes s CURRENT_PRESSURE"
    "ha_live_bytes s' DISPLAY = ha_live_bytes s DISPLAY"
    "ha_live_bytes s' CURRENT_BREW_TEMP = ha_live_bytes s CURRENT_BREW_TEMP"
    "ha_live_bytes s' CURRENT_SERVICE_TEMP = ha_live_bytes s CURRENT_SERVICE_TEMP"
  using assms by (auto simp: same_bytes_def ha_settings_byte_def LIVE_REGISTERS_def)

lemma decode_alike:
  assumes "same_bytes s s'" "e \<in> set HA_ENTITIES"
  shows "he_decode e s' = he_decode e s"
proof -
  note b = same_bytesD [OF assms(1)]
  have "\<forall>c \<in> set (map (\<lambda>e. (he_decode e, he_encode e)) HA_ENTITIES). fst c s' = fst c s"
    unfolding ha_codecs
    by (simp add: live_decibar_def live_text_def bool_on_zero_def bool_on_nonzero_def ha_enum_def ha_time_def
        decode_profile_at_def ha_settings_block_def b)
  then show ?thesis using assms(2) by auto
qed

lemma thermostat_alike:
  assumes "same_bytes s s'" "c \<in> set HA_CLIMATE_ENTITIES"
  shows "current_c c s' = current_c c s" "target_c c s' = target_c c s" "hc_is_on c s' = hc_is_on c s"
proof -
  note b = same_bytesD [OF assms(1)]
  have "live_text DISPLAY s' = live_text DISPLAY s" by (simp add: live_text_def b)
  moreover have "live_byte (hc_current_address c) s' = live_byte (hc_current_address c) s"
    using assms(2) by (auto simp: HA_CLIMATE_ENTITIES_def live_byte_def b)
  ultimately show "current_c c s' = current_c c s" unfolding current_c_def by (simp only:)
  show "target_c c s' = target_c c s" by (simp add: target_c_def b(1))
  show "hc_is_on c s' = hc_is_on c s"
    using assms(2) by (auto simp: HA_CLIMATE_ENTITIES_def brew_is_on_def steam_is_on_def b(1))
qed

section \<open>Properties\<close>

text \<open>C17: Home Assistant shows the machine. When the bridge has a consumer, an idle governor,
  a store that has polled real addresses only and no cooldown pending, and its machine answers, a poll cycle leaves the machine as it
  was, and the frame it sends then gives every entity of the integration and every
  thermostat, its temperature, its target and whether it heats, what the decoders make of
  the machine's own live registers and of these settings: in a cycle that reads them, the
  machine's own memory with the pending commands' bytes over it, which is the memory itself
  when none is pending; in any other cycle those of the cache. The store is available and
  every subscriber that is not stalled is sent that frame.\<close>

theorem poll_shows_machine:
  assumes "on_machine clock m b" "answers_live clock m" "wants_data b"
    and "wd_cooldown_until (bk_wedge b) = None"
    and "bk_store b = store_run hist (new_store g sa step)" "list_all polls_real_address hist"
    and "b' = poll_cycle (bridged_machine clock) n b"
    and "shown = (if bk_idle b \<or> bk_tick b mod n = 0
           then overlay (st_pending (bk_store b)) (settings_block m) else settings (bk_store b))"
  shows "on_machine clock m b' \<and> available (bk_store b')
    \<and> (\<exists>s. handle_frame (Some (state_frame ts (raw_snapshot (bk_store b')))) = Updated s \<and> hs_available s
        \<and> (\<forall>e \<in> set HA_ENTITIES. he_decode e s = he_decode e ((machine_view clock m)\<lparr>hs_settings := shown\<rparr>))
        \<and> (\<forall>c \<in> set HA_CLIMATE_ENTITIES.
              current_c c s = current_c c ((machine_view clock m)\<lparr>hs_settings := shown\<rparr>)
              \<and> target_c c s = target_c c ((machine_view clock m)\<lparr>hs_settings := shown\<rparr>)
              \<and> hc_is_on c s = hc_is_on c ((machine_view clock m)\<lparr>hs_settings := shown\<rparr>)))
    \<and> ((bk_idle b \<or> bk_tick b mod n = 0) \<and> st_pending (bk_store b) = [] \<longrightarrow>
         (machine_view clock m)\<lparr>hs_settings := shown\<rparr> = machine_view clock m)
    \<and> (\<forall>ps c. bk_push b = Some ps \<and> c \<in> set (ps_clients ps) \<and> c \<notin> set (ps_stalled ps) \<longrightarrow>
         (\<exists>ps'. bk_push b' = Some ps' \<and> (c, Some (raw_snapshot (bk_store b'))) \<in> set (ps_sent ps')))"
proof -
  let ?b = "b\<lparr>bk_idle := False\<rparr>" and ?reads = "bk_idle b \<or> bk_tick b mod n = 0"
  let ?view = "(machine_view clock m)\<lparr>hs_settings := shown\<rparr>"
  have o: "on_machine clock m ?b" using assms(1) by (simp add: on_machine_def)
  obtain b1 where b1: "poll_once (bridged_machine clock) ?reads ?b = b1" "on_machine clock m b1"
    "bk_store b1 = store_run (poll_ops ?reads clock m (bk_now b)) (bk_store b)" "bk_push b1 = bk_push b"
    using bridged_poll [OF o assms(2), of ?reads] by auto
  have b': "b' = (broadcast_state b1)\<lparr>bk_tick := bk_tick (broadcast_state b1) + 1\<rparr>"
    using assms(3,4) b1(1)
    by (auto simp: assms(7) poll_cycle_def in_cooldown_def awaiting_probe_def Let_def)
  then have bs: "bk_store b' = bk_store b1" "bk_push b' = map_option (broadcast (raw_snapshot (bk_store b1))) (bk_push b1)"
    "on_machine clock m b'"
    using b1(2) by (simp_all add: broadcast_state_def on_machine_def)
  note run = poll_run [OF b1(3)]
  have st: "settings (bk_store b') = shown" "available (bk_store b')"
    using run(1,2) by (simp_all add: bs assms(8))
  define s where "s = \<lparr>hs_settings = shown, hs_live = sn_live (st_snapshot (bk_store b')), hs_available = True\<rparr>"
  have "list_all polls_real_address (poll_ops ?reads clock m (bk_now b))"
    by (simp add: poll_ops_def LIVE_REGISTERS_def address_defs)
  then have "live_keys_ok (bk_store b')"
    unfolding bs(1) b1(3) assms(5) by (intro live_keys_run live_keys_new assms(6))
  then have f: "handle_frame (Some (state_frame ts (raw_snapshot (bk_store b')))) = Updated s"
    using handle_state_frame [of "bk_store b'" ts] st by (auto simp: live_keys_ok_def s_def)
  have "same_bytes ?view s"
    using run(3) by (auto simp: same_bytes_def s_def machine_view_def ha_live_bytes_def bs(1) live_view)
  note alike = decode_alike [OF this] thermostat_alike [OF this]
  have m: "?reads \<and> st_pending (bk_store b) = [] \<longrightarrow> ?view = machine_view clock m"
    by (simp add: assms(8) overlay_def machine_view_def)
  have "\<exists>ps'. bk_push b' = Some ps' \<and> (c, Some (raw_snapshot (bk_store b'))) \<in> set (ps_sent ps')"
    if "bk_push b = Some ps" "c \<in> set (ps_clients ps)" "c \<notin> set (ps_stalled ps)" for ps c
    using that by (auto simp: bs(1,2) b1(4) broadcast_def Let_def)
  moreover have "hs_available s" by (simp add: s_def)
  ultimately show ?thesis using bs(3) st(2) f alike m by blast
qed

theorem poll_shows_machine_witness:
  "\<exists>s. handle_frame (Some (state_frame 0 (raw_snapshot (bk_store
        (poll_cycle (bridged_machine []) 5 (new_broker mqtt_config 0 (gv_start (new_governor 0), new_machine))))))) = Updated s
     \<and> target_c (HA_CLIMATE_ENTITIES ! 0) s = 105"
proof -
  let ?b = "new_broker mqtt_config 0 (gv_start (new_governor 0), new_machine)"
  have a: "answers_live [] new_machine" by code_simp
  have o: "on_machine [] new_machine ?b"
    by (simp add: on_machine_def new_broker_def quiescent_def gv_start_def new_governor_def live_ok_def new_machine_ok)
  have w: "wants_data ?b" by (simp add: wants_data_def new_broker_def mqtt_enabled_def mqtt_config_def)
  have b: "wd_cooldown_until (bk_wedge ?b) = None"
    "bk_store ?b = store_run [Subscribe PUBLISHER] (new_store 4 12 1)"
    "list_all polls_real_address [Subscribe PUBLISHER]"
    by (simp_all add: new_broker_def default_wedge_def new_wedge_def)
  have p: "bk_idle ?b \<or> bk_tick ?b mod 5 = 0" "st_pending (bk_store ?b) = []"
    by (simp_all add: new_broker_def subscribe_def new_store_def)
  note shown = poll_shows_machine [OF o a w b refl refl, of 5 0]
  have v: "(machine_view [] new_machine)\<lparr>hs_settings := (if bk_idle ?b \<or> bk_tick ?b mod 5 = 0
      then overlay (st_pending (bk_store ?b)) (settings_block new_machine) else settings (bk_store ?b))\<rparr>
    = machine_view [] new_machine"
    using shown p by (elim conjE) (drule mp, simp, assumption)
  note frame = conjunct1 [OF conjunct2 [OF conjunct2 [OF shown]]]
  from frame [unfolded v] obtain s where s: "handle_frame (Some (state_frame 0 (raw_snapshot (bk_store
      (poll_cycle (bridged_machine []) 5 ?b))))) = Updated s"
    "\<forall>c \<in> set HA_CLIMATE_ENTITIES. current_c c s = current_c c (machine_view [] new_machine)
        \<and> target_c c s = target_c c (machine_view [] new_machine)
        \<and> hc_is_on c s = hc_is_on c (machine_view [] new_machine)"
    by (elim exE conjE)
  have "HA_CLIMATE_ENTITIES ! 0 \<in> set HA_CLIMATE_ENTITIES" by (simp add: HA_CLIMATE_ENTITIES_def)
  moreover have "target_c (HA_CLIMATE_ENTITIES ! 0) (machine_view [] new_machine) = 105"
  proof -
    have "settings_block new_machine ! 2 = 105" by code_simp
    moreover have "2 < length (settings_block new_machine)" by code_simp
    ultimately show ?thesis
      by (simp add: HA_CLIMATE_ENTITIES_def target_c_def ha_settings_byte_def machine_view_def BREW_BOILER_TEMP_def)
  qed
  ultimately have "target_c (HA_CLIMATE_ENTITIES ! 0) s = 105" using s(2) by simp
  then show ?thesis using s(1) by (intro exI conjI)
qed

end
