(* ===== verification/HaObjects.thy ===== *)
theory HaObjects
  imports HaPlatforms
begin

text \<open>
  The entity objects the platforms of the integration create (the constructors of
  \<open>sensor.py\<close>, \<open>binary_sensor.py\<close>, \<open>switch.py\<close>, \<open>select.py\<close>, \<open>time.py\<close>, \<open>text.py\<close>, \<open>climate.py\<close> and
  \<open>button.py\<close>), with what Home Assistant is told of each, and what it demands in return:
  an object's state must be of the kind its platform and its attributes declare, or
  writing the state raises. The parser of a timestamp, \<open>datetime.fromisoformat\<close>, is an
  argument: it gives the wall clock's seconds and the offset from UTC, if the text has one.
\<close>

section \<open>Entity objects\<close>

text \<open>What an object shows: a value of an entity or of a diagnostic, a time stamp with its
  offset from UTC, or the mode of a thermostat.\<close>

datatype ob_value = Val haval | Stamp rat "rat option" | Mode hvac

type_synonym iso_parser = "string \<Rightarrow> (rat \<times> rat option) option"

definition val :: "(coordinator \<Rightarrow> haval res) \<Rightarrow> coordinator \<Rightarrow> ob_value res" where
  "val st co = bind_res (st co) (\<lambda>v. Inr (Val v))"

record ha_object =
  ob_key :: string
  ob_name :: string
  ob_platform :: string
  ob_diagnostic :: bool
  ob_device_class :: "string option"
  ob_unit :: "string option"
  ob_state_class :: "string option"
  ob_options :: "string list option"
  ob_max_length :: "nat option"
  ob_temp_range :: "(int \<times> int) option"
  ob_temp_step :: "int option"
  ob_available :: "coordinator \<Rightarrow> bool"
  ob_state :: "coordinator \<Rightarrow> ob_value res"

text \<open>\<open>R60VEntity.__init__\<close>; the unique id is the entry's id followed by the key.\<close>

definition new_object :: "string \<Rightarrow> string \<Rightarrow> string \<Rightarrow> (coordinator \<Rightarrow> ob_value res) \<Rightarrow> ha_object" where
  "new_object platform key name st =
     \<lparr>ob_key = key, ob_name = name, ob_platform = platform, ob_diagnostic = False,
      ob_device_class = None, ob_unit = None, ob_state_class = None, ob_options = None,
      ob_max_length = None, ob_temp_range = None, ob_temp_step = None,
      ob_available = entity_available, ob_state = st\<rparr>"

definition entity_unique_id :: "string \<Rightarrow> ha_object \<Rightarrow> string" where
  "entity_unique_id unique_id ob = unique_id @ ''_'' @ ob_key ob"

definition sensor_object :: "ha_entity \<Rightarrow> ha_object" where
  "sensor_object e = (new_object ''sensor'' (he_key e) (he_name e) (val (native_value e)))
     \<lparr>ob_unit := he_unit e, ob_device_class := he_device_class e, ob_state_class := he_state_class e\<rparr>"

definition switch_object :: "ha_entity \<Rightarrow> ha_object" where
  "switch_object e = new_object ''switch'' (he_key e) (he_name e)
     (val (\<lambda>co. bind_res (switch_is_on e co) (\<lambda>b. Inr (HBool b))))"

definition timer_object :: "timer_switch \<Rightarrow> ha_object" where
  "timer_object d = new_object ''switch'' (ts_key d) (ts_name d)
     (val (\<lambda>co. bind_res (timer_is_on (new_timer d) co) (\<lambda>b. Inr (HBool b))))"

definition select_object :: "ha_entity \<Rightarrow> ha_object" where
  "select_object e = (new_object ''select'' (he_key e) (he_name e) (val (native_value e)))
     \<lparr>ob_options := Some (case he_options e of None \<Rightarrow> [] | Some opts \<Rightarrow> opts)\<rparr>"

definition time_object :: "ha_entity \<Rightarrow> ha_object" where
  "time_object e = new_object ''time'' (he_key e) (he_name e) (val (native_value e))"

definition text_object :: "ha_entity \<Rightarrow> ha_object" where
  "text_object e = (new_object ''text'' (he_key e) (he_name e) (val (native_value e)))
     \<lparr>ob_max_length := he_max_length e\<rparr>"

definition climate_object :: "ha_climate \<Rightarrow> ha_object" where
  "climate_object c =
     (new_object ''climate'' (hc_key c) (hc_name c) (\<lambda>co. bind_res (hvac_mode c co) (\<lambda>m. Inr (Mode m))))
       \<lparr>ob_temp_range := Some (hc_range_c c), ob_temp_step := Some (hc_temp_step c)\<rparr>"

text \<open>Diagnostics override \<open>available\<close>.\<close>

definition diagnostic :: "string \<Rightarrow> string \<Rightarrow> string \<Rightarrow> (coordinator \<Rightarrow> haval) \<Rightarrow> ha_object" where
  "diagnostic platform key name st =
     (new_object platform key name (val (\<lambda>co. Inr (st co))))
       \<lparr>ob_diagnostic := True, ob_available := (\<lambda>_. True)\<rparr>"

definition optional :: "('a \<Rightarrow> haval) \<Rightarrow> 'a option \<Rightarrow> haval" where
  "optional f v = (case v of None \<Rightarrow> HNone | Some x \<Rightarrow> f x)"

definition connection_object :: ha_object where
  "connection_object =
     (diagnostic ''sensor'' ''connection'' ''Connection'' (\<lambda>co. HStr (connection_state co)))
       \<lparr>ob_device_class := Some ''enum'',
         ob_options := Some [''connected'', ''reconnecting'', ''machine_unavailable'', ''cooldown'',
           ''bridge_down'', ''bridge_recovering'']\<rparr>"

definition bridge_link_object :: ha_object where
  "bridge_link_object =
     (diagnostic ''sensor'' ''bridge_link'' ''Bridge Link'' (\<lambda>co. HStr (bridge_link co)))
       \<lparr>ob_device_class := Some ''enum'',
         ob_options := Some [''up'', ''down'', ''recovering'', ''unknown'']\<rparr>"

definition bridge_signal_object :: ha_object where
  "bridge_signal_object =
     (diagnostic ''sensor'' ''bridge_signal'' ''Bridge Signal'' (\<lambda>co. optional HInt (bridge_signal co)))
       \<lparr>ob_unit := Some ''%'', ob_state_class := Some ''measurement''\<rparr>"

definition bridge_recoveries_object :: ha_object where
  "bridge_recoveries_object =
     (diagnostic ''sensor'' ''bridge_recoveries'' ''Bridge Recoveries''
       (\<lambda>co. optional HInt (bridge_recoveries co)))
       \<lparr>ob_state_class := Some ''total_increasing''\<rparr>"

definition last_recovery_object :: "iso_parser \<Rightarrow> ha_object" where
  "last_recovery_object fromisoformat =
     (diagnostic ''sensor'' ''bridge_last_recovery'' ''Bridge Last Recovery'' (\<lambda>_. HNone))
       \<lparr>ob_device_class := Some ''timestamp'',
         ob_state := (\<lambda>co. Inr (case bridge_last_recovery fromisoformat co of
           None \<Rightarrow> Val HNone | Some (t, offset) \<Rightarrow> Stamp t offset))\<rparr>"

definition bridge_uptime_object :: ha_object where
  "bridge_uptime_object =
     (diagnostic ''sensor'' ''bridge_uptime'' ''Bridge Link Uptime''
       (\<lambda>co. optional HInt (bridge_uptime co)))
       \<lparr>ob_device_class := Some ''duration'', ob_unit := Some ''s'', ob_state_class := Some ''measurement''\<rparr>"

definition machine_object :: ha_object where
  "machine_object =
     (diagnostic ''binary_sensor'' ''machine_connectivity'' ''Machine''
       (\<lambda>co. optional HBool (machine_connectivity co)))\<lparr>ob_device_class := Some ''connectivity''\<rparr>"

definition diagnostic_window_object :: ha_object where
  "diagnostic_window_object =
     (diagnostic ''binary_sensor'' ''bridge_diagnostic_window'' ''Bridge Diagnostic Window''
       (\<lambda>co. optional HBool (diagnostic_window co)))\<lparr>ob_device_class := Some ''running''\<rparr>"

definition machine_reachable_object :: ha_object where
  "machine_reachable_object =
     (diagnostic ''binary_sensor'' ''bridge_machine_reachable'' ''Machine Reachable''
       (\<lambda>co. optional HBool (machine_reachable co)))\<lparr>ob_device_class := Some ''connectivity''\<rparr>"

text \<open>The state of a button is the time it was last pressed, which the code leaves to Home
  Assistant.\<close>

definition button_object :: ha_object where
  "button_object = diagnostic ''button'' ''end_cooldown'' ''End Cooldown'' (\<lambda>_. HNone)"

text \<open>What the platforms add for a coordinator.\<close>

definition ha_objects :: "iso_parser \<Rightarrow> coordinator \<Rightarrow> ha_object list" where
  "ha_objects fromisoformat co =
     map sensor_object (entities_for_platform ''sensor'') @ [connection_object]
     @ (if bridge_health_enabled co
        then [bridge_link_object, bridge_signal_object, bridge_recoveries_object,
          last_recovery_object fromisoformat, bridge_uptime_object]
        else [])
     @ (if co_push_enabled co then [machine_object] else [])
     @ (if bridge_health_enabled co then [diagnostic_window_object, machine_reachable_object] else [])
     @ map switch_object (entities_for_platform ''switch'') @ map timer_object TIMER_SWITCHES
     @ map select_object (entities_for_platform ''select'')
     @ map time_object (entities_for_platform ''time'')
     @ map text_object (entities_for_platform ''text'')
     @ map climate_object HA_CLIMATE_ENTITIES @ [button_object]"

section \<open>What Home Assistant demands\<close>

text \<open>From the documentation of the entity platforms: the state of an enum sensor is one of
  its options, and of a sensor with a unit or a state class a number; a select shows one
  of its options; a text is no longer than its maximum; each may be unknown.\<close>

fun numeric :: "haval \<Rightarrow> bool" where
  "numeric (HInt n) \<longleftrightarrow> True"
| "numeric (HFloat x) \<longleftrightarrow> True"
| "numeric _ \<longleftrightarrow> False"

definition one_of :: "string list option \<Rightarrow> haval \<Rightarrow> bool" where
  "one_of opts v \<longleftrightarrow>
     (case v of HStr t \<Rightarrow> (case opts of None \<Rightarrow> False | Some ts \<Rightarrow> t \<in> set ts) | _ \<Rightarrow> False)"

definition haval_ok :: "ha_object \<Rightarrow> haval \<Rightarrow> bool" where
  "haval_ok ob v \<longleftrightarrow> v = HNone \<or>
     (if ob_platform ob = ''sensor'' then
        (if ob_device_class ob = Some ''enum'' then one_of (ob_options ob) v
         else if ob_device_class ob = Some ''timestamp'' then False
         else if ob_unit ob \<noteq> None \<or> ob_state_class ob \<noteq> None then numeric v
         else numeric v \<or> (\<exists>t. v = HStr t))
      else if ob_platform ob = ''binary_sensor'' \<or> ob_platform ob = ''switch'' then \<exists>b. v = HBool b
      else if ob_platform ob = ''select'' then one_of (ob_options ob) v
      else if ob_platform ob = ''time'' then \<exists>h m. v = HTime h m \<and> valid_haval v
      else if ob_platform ob = ''text''
      then \<exists>t n. v = HStr t \<and> ob_max_length ob = Some n \<and> length t \<le> n
      else False)"

definition state_ok :: "ha_object \<Rightarrow> ob_value \<Rightarrow> bool" where
  "state_ok ob v \<longleftrightarrow>
     (case v of
        Val x \<Rightarrow> haval_ok ob x
      | Stamp t offset \<Rightarrow>
          ob_platform ob = ''sensor'' \<and> ob_device_class ob = Some ''timestamp'' \<and> offset \<noteq> None
      | Mode m \<Rightarrow> ob_platform ob = ''climate'')"

section \<open>Lengths of profile texts\<close>

lemma fmt_num_length:
  assumes "0 \<le> k" "k \<le> 65535" "k div 10 < 10 ^ Suc d"
  shows "length (fmt_num (fl (of_int k / 10))) \<le> d + 3"
proof -
  let ?v = "fl (of_int k / 10) :: rat"
  have istr: "int_str n = map digit_char (digits_of 10 (nat n))" if "0 \<le> n" for n
    using that by (simp add: fmt_int_def zpad_def nat_str_def)
  have len: "length (int_str n) \<le> Suc d" if "0 \<le> n" "n < 10 ^ Suc d" for n
  proof -
    have "nat n < 10 ^ Suc d" using that by (simp add: nat_less_iff)
    then show ?thesis using length_digits_of [of 10 "nat n" d] by (simp add: istr [OF that(1)])
  qed
  show ?thesis
  proof (cases "of_int \<lfloor>?v\<rfloor> = ?v")
    case True
    then have k: "k = 10 * \<lfloor>?v\<rfloor>" using fl_tenth_integer [OF assms(1,2)] by simp
    then have "0 \<le> \<lfloor>?v\<rfloor>" "\<lfloor>?v\<rfloor> = k div 10" using assms(1) by linarith+
    then have "length (int_str \<lfloor>?v\<rfloor>) \<le> Suc d" using len assms(3) by simp
    then show ?thesis using True by (simp add: fmt_num_def)
  next
    case False
    have r: "rhe (10 * ?v) = k" by (rule rhe_tenth [OF assms(1,2)])
    have one: "length (int_str (k mod 10)) = 1"
      by (simp add: istr digits_of.simps [of 10 "nat (k mod 10)"])
    have "length (int_str (k div 10)) \<le> Suc d" using len assms(1,3) by simp
    then show ?thesis
      using False assms(1) one by (simp add: fmt_num_def fmt_1f_def r Let_def)
  qed
qed

lemma profile_step_length:
  assumes "length block = 15" "list_all is_byte block" "i < 5"
  shows "\<exists>t. profile_step block i = Inr t \<and> length t \<le> 11"
proof -
  let ?k = "block ! (2 * i) + push_bit 8 (block ! (2 * i + 1))"
  let ?b = "block ! (10 + i)"
  have bytes: "0 \<le> block ! j" "block ! j \<le> 255" if "j < 15" for j
    using assms(1,2) that by (auto simp: list_all_length is_byte_def)
  have k: "0 \<le> ?k" "?k \<le> 65535"
    using bytes [of "2 * i"] bytes [of "2 * i + 1"] assms(3) by (auto simp: push_bit_eq_mult)
  have b: "0 \<le> ?b" "?b \<le> 255" using bytes [of "10 + i"] assms(3) by auto
  have it: "py_item block (int i * 2) = Inr (block ! (2 * i))"
    "py_item block (int i * 2 + 1) = Inr (block ! (2 * i + 1))"
    "py_item block (10 + int i) = Inr ?b"
    using assms(1,3) unfolding py_item_def by (auto simp: nat_add_distrib nat_mult_distrib mult.commute)
  have "length (fmt_num (fl (of_int ?k / 10))) \<le> 6"
    using fmt_num_length [OF k, of 3] k(2) by simp
  moreover have "length (fmt_num (fl (of_int ?b / 10))) \<le> 4"
    using fmt_num_length [of ?b 1] b by simp
  ultimately show ?thesis unfolding profile_step_def it by (simp add: Let_def)
qed

lemma join_sp_length:
  "\<forall>w \<in> set ws. length w \<le> n \<Longrightarrow> length (join_sp ws) \<le> length ws * Suc n"
  by (induction ws rule: join_sp.induct) auto

lemma profile_shown:
  "\<exists>t. decode_profile_at a s = Inr (HStr t) \<and> length t \<le> 64"
proof -
  let ?block = "ha_settings_block s a PROFILE_LEN"
  have b: "length ?block = 15" "list_all is_byte ?block"
    using ha_settings_byte_bounds [of s]
    by (auto simp: ha_settings_block_def PROFILE_LEN_def list_all_iff is_byte_def)
  have "\<exists>f. \<forall>i < 5. profile_step ?block i = Inr (f i) \<and> length (f i) \<le> 11"
    using profile_step_length [OF b] by metis
  then obtain f where f: "\<forall>i < 5. profile_step ?block i = Inr (f i) \<and> length (f i) \<le> 11" by blast
  have "map_res (profile_step ?block) [0..<5] = Inr (map f [0..<5])"
    using f by (simp add: upt_rec)
  moreover have "length (join_sp (map f [0..<5])) \<le> 5 * Suc 11"
    using join_sp_length [of "map f [0..<5]" 11] f by simp
  ultimately show ?thesis
    by (simp add: decode_profile_at_def decode_profile_def PROFILE_STEPS_def)
qed

section \<open>States are of their kind\<close>

lemma platform_tables:
  "map (\<lambda>e. (he_decode e, he_device_class e, he_unit e, he_state_class e)) (entities_for_platform ''sensor'') =
     [(live_decibar CURRENT_PRESSURE, Some ''pressure'', Some ''bar'', Some ''measurement''),
      (\<lambda>s. bind_res (live_text DISPLAY s) (\<lambda>t. Inr (HStr t)), None, None, None),
      (\<lambda>s. Inr (HInt (ha_le16 (hs_settings s) TOTAL_COFFEE_COUNT)), None, None, Some ''total_increasing'')]"
  "map he_decode (entities_for_platform ''switch'') = [bool_on_zero STANDBY, bool_on_nonzero SERVICE_BOILER_ENABLE]"
  "map (\<lambda>e. (he_decode e, he_options e)) (entities_for_platform ''select'') =
     [(ha_enum ACTIVE_PROFILE PROFILE_OPTIONS, Some PROFILE_OPTIONS),
      (ha_enum WATER_FEED WATER_FEED_OPTIONS, Some WATER_FEED_OPTIONS),
      (ha_enum TEMPERATURE_UNIT TEMP_UNIT_OPTIONS, Some TEMP_UNIT_OPTIONS),
      (ha_enum LANGUAGE LANGUAGE_OPTIONS, Some LANGUAGE_OPTIONS)]"
  "map he_decode (entities_for_platform ''time'') =
     [ha_time AUTO_ON_HOUR AUTO_ON_MINUTE, ha_time AUTO_OFF_HOUR AUTO_OFF_MINUTE]"
  "map (\<lambda>e. (he_decode e, he_max_length e)) (entities_for_platform ''text'') =
     [(decode_profile_at PROFILE_A, Some 64), (decode_profile_at PROFILE_B, Some 64),
      (decode_profile_at PROFILE_C, Some 64)]"
  by (simp_all add: entities_for_platform_def HA_ENTITIES_def HaEntity_def)

lemma in_table: "map f xs = ys \<Longrightarrow> x \<in> set xs \<Longrightarrow> f x \<in> set ys"
  by auto

definition live_bytes_ok :: "ha_snapshot \<Rightarrow> bool" where
  "live_bytes_ok s \<longleftrightarrow> list_all (\<lambda>(a, d). list_all is_byte d) (hs_live s)"

lemma live_text_ok: "live_bytes_ok s \<Longrightarrow> \<exists>t. live_text a s = Inr t"
proof -
  assume ok: "live_bytes_ok s"
  have "list_all is_byte (ha_live_bytes s a)"
    using ok map_of_SomeD [of "hs_live s" a]
    by (cases "map_of (hs_live s) a") (auto simp: ha_live_bytes_def live_bytes_ok_def list_all_iff)
  then show ?thesis by (simp add: live_text_def py_bytes_def)
qed

definition shows_state :: "coordinator \<Rightarrow> ha_object \<Rightarrow> bool" where
  "shows_state co ob \<longleftrightarrow> (\<exists>v. ob_state ob co = Inr v \<and> state_ok ob v)"

lemma machine_states:
  assumes "co_data co = Some s"
  shows "e \<in> set (entities_for_platform ''sensor'') \<Longrightarrow> live_bytes_ok s \<Longrightarrow> shows_state co (sensor_object e)"
    and "e \<in> set (entities_for_platform ''switch'') \<Longrightarrow> shows_state co (switch_object e)"
    and "d \<in> set TIMER_SWITCHES \<Longrightarrow> shows_state co (timer_object d)"
    and "e \<in> set (entities_for_platform ''select'') \<Longrightarrow> shows_state co (select_object e)"
    and "e \<in> set (entities_for_platform ''time'') \<Longrightarrow> shows_state co (time_object e)"
    and "e \<in> set (entities_for_platform ''text'') \<Longrightarrow> shows_state co (text_object e)"
    and "shows_state co (climate_object c)"
proof -
  note st = shows_state_def state_ok_def haval_ok_def val_def new_object_def native_value_def decoded_Some [OF assms]
  show "shows_state co (sensor_object e)"
    if "e \<in> set (entities_for_platform ''sensor'')" "live_bytes_ok s"
    using in_table [OF platform_tables(1) that(1)] live_text_ok [OF that(2), of DISPLAY]
    by (auto simp: sensor_object_def st live_decibar_def Let_def)
  show "shows_state co (switch_object e)" if "e \<in> set (entities_for_platform ''switch'')"
    using in_table [OF platform_tables(2) that]
    by (auto simp: switch_object_def switch_is_on_def st bool_on_zero_def bool_on_nonzero_def)
  show "shows_state co (timer_object d)"
    by (simp add: timer_object_def st timer_is_on_def snapshot_time_def)
  show "shows_state co (select_object e)" if "e \<in> set (entities_for_platform ''select'')"
    using in_table [OF platform_tables(3) that]
    by (auto simp: select_object_def st ha_enum_def one_of_def Let_def nat_less_iff)
  show "shows_state co (time_object e)" if "e \<in> set (entities_for_platform ''time'')"
    using in_table [OF platform_tables(4) that]
    by (auto simp: time_object_def st ha_time_def Let_def)
  show "shows_state co (text_object e)" if "e \<in> set (entities_for_platform ''text'')"
    using in_table [OF platform_tables(5) that] profile_shown [of PROFILE_A s]
      profile_shown [of PROFILE_B s] profile_shown [of PROFILE_C s]
    by (auto simp: text_object_def st)
  show "shows_state co (climate_object c)" by (simp add: climate_object_def st hvac_mode_def)
qed

lemma diagnostic_states:
  "shows_state co connection_object" "shows_state co bridge_link_object"
  "shows_state co bridge_signal_object" "shows_state co bridge_recoveries_object"
  "shows_state co bridge_uptime_object" "shows_state co machine_object"
  "shows_state co diagnostic_window_object" "shows_state co machine_reachable_object"
  "shows_state co button_object"
proof -
  note st = shows_state_def state_ok_def haval_ok_def val_def diagnostic_def new_object_def one_of_def
  show "shows_state co connection_object"
    by (simp add: st connection_object_def connection_state_def STATE_CONNECTED_def
        STATE_RECONNECTING_def STATE_COOLDOWN_def STATE_MACHINE_UNAVAILABLE_def
        STATE_BRIDGE_DOWN_def STATE_BRIDGE_RECOVERING_def split: option.split)
  show "shows_state co bridge_link_object"
    by (simp add: st bridge_link_object_def bridge_link_def split: option.split)
  show "shows_state co bridge_signal_object" "shows_state co bridge_recoveries_object"
    "shows_state co bridge_uptime_object" "shows_state co machine_object"
    "shows_state co diagnostic_window_object" "shows_state co machine_reachable_object"
    "shows_state co button_object"
    by (simp_all add: st button_object_def optional_def bridge_signal_object_def bridge_recoveries_object_def
        bridge_uptime_object_def machine_object_def diagnostic_window_object_def
        machine_reachable_object_def split: option.split)
qed

text \<open>The time of the last recovery: what the parser makes of a text without an offset is not
  accepted as the state of a timestamp sensor.\<close>

lemma last_recovery_state:
  "shows_state co (last_recovery_object fromiso) \<longleftrightarrow>
     (\<forall>t offset. bridge_last_recovery fromiso co = Some (t, offset) \<longrightarrow> offset \<noteq> None)"
  by (cases "bridge_last_recovery fromiso co")
    (auto simp: shows_state_def state_ok_def haval_ok_def last_recovery_object_def diagnostic_def
      new_object_def)

lemma naive_timestamp_refused:
  "bridge_last_recovery fromiso co = Some (t, None) \<Longrightarrow> \<not> shows_state co (last_recovery_object fromiso)"
  by (simp add: last_recovery_state)

text \<open>The keys are those of \<open>HaPlatforms\<close>, so no two objects have one unique id.\<close>

lemma object_keys:
  "map ob_key (ha_objects fromiso co) = sensor_keys co @ binary_sensor_keys co @ switch_keys @ select_keys
     @ time_keys @ text_keys @ climate_keys @ button_keys"
proof -
  have k: "map (ob_key \<circ> sensor_object) xs = map he_key xs" "map (ob_key \<circ> switch_object) xs = map he_key xs"
    "map (ob_key \<circ> select_object) xs = map he_key xs" "map (ob_key \<circ> time_object) xs = map he_key xs"
    "map (ob_key \<circ> text_object) xs = map he_key xs" "map (ob_key \<circ> timer_object) ys = map ts_key ys"
    "map (ob_key \<circ> climate_object) zs = map hc_key zs"
    for xs ys zs
    by (simp_all add: sensor_object_def switch_object_def select_object_def time_object_def
        text_object_def timer_object_def climate_object_def new_object_def)
  show ?thesis
    by (simp add: ha_objects_def k sensor_keys_def binary_sensor_keys_def switch_keys_def
        select_keys_def time_keys_def text_keys_def climate_keys_def button_keys_def
        diagnostic_def new_object_def connection_object_def bridge_link_object_def
        bridge_signal_object_def bridge_recoveries_object_def last_recovery_object_def
        bridge_uptime_object_def machine_object_def diagnostic_window_object_def
        machine_reachable_object_def button_object_def)
qed

lemma unique_ids_distinct: "distinct (map (entity_unique_id uid) (ha_objects fromiso co))"
proof -
  have "distinct (map ob_key (ha_objects fromiso co))" unfolding object_keys by (rule unique_keys)
  then have "distinct (map (\<lambda>k. uid @ ''_'' @ k) (map ob_key (ha_objects fromiso co)))"
    by (subst distinct_map) (simp add: inj_on_def)
  then show ?thesis by (simp add: entity_unique_id_def [abs_def] comp_def)
qed

lemma thermostat_states:
  assumes "co_data co = Some s" "live_bytes_ok s"
  shows "(\<exists>t. current_temperature c co = Inr t) \<and> (\<exists>t. target_temperature c co = Inr t)"
  using live_text_ok [OF assms(2), of DISPLAY]
  by (auto simp: current_temperature_def target_temperature_def decoded_Some [OF assms(1)] current_c_def split: option.split)

section \<open>Properties\<close>

text \<open>C27: Every object of the integration shows a state of its kind: once there is a snapshot
  whose live values are bytes, and when the health report's time of the last recovery, if
  it parses, has an offset from UTC, then, whatever the settings hold and whatever else the
  report says, the state of each object the platforms add is decoded without an exception
  and is what Home Assistant accepts for it (a number for a sensor with a unit or a state
  class, one of the options for an enum or a select, a time with an offset for a timestamp,
  a valid time, a profile text within its maximal length, a mode for a thermostat), the
  thermostats' temperatures are numbers, and no two objects have the same unique id.\<close>

theorem states_typed:
  assumes "co_data co = Some s" "live_bytes_ok s" "ob \<in> set (ha_objects fromiso co)"
    and "\<forall>t offset. bridge_last_recovery fromiso co = Some (t, offset) \<longrightarrow> offset \<noteq> None"
  shows "(\<exists>v. ob_state ob co = Inr v \<and> state_ok ob v)
    \<and> (\<exists>t. current_temperature climate co = Inr t) \<and> (\<exists>t. target_temperature climate co = Inr t)
    \<and> distinct (map (entity_unique_id uid) (ha_objects fromiso co))"
proof -
  have "shows_state co (last_recovery_object fromiso)" unfolding last_recovery_state by (rule assms(4))
  then have "shows_state co ob"
    using assms(3) machine_states [OF assms(1)] assms(2) diagnostic_states [of co]
    unfolding ha_objects_def by (auto split: if_splits)
  then show ?thesis
    using thermostat_states [OF assms(1,2)] unique_ids_distinct by (simp add: shows_state_def)
qed

text \<open>The profile with the longest text, beside a push stream.\<close>

theorem states_typed_witness:
  "let s = \<lparr>hs_settings = replicate 115 255, hs_live = [(CURRENT_PRESSURE, [90])], hs_available = True\<rparr>;
       co = (new_coordinator (ha_new_conn (demo_tape []) 10) (\<lambda>t. t) None None True)\<lparr>co_data := Some s\<rparr>
   in \<exists>ob \<in> set (ha_objects (\<lambda>_. None) co). ob_platform ob = ''text''
        \<and> (\<exists>v. ob_state ob co = Inr v \<and> state_ok ob v)"
proof -
  let ?s = "\<lparr>hs_settings = replicate 115 255, hs_live = [(CURRENT_PRESSURE, [90])], hs_available = True\<rparr>"
  let ?co = "(new_coordinator (ha_new_conn (demo_tape []) 10) (\<lambda>t. t) None None True)\<lparr>co_data := Some ?s\<rparr>"
  have "map ob_platform (map text_object (entities_for_platform ''text'')) = [''text'', ''text'', ''text'']"
    by (simp add: entities_for_platform_def HA_ENTITIES_def HaEntity_def text_object_def new_object_def)
  then have "''text'' \<in> set (map ob_platform (map text_object (entities_for_platform ''text'')))"
    by (simp only: list.set insert_iff simp_thms)
  then obtain ob where ob: "ob \<in> set (map text_object (entities_for_platform ''text''))"
    and p: "''text'' = ob_platform ob"
    unfolding set_map [of ob_platform] by (rule imageE)
  then have m: "ob \<in> set (ha_objects (\<lambda>_. None) ?co)" by (simp add: ha_objects_def)
  have iso: "\<forall>t offset. bridge_last_recovery (\<lambda>_. None :: (rat \<times> rat option) option) ?co = Some (t, offset)
      \<longrightarrow> offset \<noteq> None"
    by (simp add: bridge_last_recovery_def new_coordinator_def)
  have "co_data ?co = Some ?s" "live_bytes_ok ?s" by (simp_all add: live_bytes_ok_def is_byte_def)
  from conjI [OF p [symmetric] conjunct1 [OF states_typed [OF this m iso]]]
  show ?thesis unfolding Let_def by (rule bexI [OF _ m])
qed

end
