(* ===== verification/HaSetup.thy ===== *)
theory HaSetup
  imports HaPush
begin

text \<open>
  Setting the integration up: the reachability test and the two flows of
  \<open>config_flow.py\<close>, the settings resolved from an entry's options and data
  (\<open>const.py\<close>, \<open>__init__.py\<close>), and \<open>async_setup_entry\<close> with its clean-up and the unload. Home
  Assistant's first refresh is an argument of the set-up.
\<close>

section \<open>Settings of an entry\<close>

definition CONF_HOST :: string where "CONF_HOST = ''host''"
definition CONF_PORT :: string where "CONF_PORT = ''port''"
definition CONF_BRIDGE_HEALTH_URL :: string where "CONF_BRIDGE_HEALTH_URL = ''bridge_health_url''"
definition CONF_PUSH_URL :: string where "CONF_PUSH_URL = ''push_url''"
definition CONF_CLOCK_SYNC :: string where "CONF_CLOCK_SYNC = ''clock_sync''"
definition DEFAULT_CLOCK_SYNC :: bool where "DEFAULT_CLOCK_SYNC = True"
definition HA_DEFAULT_HOST :: string where "HA_DEFAULT_HOST = ''192.168.1.1''"
definition HA_DEFAULT_PORT :: int where "HA_DEFAULT_PORT = 1774"
definition DEFAULT_BRIDGE_HEALTH_PORT :: int where "DEFAULT_BRIDGE_HEALTH_PORT = 8787"
definition DEFAULT_PUSH_PORT :: int where "DEFAULT_PUSH_PORT = 8788"

lemmas conf_defs = CONF_HOST_def CONF_PORT_def CONF_BRIDGE_HEALTH_URL_def CONF_PUSH_URL_def
  CONF_CLOCK_SYNC_def

definition default_bridge_health_url :: "string \<Rightarrow> int \<Rightarrow> string" where
  "default_bridge_health_url host port = ''http://'' @ host @ '':'' @ int_str port @ ''/health''"

definition default_push_url :: "string \<Rightarrow> int \<Rightarrow> string" where
  "default_push_url host port = ''ws://'' @ host @ '':'' @ int_str port"

type_synonym settings_dict = "(string \<times> json) list"

definition clock_sync_enabled :: "settings_dict \<Rightarrow> settings_dict \<Rightarrow> bool" where
  "clock_sync_enabled options data =
     (case map_of options CONF_CLOCK_SYNC of
        Some v \<Rightarrow> json_true v
      | None \<Rightarrow>
          (case map_of data CONF_CLOCK_SYNC of
             Some v \<Rightarrow> json_true v
           | None \<Rightarrow> DEFAULT_CLOCK_SYNC))"

record config_entry =
  ce_data :: settings_dict
  ce_options :: settings_dict

fun json_text :: "json \<Rightarrow> string" where
  "json_text (JStr s) = s"
| "json_text _ = []"

text \<open>\<open>options.get(key) or data.get(key) or None\<close>, for keys whose values are text.\<close>

definition effective_url :: "string \<Rightarrow> config_entry \<Rightarrow> string option" where
  "effective_url key e =
     (let opt = json_text (json_get (ce_options e) key JNull);
          d = json_text (json_get (ce_data e) key JNull)
      in if opt \<noteq> [] then Some opt else if d \<noteq> [] then Some d else None)"

section \<open>The flows\<close>

definition can_connect :: "conn \<Rightarrow> bool res \<times> conn" where
  "can_connect c =
     (case ha_read SETTINGS_BASE SETTINGS_LEN c of
        (Inr _, c) \<Rightarrow> (Inr True, client_close c)
      | (Inl e, c) \<Rightarrow>
          (if e \<in> {R60VConnectionError, OSError} then Inr False else Inl e, client_close c))"

text \<open>The data of a new entry: a blank URL is dropped.\<close>

definition drop_blank :: "string \<Rightarrow> settings_dict \<Rightarrow> settings_dict" where
  "drop_blank key data =
     (if strip (json_text (json_get data key JNull)) = [] then AList.delete key data else data)"

definition user_step :: "settings_dict \<Rightarrow> conn \<Rightarrow> settings_dict option res \<times> conn" where
  "user_step input c =
     (case can_connect c of
        (Inl e, c) \<Rightarrow> (Inl e, c)
      | (Inr ok, c) \<Rightarrow>
          (Inr (if ok then Some (drop_blank CONF_PUSH_URL (drop_blank CONF_BRIDGE_HEALTH_URL input))
                else None), c))"

text \<open>The whole step: a form at first, an abort for a machine that has an entry already,
  and a form with an error when the machine does not answer.\<close>

datatype flow_result = Show_form bool | Abort | Create_entry string settings_dict

definition flow_unique_id :: "settings_dict \<Rightarrow> string" where
  "flow_unique_id input =
     json_text (json_get input CONF_HOST JNull) @ '':''
     @ (case json_get input CONF_PORT JNull of JInt n \<Rightarrow> int_str n | _ \<Rightarrow> [])"

definition user_flow :: "string list \<Rightarrow> settings_dict option \<Rightarrow> conn \<Rightarrow> flow_result res \<times> conn" where
  "user_flow configured input c =
     (case input of
        None \<Rightarrow> (Inr (Show_form False), c)
      | Some input \<Rightarrow>
          if flow_unique_id input \<in> set configured then (Inr Abort, c)
          else
            (case user_step input c of
               (Inl e, c) \<Rightarrow> (Inl e, c)
             | (Inr None, c) \<Rightarrow> (Inr (Show_form True), c)
             | (Inr (Some data), c) \<Rightarrow>
                 (Inr (Create_entry
                    (''Rocket R60V ('' @ json_text (json_get input CONF_HOST JNull) @ '')'') data), c)))"

record options_input =
  oi_push :: "string option"
  oi_health :: "string option"
  oi_clock :: "bool option"

definition options_submit :: "options_input \<Rightarrow> settings_dict" where
  "options_submit i =
     [(CONF_PUSH_URL, JStr (strip (case oi_push i of None \<Rightarrow> [] | Some s \<Rightarrow> s))),
      (CONF_BRIDGE_HEALTH_URL, JStr (strip (case oi_health i of None \<Rightarrow> [] | Some s \<Rightarrow> s))),
      (CONF_CLOCK_SYNC, JBool (case oi_clock i of None \<Rightarrow> DEFAULT_CLOCK_SYNC | Some b \<Rightarrow> b))]"

text \<open>The defaults with which the options form opens: what is submitted unless edited.\<close>

definition options_form :: "config_entry \<Rightarrow> options_input" where
  "options_form e =
     (let host = json_text (json_get (ce_data e) CONF_HOST (JStr HA_DEFAULT_HOST));
          current = (\<lambda>key dflt. case effective_url key e of None \<Rightarrow> dflt | Some u \<Rightarrow> u)
      in \<lparr>oi_push = Some (current CONF_PUSH_URL (default_push_url host DEFAULT_PUSH_PORT)),
          oi_health = Some (current CONF_BRIDGE_HEALTH_URL
                              (default_bridge_health_url host DEFAULT_BRIDGE_HEALTH_PORT)),
          oi_clock = Some (clock_sync_enabled (ce_options e) (ce_data e))\<rparr>)"

section \<open>Setting up and unloading\<close>

definition BRIDGE_HEALTH_REFRESH :: time where
  "BRIDGE_HEALTH_REFRESH = 30"

record runtime_data =
  rt_coordinator :: coordinator
  rt_push :: "push_client option"
  rt_clock :: bool
  rt_health_timer :: bool

text \<open>The client, the wall clock, the health fetcher, a closed command channel and the
  first refresh (which runs the coordinator's update and raises when it failed) are given.\<close>

definition setup_entry :: "conn \<Rightarrow> (time \<Rightarrow> time) \<Rightarrow> (nat \<Rightarrow> fetched) \<Rightarrow> channel
    \<Rightarrow> (coordinator \<Rightarrow> unit res \<times> coordinator) \<Rightarrow> config_entry
    \<Rightarrow> runtime_data res \<times> coordinator" where
  "setup_entry client utc fetch ch first_refresh e =
     (let health_url = effective_url CONF_BRIDGE_HEALTH_URL e;
          fetcher = (if health_url = None then None else Some fetch);
          push_url = effective_url CONF_PUSH_URL e;
          co = new_coordinator client utc health_url fetcher (push_url \<noteq> None)
      in (case first_refresh co of
            (Inl x, co) \<Rightarrow> (Inl x, close_client co)
          | (Inr _, co) \<Rightarrow>
              let co = (if push_url \<noteq> None then attach_push_client ch co else co)
              in (Inr \<lparr>rt_coordinator = co, rt_push = (if push_url \<noteq> None then Some (push_start new_push_client) else None),
                       rt_clock = clock_sync_enabled (ce_options e) (ce_data e),
                       rt_health_timer = (push_url \<noteq> None \<and> bridge_health_enabled co)\<rparr>, co)))"

text \<open>The stop of the push client closes the command channel, its \<open>_ws\<close>; an exception of
  the stop leaves everything else as it is.\<close>

definition unload_entry :: "bool \<Rightarrow> runtime_data \<Rightarrow> bool res \<times> runtime_data" where
  "unload_entry unload_ok rt =
     (if \<not> unload_ok then (Inr False, rt)
      else
        (case (case rt_push rt of
                 None \<Rightarrow> (Inr (), rt)
               | Some pc \<Rightarrow>
                   (case push_stop pc of
                      (Inl e, pc) \<Rightarrow> (Inl e, rt\<lparr>rt_push := Some pc\<rparr>)
                    | (Inr _, pc) \<Rightarrow>
                        (Inr (), rt\<lparr>rt_push := Some pc,
                           rt_coordinator := (rt_coordinator rt)\<lparr>co_channel :=
                             map_option (ch_open_update (\<lambda>_. False)) (co_channel (rt_coordinator rt))\<rparr>\<rparr>))) of
           (Inl e, rt) \<Rightarrow> (Inl e, rt)
         | (Inr _, rt) \<Rightarrow>
             (Inr True, rt\<lparr>rt_health_timer := False, rt_clock := False,
                rt_coordinator := close_client (rt_coordinator rt)\<rparr>)))"

text \<open>A device of the entry may be removed by the user unless it is the entry's own.\<close>

definition HA_DOMAIN :: string where "HA_DOMAIN = ''rocket_r60v''"

definition remove_config_entry_device :: "string \<Rightarrow> (string \<times> string) list \<Rightarrow> bool" where
  "remove_config_entry_device uid identifiers =
     (\<not> list_ex (\<lambda>(domain, ident). domain = HA_DOMAIN \<and> ident = uid) identifiers)"

text \<open>Between the two, the push client's task runs.\<close>

definition subscribe_entry :: "session list \<Rightarrow> runtime_data \<Rightarrow> runtime_data" where
  "subscribe_entry sessions rt =
     (case rt_push rt of
        None \<Rightarrow> rt
      | Some pc \<Rightarrow>
          (case push_run sessions (BACKOFF_START, rt_coordinator rt) of
             (rs, _, co) \<Rightarrow>
               rt\<lparr>rt_coordinator := co, rt_push := Some (pc\<lparr>pc_task := Some (task_after rs)\<rparr>)\<rparr>))"

section \<open>Facts\<close>

lemma client_close_disconnects: "\<not> connected (client_close c)"
  by (simp add: connected_def client_close_def drop_link_def)

lemma default_push_url_nonblank: "strip (default_push_url host port) \<noteq> []"
proof -
  have "\<not> is_ws (CHR ''w'')" by (simp add: is_ws_def code_def)
  then have "dropWhile is_ws (default_push_url host port) = default_push_url host port"
    by (simp add: default_push_url_def)
  moreover have "dropWhile is_ws (rev (default_push_url host port)) \<noteq> []"
    using \<open>\<not> is_ws (CHR ''w'')\<close> by (auto simp: default_push_url_def dropWhile_eq_Nil_conv)
  ultimately show ?thesis by (simp add: strip_def strip_by_def)
qed

text \<open>A machine has one entry: the flow does not even connect for a second; and in every case
  it leaves no connection behind.\<close>

lemma user_flow_once:
  "flow_unique_id input \<in> set configured \<Longrightarrow> user_flow configured (Some input) c = (Inr Abort, c)"
  by (simp add: user_flow_def)

lemma user_flow_disconnects:
  "\<not> connected c \<Longrightarrow> \<not> connected (snd (user_flow configured input c))"
  by (auto simp: user_flow_def user_step_def can_connect_def client_close_disconnects
      split: option.split prod.split sum.split)

lemma user_flow_creates:
  assumes "user_flow configured (Some input) c = (Inr (Create_entry title data), c')"
  shows "flow_unique_id input \<notin> set configured \<and> flow_unique_id data = flow_unique_id input"
proof -
  have "flow_unique_id (drop_blank key d) = flow_unique_id d" if "key \<in> {CONF_PUSH_URL, CONF_BRIDGE_HEALTH_URL}" for key d
    using that by (auto simp: drop_blank_def flow_unique_id_def json_get_def conf_defs delete_conv')
  then show ?thesis
    using assms by (auto simp: user_flow_def user_step_def split: if_splits prod.splits sum.splits option.splits)
qed

section \<open>Properties\<close>

text \<open>C40: A push URL chosen at the first set-up cannot be turned off: with a push URL in the
  entry's data, whatever is submitted in the options form, a blank URL included, the entry
  still has a push URL. For an entry without one, submitting the form as it opens turns
  push mode on, and a URL that was added through the options only, whatever it was, is
  cleared by a blank submission.\<close>

theorem push_cannot_be_turned_off:
  assumes "map_of (ce_data e) CONF_PUSH_URL = Some (JStr u)" "u \<noteq> []"
    and "effective_url CONF_PUSH_URL e' = None"
  shows "effective_url CONF_PUSH_URL (e\<lparr>ce_options := options_submit input\<rparr>) \<noteq> None
    \<and> effective_url CONF_PUSH_URL (e'\<lparr>ce_options := options_submit (options_form e')\<rparr>) \<noteq> None
    \<and> effective_url CONF_PUSH_URL (e'\<lparr>ce_options := options_submit added\<rparr>
          \<lparr>ce_options := options_submit (input\<lparr>oi_push := Some []\<rparr>)\<rparr>) = None"
proof -
  have "effective_url CONF_PUSH_URL (e\<lparr>ce_options := options_submit input\<rparr>) \<noteq> None"
    using assms(1,2) by (simp add: effective_url_def json_get_def Let_def)
  moreover have "oi_push (options_form e')
      = Some (default_push_url (json_text (json_get (ce_data e') CONF_HOST (JStr HA_DEFAULT_HOST))) DEFAULT_PUSH_PORT)"
    using assms(3) by (simp add: options_form_def Let_def)
  moreover have "strip [] = []" by (simp add: strip_def)
  ultimately show ?thesis
    using default_push_url_nonblank assms(3)
    by (auto simp: effective_url_def options_submit_def json_get_def Let_def split: if_splits)
qed

theorem push_cannot_be_turned_off_witness:
  "effective_url CONF_PUSH_URL (\<lparr>ce_data = [(CONF_PUSH_URL, JStr ''ws://a:1'')], ce_options = []\<rparr>
      \<lparr>ce_options := options_submit \<lparr>oi_push = Some [], oi_health = None, oi_clock = None\<rparr>\<rparr>) \<noteq> None
   \<and> effective_url CONF_PUSH_URL (\<lparr>ce_data = [], ce_options = []\<rparr>
      \<lparr>ce_options := options_submit (options_form \<lparr>ce_data = [], ce_options = []\<rparr>)\<rparr>) \<noteq> None
   \<and> effective_url CONF_PUSH_URL (\<lparr>ce_data = [], ce_options = []\<rparr>
      \<lparr>ce_options := options_submit \<lparr>oi_push = Some ''ws://a:1'', oi_health = None, oi_clock = None\<rparr>\<rparr>
      \<lparr>ce_options := options_submit (\<lparr>oi_push = Some [], oi_health = None, oi_clock = None\<rparr>
         \<lparr>oi_push := Some []\<rparr>)\<rparr>) = None"
  by (rule push_cannot_be_turned_off [where u = "''ws://a:1''"])
    (simp_all add: effective_url_def json_get_def)

text \<open>C39: An unloaded entry leaves nothing behind, unless its stream was broken: after any
  set-up and whatever connections of the push client, unloading stops the subscribe task
  and both timers and closes the link and the command channel; but if one frame had live
  registers that are no object, it raises the \<open>AttributeError\<close> that ended the task then,
  and the timers, the clock's among them, and the link stay.\<close>

theorem unload_releases:
  assumes "setup_entry client utc fetch ch first_refresh e = (Inr rt, co)"
    and "list_all ends_well sessions"
    and "unload_entry True (subscribe_entry sessions rt) = (r, rt')"
  shows "if rt_push rt \<noteq> None \<and> list_ex breaks sessions
    then r = Inl AttributeError
      \<and> rt_clock rt' = clock_sync_enabled (ce_options e) (ce_data e)
      \<and> rt_health_timer rt' = bridge_health_enabled co
      \<and> co_client (rt_coordinator rt') = co_client co
    else r = Inr True \<and> \<not> rt_clock rt' \<and> \<not> rt_health_timer rt'
      \<and> \<not> connected (co_client (rt_coordinator rt'))
      \<and> (\<forall>pc. rt_push rt' = Some pc \<longrightarrow> pc_task pc = None)
      \<and> (\<forall>c. rt_push rt' \<noteq> None \<and> co_channel (rt_coordinator rt') = Some c \<longrightarrow> \<not> ch_open c)"
proof -
  have entry: "rt_coordinator rt = co" "rt_clock rt = clock_sync_enabled (ce_options e) (ce_data e)"
    "rt_push rt = None \<or> rt_push rt = Some (push_start new_push_client) \<and> rt_health_timer rt = bridge_health_enabled co"
    using assms(1) by (auto simp: setup_entry_def Let_def split: prod.splits sum.splits if_splits)
  show ?thesis
  proof (cases "rt_push rt")
    case None
    then show ?thesis
      using assms(3)
      by (auto simp: subscribe_entry_def unload_entry_def close_client_def client_close_disconnects)
  next
    case (Some pc)
    obtain rs b co' where run: "push_run sessions (BACKOFF_START, co) = (rs, b, co')"
      by (metis prod.exhaust)
    note res = push_run_result [OF assms(2), of "(BACKOFF_START, co)", unfolded run]
    show ?thesis
      using assms(3) res entry
      by (auto simp: Some run subscribe_entry_def unload_entry_def close_client_def push_stop_def
          push_start_def client_close_disconnects Let_def split: if_splits)
  qed
qed

text \<open>A good frame, then one whose live registers are a list.\<close>

theorem unload_releases_witness:
  "\<exists>rt'. unload_entry True (subscribe_entry
        [Refused OSError, Streamed [None, Some (JObj [(''type'', JStr ''state''), (''settings'', JList []),
          (''live'', JList [JInt 1])])] None]
        \<lparr>rt_coordinator = attach_push_client \<lparr>ch_open = False, ch_outcome = \<lambda>_. Inr (), ch_sent = []\<rparr>
           (new_coordinator (ha_new_conn (demo_tape []) 10) (\<lambda>t. t) None None True),
         rt_push = Some (push_start new_push_client), rt_clock = True, rt_health_timer = False\<rparr>)
      = (Inl AttributeError, rt') \<and> rt_clock rt'"
proof -
  let ?ch = "\<lparr>ch_open = False, ch_outcome = \<lambda>_. Inr (), ch_sent = []\<rparr>"
  let ?e = "\<lparr>ce_data = [(CONF_PUSH_URL, JStr ''ws://a:1'')], ce_options = []\<rparr>"
  let ?bad = "Some (JObj [(''type'', JStr ''state''), (''settings'', JList []), (''live'', JList [JInt 1])])"
  let ?ss = "[Refused OSError, Streamed [None, ?bad] None]"
  let ?co = "new_coordinator (ha_new_conn (demo_tape []) 10) (\<lambda>t. t) None None True"
  let ?rt = "\<lparr>rt_coordinator = attach_push_client ?ch ?co, rt_push = Some (push_start new_push_client),
    rt_clock = True, rt_health_timer = False\<rparr>"
  have s: "setup_entry (ha_new_conn (demo_tape []) 10) (\<lambda>t. t) undefined ?ch (\<lambda>co. (Inr (), co)) ?e
      = (Inr ?rt, attach_push_client ?ch ?co)"
    by (simp add: setup_entry_def effective_url_def conf_defs json_get_def clock_sync_enabled_def
        DEFAULT_CLOCK_SYNC_def bridge_health_enabled_def attach_push_client_def new_coordinator_def Let_def)
  have ok: "list_all ends_well ?ss" by (simp add: stream_errors_def)
  have bad: "list_ex breaks ?ss" by (simp add: malformed_def json_get_def)
  obtain r rt' where u: "unload_entry True (subscribe_entry ?ss ?rt) = (r, rt')" by (rule prod.exhaust)
  have "clock_sync_enabled (ce_options ?e) (ce_data ?e)"
    by (simp add: clock_sync_enabled_def DEFAULT_CLOCK_SYNC_def conf_defs json_get_def)
  then show ?thesis using unload_releases [OF s ok u] bad u by auto
qed

end
