(* ===== verification/HaPolling.thy ===== *)
theory HaPolling
  imports HaPlatforms
begin

text \<open>
  The life of the coordinator in polling mode, \<open>coordinator.py\<close>: the updates that Home
  Assistant schedules, the commands of the user, the button that ends a cooldown, and
  whatever happens meanwhile on the connection and to the clock, in any order. Home
  Assistant's base class decides what becomes of an update's outcome; its documented
  behaviour is a hypothesis.
\<close>

section \<open>The base class\<close>

text \<open>From the documentation of \<open>DataUpdateCoordinator\<close>: the result of an update is stored
  and counts as a success; an exception, whatever it is, keeps the data and counts as a
  failure.\<close>

definition documented_outcome :: "(ha_snapshot res \<Rightarrow> coordinator \<Rightarrow> coordinator) \<Rightarrow> bool" where
  "documented_outcome base \<longleftrightarrow>
     (\<forall>s co. base (Inr s) co = co\<lparr>co_data := Some s, co_last_update_success := True\<rparr>)
     \<and> (\<forall>e co. base (Inl e) co = co\<lparr>co_last_update_success := False\<rparr>)"

section \<open>Histories\<close>

datatype polling_event =
    Update
  | Set int "int list" "string option"
  | End_cooldown
  | Elsewhere "conn \<Rightarrow> conn"

fun polling_step :: "(ha_snapshot res \<Rightarrow> coordinator \<Rightarrow> coordinator) \<Rightarrow> polling_event
    \<Rightarrow> coordinator \<Rightarrow> coordinator" where
  "polling_step base Update co = (let (r, co) = async_update_data co in base r co)"
| "polling_step base (Set address data key) co = snd (async_write address data key co)"
| "polling_step base End_cooldown co = async_end_cooldown co"
| "polling_step base (Elsewhere f) co = co\<lparr>co_client := f (co_client co)\<rparr>"

text \<open>A polled snapshot is marked available and has every live register.\<close>

definition polled :: "ha_snapshot \<Rightarrow> bool" where
  "polled s \<longleftrightarrow> hs_available s \<and> map fst (hs_live s) = map fst LIVE_REGISTERS"

definition polling_inv :: "coordinator \<Rightarrow> bool" where
  "polling_inv co \<longleftrightarrow> \<not> co_push_enabled co
     \<and> (co_cooldown_until co \<noteq> None \<longrightarrow> 0 < co_cooldown_index co)
     \<and> (\<forall>s. co_data co = Some s \<longrightarrow> polled s
          \<and> (co_last_update_success co \<longrightarrow>
               co_cooldown_index co = 0 \<and> co_failures co \<le> FAILURE_TOLERANCE \<and> \<not> bridge_blocking co))"

section \<open>An update\<close>

lemma read_registers_keys:
  "read_registers regs c = (Inr live, c') \<Longrightarrow> map fst live = map fst regs"
  by (induction regs c arbitrary: live c' rule: read_registers.induct)
    (auto split: prod.splits sum.splits)

lemma read_snapshot_polled: "read_snapshot c = (Inr s, c') \<Longrightarrow> polled s"
  by (auto simp: read_snapshot_def polled_def dest: read_registers_keys split: prod.splits sum.splits)

text \<open>What an update keeps, and what a success of it means.\<close>

definition outcome_ok :: "coordinator \<Rightarrow> ha_snapshot res \<Rightarrow> coordinator \<Rightarrow> bool" where
  "outcome_ok co r co' \<longleftrightarrow>
     co_push_enabled co' = co_push_enabled co \<and> co_data co' = co_data co \<and> co_bridge co' = co_bridge co
     \<and> (co_cooldown_until co' \<noteq> None \<longrightarrow> 0 < co_cooldown_index co')
     \<and> (\<forall>s. r = Inr s \<longrightarrow> polled s \<and> co_cooldown_index co' = 0 \<and> co_failures co' \<le> FAILURE_TOLERANCE)"

lemma full_poll_outcome:
  assumes "full_poll co = (r, co')" "co_cooldown_index co = 0" "co_cooldown_until co = None"
    and "\<forall>s. co_data co = Some s \<longrightarrow> polled s"
  shows "outcome_ok co r co'"
proof -
  obtain x c where x: "read_snapshot (co_client co) = (x, c)" by (cases "read_snapshot (co_client co)")
  show ?thesis
    using assms x read_snapshot_polled [of "co_client co"]
    by (auto simp: full_poll_def outcome_ok_def clear_cooldown_def close_client_def enter_cooldown_def
        Let_def split: sum.splits option.splits if_splits)
qed

lemma probe_frame:
  assumes "probe_healthy co = (r, co')"
  shows "co_push_enabled co' = co_push_enabled co" "co_data co' = co_data co" "co_bridge co' = co_bridge co"
    "co_cooldown_until co' = co_cooldown_until co" "co_cooldown_index co' = co_cooldown_index co"
  using assms
  by (auto simp: probe_healthy_def close_if_connected_def close_client_def split: prod.splits sum.splits if_splits)

lemma poll_machine_outcome:
  assumes "poll_machine co = (r, co')" "co_cooldown_until co \<noteq> None \<longrightarrow> 0 < co_cooldown_index co"
    and "\<forall>s. co_data co = Some s \<longrightarrow> polled s"
  shows "outcome_ok co r co'"
proof (cases "0 < co_cooldown_index co")
  case False
  then show ?thesis using assms by (intro full_poll_outcome) (auto simp: poll_machine_def)
next
  case True
  obtain p co1 where p: "probe_healthy co = (p, co1)" by (cases "probe_healthy co")
  note f = probe_frame [OF p]
  show ?thesis
  proof (cases "p = Inr True \<and> HA_RESUME_AFTER_PROBES \<le> Suc (co_probe_successes co1)")
    case resumed: True
    let ?co = "clear_cooldown (co1\<lparr>co_probe_successes := Suc (co_probe_successes co1)\<rparr>)"
    have "full_poll ?co = (r, co')"
      using assms(1) True p resumed by (simp add: poll_machine_def probe_good_def Let_def)
    then have "outcome_ok ?co r co'"
      using f assms(3) by (intro full_poll_outcome) (simp_all add: clear_cooldown_def)
    then show ?thesis using f by (simp add: outcome_ok_def clear_cooldown_def)
  next
    case False
    then show ?thesis
      using assms(1) True p f
      by (auto simp: poll_machine_def probe_good_def outcome_ok_def close_client_def enter_cooldown_def
          Let_def split: sum.splits bool.splits prod.splits if_splits)
  qed
qed

lemma update_outcome:
  assumes "polling_inv co" "async_update_data co = (r, co')"
  shows "\<not> co_push_enabled co' \<and> co_data co' = co_data co
    \<and> (co_cooldown_until co' \<noteq> None \<longrightarrow> 0 < co_cooldown_index co')
    \<and> (\<forall>s. r = Inr s \<longrightarrow> polled s \<and> co_cooldown_index co' = 0 \<and> co_failures co' \<le> FAILURE_TOLERANCE
          \<and> \<not> bridge_blocking co')"
proof -
  let ?co = "refresh_bridge_health co"
  have h: "co_push_enabled ?co = co_push_enabled co" "co_data ?co = co_data co"
    "co_cooldown_until ?co = co_cooldown_until co" "co_cooldown_index ?co = co_cooldown_index co"
    by (simp_all add: refresh_bridge_health_def split: option.split)
  have push: "\<not> co_push_enabled co" using assms(1) by (simp add: polling_inv_def)
  show ?thesis
  proof (cases "bridge_blocking ?co \<or> co_in_cooldown ?co")
    case True
    then have "r = Inl UpdateFailed \<and> co' = close_if_connected ?co"
      using assms(2) push by (auto simp: async_update_data_def h Let_def split: if_splits)
    then show ?thesis
      using assms(1) h by (auto simp: polling_inv_def close_if_connected_def close_client_def)
  next
    case False
    then have "poll_machine ?co = (r, co')" using assms(2) push by (simp add: async_update_data_def h Let_def)
    then have "outcome_ok ?co r co'"
      using assms(1) h by (intro poll_machine_outcome) (auto simp: polling_inv_def)
    then show ?thesis using False push h by (auto simp: outcome_ok_def bridge_blocking_def)
  qed
qed

section \<open>The invariant\<close>

lemma polling_inv_step:
  assumes "documented_outcome base" "polling_inv co"
  shows "polling_inv (polling_step base e co)"
proof (cases e)
  case Update
  obtain r co' where u: "async_update_data co = (r, co')" by (cases "async_update_data co")
  show ?thesis
    using update_outcome [OF assms(2) u] assms
    by (cases r) (auto simp: Update u polling_inv_def documented_outcome_def bridge_blocking_def)
next
  case (Set address data key)
  have "\<not> co_push_enabled co" using assms(2) by (simp add: polling_inv_def)
  then show ?thesis
    using assms(2) by (auto simp: Set async_write_def direct_write_def call_base_def polling_inv_def
        bridge_blocking_def split: prod.splits sum.splits)
next
  case End_cooldown
  then show ?thesis
    using assms(2) by (auto simp: async_end_cooldown_def clear_cooldown_def call_base_def polling_inv_def
        bridge_blocking_def)
next
  case (Elsewhere f)
  then show ?thesis using assms(2) by (simp add: polling_inv_def bridge_blocking_def)
qed

lemma polling_inv_history:
  "documented_outcome base \<Longrightarrow> polling_inv co \<Longrightarrow> polling_inv (fold (polling_step base) events co)"
  by (induction events arbitrary: co) (simp_all add: polling_inv_step)

section \<open>A machine that answers each read\<close>

definition calm :: "conn \<Rightarrow> bool" where
  "calm c \<longleftrightarrow> cn_link c = Link_open \<and> \<not> cn_eof c \<and> cn_gap c \<le> 0 \<and> 0 \<le> cn_max_retries c
     \<and> 1 / 100 < cn_request_timeout c"

definition calm_after :: "nat \<Rightarrow> conn \<Rightarrow> conn \<Rightarrow> bool" where
  "calm_after n c c' \<longleftrightarrow> calm c' \<and> cn_pos c' = cn_pos c + n \<and> cn_tape c' = cn_tape c"

lemma calm_exchange:
  assumes "calm c" "ascii frame" "expected_response_len frame = Inr (int (length raw))" "raw \<noteq> []" "ascii raw"
    and "cn_tape c (cn_pos c) = arrives []" "cn_tape c (cn_pos c + 1) = arrives []"
    and "cn_tape c (cn_pos c + 2) = arrives raw"
  shows "\<exists>c'. ha_exchange frame c = (ha_parse_frame True raw, c') \<and> calm_after 3 c c'"
proof -
  obtain n where n: "nat (cn_max_retries c + 1) = Suc n"
    using assms(1) by (metis Suc_nat_eq_nat_zadd1 add.commute calm_def)
  let ?c1 = "c\<lparr>cn_pos := cn_pos c + 1, cn_now := cn_now c + (1 / 100 + 1 / 20), cn_buf := []\<rparr>"
  have 1: "ha_drain c = (Inr (), ?c1)"
    using assms(1,6) by (simp add: ha_drain_def calm_def next_hp_def absorb_def arrives_def hp_dt_def)
  have "gap_passed ?c1" using assms(1) by (simp add: gap_passed_def calm_def)
  note p = pace_ready [OF this]
  let ?c2 = "(send frame ?c1)\<lparr>cn_pos := cn_pos c + 2, cn_now := cn_now (send frame ?c1) + 1 / 100\<rparr>"
  have 2: "drain (send frame ?c1) = (Inr (), ?c2)"
    using assms(1,7) by (subst drain_silent) (simp_all add: calm_def send_def silent_def arrives_def hp_dt_def)
  let ?c3 = "?c2\<lparr>cn_pos := cn_pos c + 3, cn_now := cn_now ?c2 + 1 / 100\<rparr>"
  have 3: "readexactly (cn_request_timeout c) (int (length raw)) ?c2 = (Inr raw, ?c3)"
    using assms(1,4,8)
    by (simp add: readexactly_def next_hp_def absorb_def hp_dt_def arrives_def calm_def send_def
        numeral_2_eq_2 numeral_3_eq_3 Let_def)
  have "ha_exchange frame c = (ha_parse_frame True raw, ?c3)"
    unfolding ha_exchange_def exchange_with_def
    using 1 p 2 3 n assms(1-3,5) by (simp add: calm_def send_def Let_def)
  moreover have "calm_after 3 c ?c3" using assms(1) by (simp add: calm_after_def calm_def send_def)
  ultimately show ?thesis by blast
qed

lemma calm_read:
  assumes "calm c" "is_addr a" "is_addr n" "length data = nat n" "list_all is_byte data"
    and "build_frame READ a n data = Inr reply"
    and "cn_tape c (cn_pos c) = arrives []" "cn_tape c (cn_pos c + 1) = arrives []"
    and "cn_tape c (cn_pos c + 2) = arrives reply"
  shows "\<exists>c'. ha_read a n c = (Inr data, c') \<and> calm_after 3 c c'"
proof -
  have rd: "READ \<in> {READ, WRITE}" by simp
  obtain frame where fr: "build_read a n = Inr frame" by (auto simp: build_read_def build_frame_Inr)
  then have bf: "build_frame READ a n [] = Inr frame" by (simp add: build_read_def)
  have af: "ascii frame" "ascii reply"
    using ascii_build_frame [OF rd _ _ bf] ascii_build_frame [OF rd _ _ assms(6)] assms(2,3)
    by (simp_all add: is_addr_def)
  have len: "int (length reply) = 11 + 2 * n"
    using assms(2-4,6) rd by (auto simp: build_frame_Inr READ_def is_addr_def)
  have "map (\<lambda>b. b AND 255) data = data" using assms(5) by (induction data) auto
  then obtain f where f: "parse_frame True reply = Inr f" "fr_data f = data"
    using parse_build_frame [OF rd assms(2,3,6), of True] by auto
  have "expected_response_len frame = Inr (int (length reply))"
    using expected_len_build_frame [OF rd assms(2,3) bf] len by simp
  moreover have "reply \<noteq> []" using len assms(3) by (auto simp: is_addr_def)
  moreover have "ha_parse_frame True reply = Inr f" using f(1) by (simp add: ha_parse_frame_Inr)
  ultimately obtain c' where "ha_exchange frame c = (Inr f, c')" "calm_after 3 c c'"
    using calm_exchange [OF assms(1) af(1) _ _ af(2) assms(7-9)] by auto
  then have "ha_request frame c = (Inr f, c')"
    using assms(1) by (simp add: ha_request_def connected_def calm_def numeral_3_eq_3)
  then show ?thesis using fr f(2) \<open>calm_after 3 c c'\<close> by (simp add: ha_read_def)
qed

text \<open>Every register holds ones.\<close>

definition ones_reply :: "int \<Rightarrow> int \<Rightarrow> string" where
  "ones_reply a n = (case build_frame READ a n (replicate (nat n) 1) of Inr r \<Rightarrow> r | Inl _ \<Rightarrow> [])"

fun answers :: "(int \<times> int) list \<Rightarrow> happening list" where
  "answers [] = []"
| "answers ((a, n) # regs) = arrives [] # arrives [] # arrives (ones_reply a n) # answers regs"

definition on_tape :: "happening list \<Rightarrow> conn \<Rightarrow> bool" where
  "on_tape hs c \<longleftrightarrow> (\<forall>i < length hs. cn_tape c (cn_pos c + i) = hs ! i)"

lemma on_tape_Cons: "on_tape (h # hs) c \<longleftrightarrow>
    cn_tape c (cn_pos c) = h \<and> (\<forall>i < length hs. cn_tape c (cn_pos c + 1 + i) = hs ! i)"
  by (simp add: on_tape_def All_less_Suc2)

lemma calm_read_ones:
  assumes "calm c" "is_addr a" "is_addr n" "on_tape (answers ((a, n) # regs)) c"
  shows "\<exists>c'. ha_read a n c = (Inr (replicate (nat n) 1), c') \<and> calm c' \<and> on_tape (answers regs) c'"
proof -
  obtain reply where r: "build_frame READ a n (replicate (nat n) 1) = Inr reply"
    by (auto simp: build_frame_Inr)
  have "cn_tape c (cn_pos c) = arrives []" "cn_tape c (cn_pos c + 1) = arrives []"
    "cn_tape c (cn_pos c + 2) = arrives reply"
    using assms(4) by (simp_all add: on_tape_def ones_reply_def r All_less_Suc2 numeral_2_eq_2)
  from calm_read [OF assms(1-3) _ _ r this] obtain c' where
    c': "ha_read a n c = (Inr (replicate (nat n) 1), c')" "calm_after 3 c c'"
    by (auto simp: is_byte_def list_all_iff)
  moreover have "on_tape (answers regs) c'"
    using assms(4) c'(2) by (simp add: on_tape_def calm_after_def All_less_Suc2 numeral_3_eq_3)
  ultimately show ?thesis by (auto simp: calm_after_def)
qed

lemma calm_registers:
  "calm c \<Longrightarrow> \<forall>(a, n) \<in> set regs. is_addr a \<and> is_addr n \<Longrightarrow> on_tape (answers regs) c \<Longrightarrow>
     \<exists>c'. read_registers regs c = (Inr (map (\<lambda>(a, n). (a, replicate (nat n) 1)) regs), c')"
proof (induction regs arbitrary: c)
  case (Cons r regs)
  obtain a n where r: "r = (a, n)" by (cases r)
  obtain c1 where 1: "ha_read a n c = (Inr (replicate (nat n) 1), c1)" "calm c1" "on_tape (answers regs) c1"
    using calm_read_ones [of c a n regs] Cons.prems by (auto simp: r)
  obtain c2 where "read_registers regs c1 = (Inr (map (\<lambda>(a, n). (a, replicate (nat n) 1)) regs), c2)"
    using Cons.IH [OF 1(2) _ 1(3)] Cons.prems(2) by auto
  then show ?case by (simp add: r 1)
qed simp

definition answering_conn :: conn where
  "answering_conn = (ha_new_conn (demo_tape (answers ((SETTINGS_BASE, SETTINGS_LEN) # LIVE_REGISTERS))) 10)
     \<lparr>cn_link := Link_open, cn_gap := 0\<rparr>"

lemma answering_poll: "\<exists>s c. read_snapshot answering_conn = (Inr s, c)"
proof -
  have c: "calm answering_conn"
    by (simp add: answering_conn_def calm_def ha_new_conn_def new_conn_def)
  have t: "on_tape (answers ((SETTINGS_BASE, SETTINGS_LEN) # LIVE_REGISTERS)) answering_conn"
    by (simp add: on_tape_def answering_conn_def demo_tape_def ha_new_conn_def new_conn_def)
  have "is_addr SETTINGS_BASE" "is_addr SETTINGS_LEN"
    by (simp_all add: is_addr_def SETTINGS_BASE_def SETTINGS_LEN_def)
  from calm_read_ones [OF c this t] obtain c1 where
    1: "ha_read SETTINGS_BASE SETTINGS_LEN answering_conn = (Inr (replicate (nat SETTINGS_LEN) 1), c1)"
    "calm c1" "on_tape (answers LIVE_REGISTERS) c1" by blast
  have "\<forall>(a, n) \<in> set LIVE_REGISTERS. is_addr a \<and> is_addr n"
    by (auto simp: LIVE_REGISTERS_def is_addr_def address_defs)
  from calm_registers [OF 1(2) this 1(3)] show ?thesis using 1(1) by (auto simp: read_snapshot_def)
qed

section \<open>Properties\<close>

text \<open>C21: Polling never shows a machine that is being left alone. In every history of the
  coordinator without a bridge's stream, once there is data: while a cooldown runs or
  ends with probes, and while the bridge's report blocks polling, no machine entity is
  available; when they are, the coordinator's failure counter is at most five and what
  they show was read whole; and the Connection sensor says connected exactly when they
  are available. The counter starts again not only with a good poll but also with End
  Cooldown and with the second good probe: see \<open>end_cooldown_serves_stale\<close>.\<close>

theorem polling_history_safe:
  assumes "documented_outcome base"
    and "co = fold (polling_step base) events (new_coordinator client utc url fetcher False)"
    and "co_data co = Some s"
  shows "(co_in_cooldown co \<or> 0 < co_cooldown_index co \<or> bridge_blocking co \<longrightarrow> \<not> entity_available co)
    \<and> (entity_available co \<longrightarrow> co_failures co \<le> FAILURE_TOLERANCE
         \<and> map fst (hs_live s) = map fst LIVE_REGISTERS)
    \<and> (connection_state co = STATE_CONNECTED \<longleftrightarrow> entity_available co)"
proof -
  have "polling_inv co"
    unfolding assms(2)
    by (rule polling_inv_history [OF assms(1)]) (simp add: polling_inv_def new_coordinator_def)
  then show ?thesis
    using assms(3)
    by (auto simp: polling_inv_def polled_def entity_available_def co_in_cooldown_def connection_state_def
        STATE_CONNECTED_def STATE_COOLDOWN_def STATE_RECONNECTING_def STATE_BRIDGE_DOWN_def
        STATE_BRIDGE_RECOVERING_def STATE_MACHINE_UNAVAILABLE_def split: option.splits)
qed

text \<open>One good poll.\<close>

theorem polling_history_safe_witness:
  "\<exists>base co s. co = fold (polling_step base) [Elsewhere id, Update]
       (new_coordinator answering_conn (\<lambda>t. t) None None False)
     \<and> co_data co = Some s \<and> entity_available co \<and> connection_state co = STATE_CONNECTED"
proof -
  define base :: "ha_snapshot res \<Rightarrow> coordinator \<Rightarrow> coordinator" where
    "base = (\<lambda>r co. case r of Inr s \<Rightarrow> co\<lparr>co_data := Some s, co_last_update_success := True\<rparr>
       | Inl _ \<Rightarrow> co\<lparr>co_last_update_success := False\<rparr>)"
  have d: "documented_outcome base" by (simp add: documented_outcome_def base_def)
  obtain s c where p: "read_snapshot answering_conn = (Inr s, c)" using answering_poll by blast
  let ?co0 = "new_coordinator answering_conn (\<lambda>t. t) None None False"
  define co where "co = fold (polling_step base) [Elsewhere id, Update] ?co0"
  have "co = ?co0\<lparr>co_client := c, co_data := Some s\<rparr>"
    using p by (simp add: co_def base_def async_update_data_def new_coordinator_def refresh_bridge_health_def
        bridge_health_enabled_def bridge_blocking_def co_in_cooldown_def poll_machine_def full_poll_def
        clear_cooldown_def Let_def)
  then have s: "co_data co = Some s" "co_last_update_success co" by (simp_all add: new_coordinator_def)
  have "hs_available s" using read_snapshot_polled [OF p] by (simp add: polled_def)
  then have "entity_available co" using s by (simp add: entity_available_def)
  then show ?thesis using polling_history_safe [OF d co_def s(1)] co_def s(1) by blast
qed

end
