(* ===== verification/HaClock.thy ===== *)
theory HaClock
  imports HaSetup HaPolling
begin

text \<open>
  The clock sync of the integration, \<open>custom_components/rocket_r60v/clock.py\<close>: one push of
  the local time when an entry is set up and one at 03:07 every day, each a task of its own
  that writes to the machine through the coordinator's client, beside the updates, the push
  stream and the commands of the same entry.
\<close>

section \<open>The schedule\<close>

definition SYNC_HOUR :: int where "SYNC_HOUR = 3"
definition SYNC_MINUTE :: int where "SYNC_MINUTE = 7"

text \<open>The subscription of the daily callback, and the tasks that have been created and not
  begun. The local clock strikes \<open>now\<close> and a second.\<close>

record clock_sync =
  cs_subscribed :: bool
  cs_tasks :: nat

definition setup_clock_sync :: clock_sync where
  "setup_clock_sync = \<lparr>cs_subscribed = True, cs_tasks = 1\<rparr>"

definition clock_strikes :: "datetime \<Rightarrow> int \<Rightarrow> clock_sync \<Rightarrow> clock_sync" where
  "clock_strikes now second cs =
     (if cs_subscribed cs \<and> dt_hour now = SYNC_HOUR \<and> dt_minute now = SYNC_MINUTE \<and> second = 0
      then cs\<lparr>cs_tasks := cs_tasks cs + 1\<rparr> else cs)"

definition run_push :: "datetime \<Rightarrow> clock_sync \<times> coordinator \<Rightarrow> unit res \<times> clock_sync \<times> coordinator" where
  "run_push now s =
     (case s of (cs, co) \<Rightarrow>
        if cs_tasks cs = 0 then (Inr (), cs, co)
        else
          (case push_clock now (co_client co) of
             (r, c) \<Rightarrow> (map_sum id (\<lambda>_. ()) r, cs\<lparr>cs_tasks := cs_tasks cs - 1\<rparr>, co\<lparr>co_client := c\<rparr>)))"

text \<open>An entry's clock sync, and its end when the entry is unloaded.\<close>

definition entry_clock :: "runtime_data \<Rightarrow> clock_sync" where
  "entry_clock rt = (if rt_clock rt then setup_clock_sync else \<lparr>cs_subscribed = False, cs_tasks = 0\<rparr>)"

definition unsub_clock :: "clock_sync \<Rightarrow> clock_sync" where
  "unsub_clock cs = cs\<lparr>cs_subscribed := False\<rparr>"

text \<open>As many tasks as times that the local clock strikes 03:07:00.\<close>

lemma strikes_tasks:
  "cs_tasks (fold (\<lambda>(now, s). clock_strikes now s) ts cs) = cs_tasks cs
     + (if cs_subscribed cs
        then length (filter (\<lambda>(now, s). dt_hour now = SYNC_HOUR \<and> dt_minute now = SYNC_MINUTE \<and> s = 0) ts)
        else 0)
   \<and> cs_subscribed (fold (\<lambda>(now, s). clock_strikes now s) ts cs) = cs_subscribed cs"
proof (induction ts arbitrary: cs)
  case (Cons t ts)
  obtain now s where t: "t = (now, s)" by (cases t)
  show ?case using Cons [of "clock_strikes now s cs"] by (simp add: t clock_strikes_def)
qed simp

text \<open>Unloading ends the schedule; a task that has been created is not cancelled, and writes
  to the machine when it begins, over the client that the unloading closed.\<close>

lemma unloaded_clock:
  "cs_tasks (fold (\<lambda>(now, s). clock_strikes now s) ts (unsub_clock cs)) = cs_tasks cs"
  using strikes_tasks [of ts "unsub_clock cs"] by (simp add: unsub_clock_def)

section \<open>A request that succeeds has knocked\<close>

definition log_since :: "action list \<Rightarrow> conn \<Rightarrow> bool" where
  "log_since L c \<longleftrightarrow> length L \<le> length (cn_log c) \<and> take (length L) (cn_log c) = L"

definition sent_since :: "action list \<Rightarrow> string \<Rightarrow> conn \<Rightarrow> bool" where
  "sent_since L frame c \<longleftrightarrow> log_since L c \<and> (\<exists>t. Sent t frame \<in> set (drop (length L) (cn_log c)))"

lemma since_simps [simp]:
  "log_since (cn_log c) c" "log_since L c \<Longrightarrow> sent_since L frame (send frame c)"
  by (auto simp: log_since_def sent_since_def)

lemma sent_since_new:
  "sent_since (cn_log c) frame c' \<Longrightarrow> \<exists>new t. cn_log c' = cn_log c @ new \<and> Sent t frame \<in> set new"
  unfolding sent_since_def log_since_def by (metis append_take_drop_id)

interpretation growth: conn_invariant "\<lambda>c. timeouts_ok c \<and> log_since L c" for L
  by unfold_locales
    (auto simp: timeouts_ok_def log_since_def send_def drop_link_def absorb_def Let_def)

interpretation knock: conn_invariant "\<lambda>c. timeouts_ok c \<and> sent_since L frame c" for L frame
  by unfold_locales
    (auto simp: timeouts_ok_def sent_since_def log_since_def send_def drop_link_def absorb_def Let_def)

lemma tries_sent:
  assumes "tries parse ha_drain want n frame c = (Inr f, c')" "timeouts_ok c" "log_since L c"
  shows "timeouts_ok c' \<and> sent_since L frame c'"
proof (cases n)
  case (Suc m)
  obtain r0 c0 where p: "ha_drain c = (r0, c0)" by (cases "ha_drain c")
  have 0: "timeouts_ok c0 \<and> log_since L c0" using growth.ha_drain_inv [of c L] assms(2,3) by (simp add: p)
  let ?c1 = "send frame (pace c0)"
  have "timeouts_ok (pace c0) \<and> log_since L (pace c0)" using 0 by (rule growth.pace_inv)
  moreover have "timeouts_ok (send frame c)" if "timeouts_ok c" for c
    using that by (simp add: timeouts_ok_def send_def)
  ultimately have 1: "timeouts_ok ?c1 \<and> sent_since L frame ?c1" by simp
  obtain r2 c2 where d: "drain ?c1 = (r2, c2)" by (cases "drain ?c1")
  have 2: "timeouts_ok c2 \<and> sent_since L frame c2" using knock.drain_inv [OF 1] by (simp add: d)
  obtain r3 c3 where r: "readexactly (cn_request_timeout c2) want c2 = (r3, c3)"
    by (cases "readexactly (cn_request_timeout c2) want c2")
  have 3: "timeouts_ok c3 \<and> sent_since L frame c3"
    using knock.readexactly_inv [OF 2, of "cn_request_timeout c2" want] 2 r by (simp add: timeouts_ok_def)
  have 4: "timeouts_ok (snd (tries parse ha_drain want m frame c3))
      \<and> sent_since L frame (snd (tries parse ha_drain want m frame c3))"
    by (rule knock.tries_inv [OF _ 3]) (rule knock.ha_drain_inv)
  show ?thesis
    using assms(1) 2 3 4 by (auto simp: Suc p d r Let_def split: sum.splits if_splits)
qed (use assms(1) in simp)

lemma ha_exchange_sent:
  "ha_exchange frame c = (Inr f, c') \<Longrightarrow> timeouts_ok c \<Longrightarrow> log_since L c \<Longrightarrow>
     timeouts_ok c' \<and> sent_since L frame c'"
  unfolding ha_exchange_def exchange_with_def by (auto split: if_splits sum.splits dest: tries_sent)

lemma ha_attempts_success:
  assumes "sendable frame"
  shows "ha_attempts n frame c = (Inr f, c') \<Longrightarrow> alone c \<Longrightarrow> timeouts_ok c \<Longrightarrow> log_since L c \<Longrightarrow>
     up c' \<and> sent_since L frame c'"
proof (induction n arbitrary: c)
  case (Suc n)
  obtain r1 c1 where o: "(if connected c then (Inr (), c) else ha_connect c) = (r1, c1)"
    by (cases "if connected c then (Inr (), c) else ha_connect c")
  have 1: "alone c1" "r1 = Inr () \<Longrightarrow> up c1"
    using alone_ha_connect [of c r1 c1] o Suc.prems(2)
    by (auto simp: connected_def up_def split: if_splits)
  have 11: "timeouts_ok c1 \<and> log_since L c1"
    using growth.ha_connect_inv [of c L] o Suc.prems(3,4) by (auto split: if_splits)
  have again: ?case if "ha_attempts n frame (drop_link c2) = (Inr f, c')" "alone c2" "timeouts_ok c2 \<and> log_since L c2" for c2
    using Suc.IH [OF that(1)] that(2) growth.I_drop [OF that(3)] by simp
  show ?case
  proof (cases r1)
    case (Inl x)
    then show ?thesis
      using Suc.prems(1) o 1 11 again [of c1] by (cases "x \<in> link_errors") auto
  next
    case (Inr u)
    obtain r2 c2 where x: "ha_exchange frame c1 = (r2, c2)" by (cases "ha_exchange frame c1")
    have 2: "up c2" using up_ha_exchange [OF x _ assms] 1(2) Inr by simp
    have 22: "timeouts_ok c2 \<and> log_since L c2" using growth.ha_exchange_inv [OF 11, of frame] by (simp add: x)
    show ?thesis
      using Suc.prems(1) o Inr x 2 22 again [of c2] ha_exchange_sent [OF _ conjunct1 [OF 11] conjunct2 [OF 11], of frame]
      by (cases r2) (auto simp: up_def split: if_splits)
  qed
qed simp

text \<open>The write of a clock push, and what a push that succeeded has done.\<close>

lemma push_clock_success:
  assumes "push_clock now c = (Inr True, c')" "alone c" "timeouts_ok c"
  shows "up c' \<and> (\<exists>frame new t. build_write DATE_TIME (build_clock_payload now) = Inr frame
    \<and> cn_log c' = cn_log c @ new \<and> Sent t frame \<in> set new)"
proof -
  let ?d = "build_clock_payload now"
  obtain f where w: "ha_write DATE_TIME ?d c = (Inr f, c')"
    using assms(1) by (auto simp: push_clock_def split: prod.splits sum.splits if_splits)
  then obtain frame where b: "ha_build_write DATE_TIME ?d = Inr frame" "ha_request frame c = (Inr f, c')"
    by (auto simp: ha_write_def split: sum.splits)
  have bw: "build_write DATE_TIME ?d = Inr frame" using b(1) by simp
  have "sendable frame"
    by (rule sendable_build_frame [of WRITE DATE_TIME "int (length ?d)" ?d])
      (use bw in \<open>auto simp: build_write_def is_addr_def DATE_TIME_def build_clock_payload_def\<close>)
  from ha_attempts_success [OF this _ assms(2,3), of 3 f c' "cn_log c"] b(2) sent_since_new
  show ?thesis unfolding bw by (auto simp: ha_request_def)
qed

section \<open>Beside the push stream\<close>

text \<open>What else happens to the coordinator of an entry in push mode: a scheduled or requested
  update, the messages of the stream, the timer of the health report, and a command while
  the channel is open and sends.\<close>

datatype push_event =
    Push_update
  | Stream "json option list"
  | Health_timer
  | Push_command int "int list" "string option"

fun push_step :: "push_event \<Rightarrow> coordinator \<Rightarrow> coordinator" where
  "push_step Push_update co = snd (async_update_data co)"
| "push_step (Stream ms) co = snd (handle_messages ms co)"
| "push_step Health_timer co = async_refresh_bridge_health co"
| "push_step (Push_command address data key) co = snd (async_write address data key co)"

definition channel_sends :: "coordinator \<Rightarrow> bool" where
  "channel_sends co \<longleftrightarrow>
     (case co_channel co of None \<Rightarrow> False | Some ch \<Rightarrow> ch_open ch \<and> (\<forall>n. ch_outcome ch n = Inr ()))"

definition held :: "coordinator \<Rightarrow> bool" where
  "held co \<longleftrightarrow> co_push_enabled co \<and> channel_sends co \<and> up (co_client co)"

lemma up_idle: "up c \<Longrightarrow> up (idle c)"
  by (simp add: idle_def next_hp_def up_absorb Let_def)

lemma held_refresh: "held co \<Longrightarrow> held (refresh_bridge_health co)"
  by (auto simp: refresh_bridge_health_def held_def channel_sends_def up_idle split: option.split)

lemma held_messages: "held co \<Longrightarrow> held (snd (handle_messages ms co))"
  by (induction ms arbitrary: co)
    (auto simp: held_def channel_sends_def call_base_def split: handled.split)

lemma held_step: "held co \<Longrightarrow> held (push_step e co)"
proof (cases e)
  case Push_update
  assume "held co"
  then show ?thesis
    using held_refresh [of co] by (simp add: Push_update async_update_data_def held_def Let_def)
next
  case Health_timer
  assume "held co"
  from held_refresh [OF this] show ?thesis
    by (simp add: Health_timer async_refresh_bridge_health_def call_base_def held_def channel_sends_def)
next
  case (Push_command address data key)
  assume "held co"
  then show ?thesis
    by (auto simp: Push_command held_def channel_sends_def async_write_def send_command_def split: option.splits)
qed (simp add: held_messages)

lemma held_history: "held co \<Longrightarrow> held (fold push_step events co)"
  by (induction events arbitrary: co) (simp_all add: held_step)

section \<open>Properties\<close>

text \<open>C23: The clock sync goes past everything that protects the machine. Whatever the
  coordinator's state, a cooldown included, when no other task closes the link, no timeout
  is negative and the machine takes the block, the task that an entry's set-up creates writes to it over the
  integration's own connection, and leaves that open with the coordinator otherwise as it
  was; and in push mode, where state and commands go over the bridge's stream, as long as
  the command channel stays open and sends, no update, no message of the stream, no timer
  and no command ever closes it again. With the channel down a command falls back to
  this same client, and its failure would drop the link.\<close>

theorem clock_sync_bypasses_protection:
  assumes "alone (co_client co)" "timeouts_ok (co_client co)"
    and "push_clock now (co_client co) = (Inr True, c)"
  shows "\<exists>cs co'. run_push now (setup_clock_sync, co) = (Inr (), cs, co')
    \<and> co' = co\<lparr>co_client := c\<rparr> \<and> cn_link c \<noteq> No_link
    \<and> (\<exists>frame new t. build_write DATE_TIME (build_clock_payload now) = Inr frame
         \<and> cn_log c = cn_log (co_client co) @ new \<and> Sent t frame \<in> set new)
    \<and> (co_push_enabled co \<and> channel_sends co \<longrightarrow>
         (\<forall>events. cn_link (co_client (fold push_step events co')) \<noteq> No_link))"
proof -
  note s = push_clock_success [OF assms(3,1,2)]
  let ?co = "co\<lparr>co_client := c\<rparr>"
  have "cn_link (co_client (fold push_step events ?co)) \<noteq> No_link" if "co_push_enabled co" "channel_sends co" for events
  proof -
    have "held ?co" using s that by (simp add: held_def channel_sends_def)
    from held_history [OF this, of events] show ?thesis by (simp add: held_def up_def)
  qed
  then show ?thesis using s assms(3) by (simp add: run_push_def setup_clock_sync_def up_def)
qed

text \<open>A machine that greets, does not answer the warm-up, and acknowledges the clock, beside an
  open channel and in a cooldown.\<close>

definition noon :: datetime where
  "noon = \<lparr>dt_year = 2024, dt_month = 2, dt_day = 29, dt_weekday = 3, dt_hour = 12, dt_minute = 0\<rparr>"

definition waking_conn :: conn where
  "waking_conn = ha_new_conn
     (\<lambda>p. if p = 1 then arrives ''*HELLO*'' else if p = 16 then arrives ''wA0000007OKA9'' else arrives []) 10"

definition resting :: coordinator where
  "resting = enter_cooldown 10 ((new_coordinator waking_conn (\<lambda>t. t) None None True)
     \<lparr>co_channel := Some \<lparr>ch_open = True, ch_outcome = (\<lambda>_. Inr ()), ch_sent = []\<rparr>\<rparr>)"

lemma resting_frame:
  "co_client resting = waking_conn" "co_push_enabled resting" "channel_sends resting"
  "co_in_cooldown resting" "alone waking_conn" "timeouts_ok waking_conn"
  by (simp_all add: resting_def enter_cooldown_def new_coordinator_def channel_sends_def co_in_cooldown_def
      utcnow_def waking_conn_def ha_new_conn_def new_conn_def alone_def timeouts_ok_def arrives_def
      HA_COOLDOWN_STEPS_def)

theorem clock_sync_bypasses_protection_witness:
  "\<exists>cs co' frame new t. run_push noon (setup_clock_sync, resting) = (Inr (), cs, co')
     \<and> cn_log (co_client co') = cn_log (co_client resting) @ new \<and> Sent t frame \<in> set new
     \<and> cn_link (co_client (fold push_step [Push_update, Stream [None], Push_command 74 [0] None] co')) \<noteq> No_link"
proof -
  have "fst (push_clock noon waking_conn) = Inr True" by code_simp
  then have p: "push_clock noon (co_client resting) = (Inr True, snd (push_clock noon waking_conn))"
    by (simp add: resting_frame prod_eq_iff)
  have "alone (co_client resting)" "timeouts_ok (co_client resting)" by (simp_all add: resting_frame)
  from clock_sync_bypasses_protection [OF this p] resting_frame(2,3) show ?thesis by fastforce
qed

end
