(* ===== verification/HaRecovery.thy ===== *)
theory HaRecovery
  imports HaCoordinator
begin

text \<open>
  What the coordinator promises in polling mode: when it leaves the machine alone, how
  an outage becomes a cooldown, and that its recovery is the bridge's: the coordinator
  interprets the two recovery locales of \<open>Wedge\<close>, and a simulation relates the two
  controllers step by step.
\<close>

section \<open>Leaving the machine alone\<close>

text \<open>Nothing was sent and no connection opened; the link may have been closed.\<close>

definition left_alone :: "conn \<Rightarrow> conn \<Rightarrow> bool" where
  "left_alone c c' \<longleftrightarrow> (\<exists>new. cn_log c' = cn_log c @ new \<and> set new \<subseteq> {Closed})"

lemma left_alone_refl [simp]: "left_alone c c"
  by (simp add: left_alone_def)

lemma left_alone_trans: "left_alone c c1 \<Longrightarrow> left_alone c1 c2 \<Longrightarrow> left_alone c c2"
  unfolding left_alone_def by (metis append.assoc set_append Un_least)

lemma left_alone_drop: "left_alone c (drop_link c)"
  by (auto simp: left_alone_def drop_link_def)

lemma left_alone_idle: "left_alone c (idle c)"
  by (auto simp: left_alone_def idle_def next_hp_def absorb_def drop_link_def Let_def)

definition same_counters :: "coordinator \<Rightarrow> coordinator \<Rightarrow> bool" where
  "same_counters co co' \<longleftrightarrow>
     co_failures co' = co_failures co \<and> co_cooldown_until co' = co_cooldown_until co
     \<and> co_cooldown_index co' = co_cooldown_index co
     \<and> co_probe_successes co' = co_probe_successes co \<and> co_data co' = co_data co
     \<and> co_calls co' = co_calls co"

lemma refresh_frame [simp]:
  "co_push_enabled (refresh_bridge_health co) = co_push_enabled co"
  "co_data (refresh_bridge_health co) = co_data co"
  "co_utc (refresh_bridge_health co) = co_utc co"
  "same_counters co (refresh_bridge_health co)"
  "left_alone (co_client co) (co_client (refresh_bridge_health co))"
  by (auto simp: refresh_bridge_health_def same_counters_def left_alone_idle split: option.split)

lemma close_if_connected_frame [simp]:
  "same_counters co (close_if_connected co') = same_counters co co'"
  "\<not> connected (co_client (close_if_connected co'))"
  "left_alone (co_client co') (co_client (close_if_connected co'))"
  by (auto simp: close_if_connected_def close_client_def client_close_def same_counters_def
      connected_def left_alone_drop)

section \<open>The recovery locales\<close>

definition rests_at :: "time \<Rightarrow> coordinator \<Rightarrow> bool" where
  "rests_at t co = (case co_cooldown_until co of None \<Rightarrow> False | Some u \<Rightarrow> t < u)"

interpretation mirror: backoff_recovery
  HA_RESUME_AFTER_PROBES "\<lambda>co. co_cooldown_index co = 0" co_probe_successes
  "\<lambda>t co. snd (probe_good co)" enter_cooldown "\<lambda>co. True" co_cooldown_index rests_at
  HA_COOLDOWN_STEPS
proof
qed (auto simp: HA_RESUME_AFTER_PROBES_def probe_good_def clear_cooldown_def enter_cooldown_def
    rests_at_def schedule_def Let_def)

lemma ha_steps: "HA_COOLDOWN_STEPS = COOLDOWN_STEPS" "int HA_RESUME_AFTER_PROBES = RESUME_AFTER_PROBES"
  by (simp_all add: HA_COOLDOWN_STEPS_def COOLDOWN_STEPS_def HA_RESUME_AFTER_PROBES_def
      RESUME_AFTER_PROBES_def)

text \<open>One due probe of each controller; nothing is sent while it rests or is back in service.\<close>

definition ha_recovery_step :: "time \<times> bool \<Rightarrow> coordinator \<Rightarrow> coordinator" where
  "ha_recovery_step p co =
     (if co_cooldown_index co = 0 \<or> rests_at (fst p) co then co
      else if snd p then snd (probe_good co) else enter_cooldown (fst p) co)"

definition bridge_recovery_step :: "time \<times> bool \<Rightarrow> wedge \<Rightarrow> wedge" where
  "bridge_recovery_step p w =
     (if wd_cooldown_until w = None \<or> in_cooldown (fst p) w then w
      else if snd p then fst (record_probe_success (fst p) w) else fst (begin_cooldown (fst p) w))"

definition same_recovery :: "time \<Rightarrow> coordinator \<Rightarrow> wedge \<Rightarrow> bool" where
  "same_recovery t co w \<longleftrightarrow>
     wedge_ok w \<and> co_cooldown_index co = wd_cooldown_index w
     \<and> co_probe_successes co = wd_probe_successes w
     \<and> (co_cooldown_index co = 0 \<longleftrightarrow> wd_cooldown_until w = None)
     \<and> (\<forall>t' \<ge> t. rests_at t' co \<longleftrightarrow> in_cooldown t' w)"

lemma same_recovery_start:
  assumes "wedge_ok w" "co_cooldown_index co = wd_cooldown_index w"
  shows "same_recovery t (enter_cooldown t co) (fst (begin_cooldown t w))"
  using assms
  by (auto simp: same_recovery_def enter_cooldown_def begin_cooldown_def rests_at_def in_cooldown_def
      ha_steps wedge_ok_def Let_def)

lemma same_recovery_step:
  assumes "same_recovery t co w" "t \<le> fst p"
  shows "same_recovery (fst p) (ha_recovery_step p co) (bridge_recovery_step p w)"
proof -
  have w: "wedge_ok w" using assms(1) by (simp add: same_recovery_def)
  have later: "same_recovery (fst p) co w" using assms by (auto simp: same_recovery_def)
  have gate: "co_cooldown_index co = 0 \<or> rests_at (fst p) co
      \<longleftrightarrow> wd_cooldown_until w = None \<or> in_cooldown (fst p) w"
    using assms by (auto simp: same_recovery_def)
  show ?thesis
  proof (cases "co_cooldown_index co = 0 \<or> rests_at (fst p) co")
    case True
    then show ?thesis using later gate by (simp add: ha_recovery_step_def bridge_recovery_step_def)
  next
    case False
    then have f: "\<not> (wd_cooldown_until w = None \<or> in_cooldown (fst p) w)" using gate by simp
    show ?thesis
    proof (cases "snd p")
      case False
      then show ?thesis
        using \<open>\<not> (co_cooldown_index co = 0 \<or> rests_at (fst p) co)\<close> f later
          same_recovery_start [OF w, of co "fst p"]
        by (auto simp: ha_recovery_step_def bridge_recovery_step_def same_recovery_def [of _ co])
    next
      case True
      have "same_recovery (fst p) (snd (probe_good co)) (fst (record_probe_success (fst p) w))"
        using later False f w
        by (auto simp: same_recovery_def probe_good_def record_probe_success_def record_success_def
            clear_cooldown_def rests_at_def in_cooldown_def wedge_ok_def HA_RESUME_AFTER_PROBES_def
            RESUME_AFTER_PROBES_def Let_def split: option.splits)
      then show ?thesis
        using True \<open>\<not> (co_cooldown_index co = 0 \<or> rests_at (fst p) co)\<close> f
        by (auto simp: ha_recovery_step_def bridge_recovery_step_def)
    qed
  qed
qed

lemma same_recovery_run:
  "same_recovery t co w \<Longrightarrow> sorted (t # map fst ps) \<Longrightarrow>
     same_recovery (last (t # map fst ps)) (fold ha_recovery_step ps co) (fold bridge_recovery_step ps w)"
proof (induction ps arbitrary: t co w)
  case (Cons p ps)
  have "same_recovery (fst p) (ha_recovery_step p co) (bridge_recovery_step p w)"
    using same_recovery_step [OF Cons.prems(1)] Cons.prems(2) by simp
  then show ?case using Cons.IH Cons.prems(2) by simp
qed simp

text \<open>The update of a coordinator that is recovering is that step, at the time and with
  the outcome of its own probe.\<close>

lemma update_is_recovery_step:
  assumes "\<not> co_push_enabled co" "\<not> bridge_blocking (refresh_bridge_health co)"
    and "\<not> co_in_cooldown (refresh_bridge_health co)" "0 < co_cooldown_index co"
    and "probe_healthy (refresh_bridge_health co) = (Inr False, co1)"
  shows "async_update_data co
    = (Inl UpdateFailed, enter_cooldown (utcnow (close_client co1)) (close_client co1))"
proof -
  have "0 < co_cooldown_index (refresh_bridge_health co)"
    using assms(4) refresh_frame(4) [of co] by (simp add: same_counters_def)
  then show ?thesis
    using assms by (simp add: async_update_data_def poll_machine_def Let_def)
qed

section \<open>An outage\<close>

definition polls_normally :: "coordinator \<Rightarrow> bool" where
  "polls_normally co \<longleftrightarrow>
     \<not> co_push_enabled co \<and> co_health_url co = None \<and> co_bridge co = None
     \<and> co_cooldown_index co = 0 \<and> co_cooldown_until co = None"

fun poll_run :: "nat \<Rightarrow> coordinator \<Rightarrow> ha_snapshot res list \<times> coordinator" where
  "poll_run 0 co = ([], co)"
| "poll_run (Suc n) co =
     (case poll_run n co of
        (rs, co) \<Rightarrow> (case async_update_data co of (r, co) \<Rightarrow> (rs @ [r], co)))"

definition poll_fails :: "coordinator \<Rightarrow> bool" where
  "poll_fails co \<longleftrightarrow> (\<exists>e \<in> poll_errors. fst (read_snapshot (co_client co)) = Inl e)"

lemma normal_update:
  assumes "polls_normally co"
  shows "async_update_data co = full_poll co"
proof -
  have "refresh_bridge_health co = co"
    using assms by (simp add: refresh_bridge_health_def bridge_health_enabled_def polls_normally_def)
  then show ?thesis
    using assms by (simp add: async_update_data_def poll_machine_def polls_normally_def
        bridge_blocking_def co_in_cooldown_def)
qed

lemma tolerated_poll:
  assumes "polls_normally co" "co_data co = Some s" "poll_fails co"
    and "co_failures co < FAILURE_TOLERANCE"
  shows "\<exists>co'. async_update_data co = (Inr s, co') \<and> polls_normally co' \<and> co_data co' = Some s
    \<and> co_failures co' = Suc (co_failures co) \<and> co_utc co' = co_utc co"
proof -
  obtain e c where e: "read_snapshot (co_client co) = (Inl e, c)" "e \<in> poll_errors"
    using assms(3) by (cases "read_snapshot (co_client co)") (auto simp: poll_fails_def)
  then show ?thesis
    unfolding normal_update [OF assms(1)]
    using assms(1,2,4) by (simp add: full_poll_def polls_normally_def)
qed

lemma last_straw:
  assumes "polls_normally co" "co_data co = Some s" "poll_fails co"
    and "FAILURE_TOLERANCE \<le> co_failures co"
  shows "\<exists>co'. async_update_data co = (Inl UpdateFailed, co') \<and> co_cooldown_index co' = 1
    \<and> co_cooldown_until co' = Some (utcnow co' + 300) \<and> \<not> connected (co_client co')
    \<and> co_data co' = Some s"
proof -
  obtain e c where e: "read_snapshot (co_client co) = (Inl e, c)" "e \<in> poll_errors"
    using assms(3) by (cases "read_snapshot (co_client co)") (auto simp: poll_fails_def)
  then show ?thesis
    unfolding normal_update [OF assms(1)]
    using assms(1,2,4)
    by (simp add: full_poll_def polls_normally_def enter_cooldown_def close_client_def client_close_def
        connected_def utcnow_def HA_COOLDOWN_STEPS_def)
qed

lemma tolerated_run:
  assumes "polls_normally co" "co_data co = Some s" "co_failures co = 0"
    and "\<forall>i < n. poll_fails (snd (poll_run i co))" "n \<le> FAILURE_TOLERANCE"
  shows "fst (poll_run n co) = replicate n (Inr s) \<and> polls_normally (snd (poll_run n co))
    \<and> co_data (snd (poll_run n co)) = Some s \<and> co_failures (snd (poll_run n co)) = n"
  using assms(4,5)
proof (induction n)
  case (Suc n)
  then have IH: "fst (poll_run n co) = replicate n (Inr s)" "polls_normally (snd (poll_run n co))"
    "co_data (snd (poll_run n co)) = Some s" "co_failures (snd (poll_run n co)) = n"
    by auto
  have "poll_fails (snd (poll_run n co))" "co_failures (snd (poll_run n co)) < FAILURE_TOLERANCE"
    using Suc.prems IH(4) by auto
  from tolerated_poll [OF IH(2,3) this] IH(1,4) show ?case
    by (auto split: prod.splits simp: replicate_append_same)
qed (use assms in auto)

text \<open>The failure counter is not the age of the snapshot. End Cooldown resets it, as does the
  second good probe, and the next failed poll is then the first of a tolerance of five: it
  returns the snapshot of before the outage as a success.\<close>

lemma end_cooldown_serves_stale:
  assumes "\<not> co_push_enabled co" "co_health_url co = None" "co_bridge co = None"
    and "co_data co = Some s" "poll_fails co"
  shows "\<exists>co'. async_update_data (async_end_cooldown co) = (Inr s, co')"
proof -
  have "polls_normally (async_end_cooldown co)" "poll_fails (async_end_cooldown co)"
    "co_data (async_end_cooldown co) = Some s" "co_failures (async_end_cooldown co) < FAILURE_TOLERANCE"
    using assms by (simp_all add: polls_normally_def poll_fails_def async_end_cooldown_def
        clear_cooldown_def call_base_def FAILURE_TOLERANCE_def)
  then show ?thesis using tolerated_poll [of "async_end_cooldown co" s] by blast
qed

lemma recovery_serves_stale:
  assumes "0 < co_cooldown_index co" "probe_healthy co = (Inr True, co1)" "probe_good co1 = (True, co2)"
    and "co_data co = Some s" "poll_fails co1"
  shows "\<exists>co'. poll_machine co = (Inr s, co')"
proof -
  have d: "co_data co1 = co_data co"
    using assms(2) by (auto simp: probe_healthy_def close_if_connected_def close_client_def
        split: prod.splits sum.splits if_splits)
  have "co_data co2 = co_data co1" "co_client co2 = co_client co1" "co_failures co2 = 0"
    using assms(3) by (auto simp: probe_good_def clear_cooldown_def Let_def split: if_splits)
  moreover obtain e c where "read_snapshot (co_client co1) = (Inl e, c)" "e \<in> poll_errors"
    using assms(5) by (cases "read_snapshot (co_client co1)") (auto simp: poll_fails_def)
  ultimately have "fst (full_poll co2) = Inr s"
    using assms(4) d by (simp add: full_poll_def FAILURE_TOLERANCE_def)
  then show ?thesis using assms(1-3) by (cases "full_poll co2") (simp add: poll_machine_def)
qed

text \<open>A machine that refuses every connection: the client's link stays closed and every
  read fails.\<close>

definition refusing :: "conn \<Rightarrow> bool" where
  "refusing c \<longleftrightarrow> cn_link c = No_link \<and> 0 < cn_connect_timeout c
     \<and> cn_tape c = (\<lambda>_. \<lparr>hp_ms = 0, hp_bytes = [], hp_ending = Broken, hp_closed = False\<rparr>)"

lemma refusing_connect:
  "refusing c \<Longrightarrow> \<exists>c'. ha_connect c = (Inl OSError, c') \<and> refusing c'"
  by (auto simp: ha_connect_def connect_with_def open_link_def next_hp_def refusing_def hp_dt_def
      not_le drop_link_def Let_def)

lemma refusing_attempts:
  "refusing c \<Longrightarrow> \<exists>c'. ha_attempts n frame c = (Inl R60VConnectionError, c') \<and> refusing c'"
proof (induction n arbitrary: c)
  case (Suc n)
  obtain c1 where c1: "ha_connect c = (Inl OSError, c1)" "refusing c1"
    using refusing_connect [OF Suc.prems] by blast
  have "\<not> connected c" using Suc.prems by (simp add: refusing_def connected_def)
  moreover have "refusing (drop_link c1)" using c1(2) by (simp add: refusing_def)
  ultimately show ?case using c1(1) Suc.IH by (simp add: link_errors_def)
qed simp

lemma refusing_read:
  assumes "refusing c"
  shows "\<exists>c'. ha_read a n c = (Inl R60VConnectionError, c') \<and> refusing c'"
proof -
  obtain frame where "build_read a n = Inr frame" by (auto simp: build_read_def build_frame_Inr)
  then show ?thesis
    using refusing_attempts [OF assms, of 3 frame] by (auto simp: ha_read_def ha_request_def)
qed

lemma refusing_fails: "refusing (co_client co) \<Longrightarrow> poll_fails co"
  using refusing_read [of "co_client co" SETTINGS_BASE SETTINGS_LEN]
  by (auto simp: poll_fails_def read_snapshot_def poll_errors_def)

lemma refusing_full_poll:
  assumes "refusing (co_client co)"
  shows "refusing (co_client (snd (full_poll co)))"
proof -
  obtain c' where "ha_read SETTINGS_BASE SETTINGS_LEN (co_client co) = (Inl R60VConnectionError, c')" "refusing c'"
    using refusing_read [OF assms] by blast
  then show ?thesis
    by (auto simp: full_poll_def read_snapshot_def poll_errors_def close_client_def client_close_def
        enter_cooldown_def refusing_def Let_def split: option.split)
qed

lemma refusing_run:
  assumes "polls_normally co" "co_data co = Some s" "co_failures co = 0" "refusing (co_client co)"
    and "n \<le> FAILURE_TOLERANCE"
  shows "refusing (co_client (snd (poll_run n co))) \<and> (\<forall>i < n. poll_fails (snd (poll_run i co)))"
  using assms(5)
proof (induction n)
  case (Suc n)
  then have IH: "refusing (co_client (snd (poll_run n co)))" "\<forall>i < n. poll_fails (snd (poll_run i co))"
    by auto
  have "poll_fails (snd (poll_run n co))" using refusing_fails IH(1) by blast
  moreover have "polls_normally (snd (poll_run n co))"
    using tolerated_run [OF assms(1-3) IH(2)] Suc.prems by simp
  then have "async_update_data (snd (poll_run n co)) = full_poll (snd (poll_run n co))"
    by (rule normal_update)
  ultimately show ?case
    using refusing_full_poll [OF IH(1)] IH(2)
    by (cases "full_poll (snd (poll_run n co))") (auto simp: less_Suc_eq split: prod.splits)
qed (use assms(4) in simp)

section \<open>Properties\<close>

text \<open>C22: The coordinator opens no connection and sends nothing to the machine when it has
  the bridge's stream, when a usable health report says that the bridge's link is down or
  being repaired, or while a cooldown runs; it then leaves every recovery counter as it
  was and, when it polls, closes the link and reports the failure.\<close>

theorem update_leaves_machine_alone:
  assumes "co_push_enabled co \<or> bridge_blocking (refresh_bridge_health co)
      \<or> co_in_cooldown (refresh_bridge_health co)"
    and "async_update_data co = (r, co')"
  shows "(\<exists>new. cn_log (co_client co') = cn_log (co_client co) @ new \<and> set new \<subseteq> {Closed})
    \<and> same_counters co co'
    \<and> (if co_push_enabled co
       then r = Inr (case co_data co of None \<Rightarrow> seed_snapshot | Some s \<Rightarrow> s)
       else r = Inl UpdateFailed \<and> \<not> connected (co_client co'))"
proof -
  let ?h = "refresh_bridge_health co"
  have h: "left_alone (co_client co) (co_client ?h)" "same_counters co ?h" by simp_all
  have c: "left_alone (co_client co) (co_client (close_if_connected ?h))"
    using left_alone_trans [OF h(1)] by simp
  show ?thesis
    using assms h c unfolding left_alone_def [symmetric]
    by (auto simp: async_update_data_def Let_def split: if_splits)
qed

theorem update_leaves_machine_alone_witness:
  "\<exists>r co'. async_update_data
       (enter_cooldown 0 (new_coordinator (ha_new_conn (demo_tape []) 10) (\<lambda>t. t) None None False)) = (r, co')
     \<and> r = Inl UpdateFailed \<and> \<not> connected (co_client co')"
proof -
  let ?co = "enter_cooldown 0 (new_coordinator (ha_new_conn (demo_tape []) 10) (\<lambda>t. t) None None False)"
  obtain r co' where e: "async_update_data ?co = (r, co')" by (cases "async_update_data ?co")
  have p: "\<not> co_push_enabled ?co" by (simp add: enter_cooldown_def new_coordinator_def)
  have "co_in_cooldown (refresh_bridge_health ?co)" by code_simp
  then show ?thesis using update_leaves_machine_alone [OF _ e] p e by auto
qed

text \<open>C24: An outage in polling mode is bridged over and then given a rest: without a health
  URL or report, out of any cooldown, with values once loaded and the failure counter at zero, the
  first five polls in a row that fail with a connection or protocol error all return the
  last good snapshot, the sixth raises, and the coordinator is then in its first cooldown,
  300 seconds from that moment, with the link to the machine closed. A garbled reply is
  not such a failure: \<open>garbled_poll_escapes_tolerance\<close> below.\<close>

theorem outage_escalates:
  assumes "polls_normally co" "co_data co = Some s" "co_failures co = 0"
    and "\<forall>i < 6. poll_fails (snd (poll_run i co))"
  shows "\<exists>co'. poll_run 6 co = ([Inr s, Inr s, Inr s, Inr s, Inr s, Inl UpdateFailed], co')
    \<and> co_cooldown_until co' = Some (utcnow co' + 300) \<and> co_in_cooldown co'
    \<and> \<not> connected (co_client co') \<and> co_data co' = Some s"
proof -
  obtain rs co5 where five: "poll_run 5 co = (rs, co5)" by (cases "poll_run 5 co")
  have r: "rs = replicate 5 (Inr s)" "polls_normally co5" "co_data co5 = Some s" "co_failures co5 = 5"
    using tolerated_run [OF assms(1-3), of 5] assms(4) by (simp_all add: five FAILURE_TOLERANCE_def)
  have "poll_fails co5" using assms(4) [rule_format, of 5] by (simp add: five)
  from last_straw [OF r(2,3) this] r(4) obtain co' where
    c: "async_update_data co5 = (Inl UpdateFailed, co')"
      "co_cooldown_until co' = Some (utcnow co' + 300)" "\<not> connected (co_client co')"
      "co_data co' = Some s" by (auto simp: FAILURE_TOLERANCE_def)
  have "poll_run (Suc 5) co = (rs @ [Inl UpdateFailed], co')"
    unfolding poll_run.simps(2) five by (simp add: c(1))
  moreover have "co_in_cooldown co'" using c(2) by (simp add: co_in_cooldown_def)
  ultimately show ?thesis using c(2-4) by (simp add: r(1) numeral_eq_Suc)
qed

text \<open>A coordinator that has loaded once, before a machine that refuses connections.\<close>

definition demo_coordinator :: coordinator where
  "demo_coordinator =
     (new_coordinator
        (ha_new_conn (\<lambda>_. \<lparr>hp_ms = 0, hp_bytes = [], hp_ending = Broken, hp_closed = False\<rparr>) 10)
        (\<lambda>t. t) None None False)\<lparr>co_data := Some (seed_snapshot\<lparr>hs_available := True\<rparr>)\<rparr>"

lemma demo_coordinator_facts:
  "polls_normally demo_coordinator" "co_failures demo_coordinator = 0"
  "co_data demo_coordinator = Some (seed_snapshot\<lparr>hs_available := True\<rparr>)"
  "refusing (co_client demo_coordinator)"
  by (simp_all add: demo_coordinator_def new_coordinator_def polls_normally_def refusing_def
      ha_new_conn_def new_conn_def)

theorem outage_escalates_witness:
  "\<exists>co'. poll_run 6 demo_coordinator
      = ([Inr (seed_snapshot\<lparr>hs_available := True\<rparr>), Inr (seed_snapshot\<lparr>hs_available := True\<rparr>),
          Inr (seed_snapshot\<lparr>hs_available := True\<rparr>), Inr (seed_snapshot\<lparr>hs_available := True\<rparr>),
          Inr (seed_snapshot\<lparr>hs_available := True\<rparr>), Inl UpdateFailed], co')
    \<and> co_in_cooldown co'"
proof -
  note f = refusing_run [OF demo_coordinator_facts(1,3,2,4), of 5]
  have "poll_fails (snd (poll_run i demo_coordinator))" if "i < 6" for i
  proof (cases "i = 5")
    case True
    then show ?thesis using f refusing_fails by (simp add: FAILURE_TOLERANCE_def)
  next
    case False
    then show ?thesis using f that by (simp add: FAILURE_TOLERANCE_def)
  qed
  then show ?thesis
    using outage_escalates [OF demo_coordinator_facts(1,3,2)] by blast
qed

text \<open>C25: The coordinator's recovery cannot drift from the bridge's: when both enter a
  cooldown of the same index at the same time and their due probes, at times that never
  go back, end alike, then after every such history both rest for the same further time,
  are back in service together, and stand at the same step of the schedule.\<close>

theorem cooldown_parity:
  assumes "wd_steps w = COOLDOWN_STEPS" "wd_resume_after w = RESUME_AFTER_PROBES"
    and "co_cooldown_index co = wd_cooldown_index w" "sorted (t # map fst ps)"
    and "co' = fold ha_recovery_step ps (enter_cooldown t co)"
    and "w' = fold bridge_recovery_step ps (fst (begin_cooldown t w))"
    and "last (t # map fst ps) \<le> now"
  shows "(rests_at now co' \<longleftrightarrow> in_cooldown now w')
    \<and> (co_cooldown_index co' = 0 \<longleftrightarrow> wd_cooldown_until w' = None)
    \<and> co_cooldown_index co' = wd_cooldown_index w'"
proof -
  have "wedge_ok w" using assms(1,2) by (simp add: wedge_ok_def)
  from same_recovery_run [OF same_recovery_start [OF this assms(3), of t] assms(4)]
  show ?thesis using assms(7) unfolding same_recovery_def assms(5) [symmetric] assms(6) [symmetric]
    by blast
qed

theorem cooldown_parity_witness:
  "\<exists>co' w'. co' = fold ha_recovery_step [(300, True), (330, False), (930, True), (960, True)]
       (enter_cooldown 0 demo_coordinator)
     \<and> w' = fold bridge_recovery_step [(300, True), (330, False), (930, True), (960, True)]
       (fst (begin_cooldown 0 default_wedge))
     \<and> co_cooldown_index co' = wd_cooldown_index w'"
proof -
  have i: "co_cooldown_index demo_coordinator = wd_cooldown_index default_wedge"
    by (simp add: demo_coordinator_def new_coordinator_def default_wedge_def new_wedge_def)
  show ?thesis
    using cooldown_parity [of default_wedge demo_coordinator 0
        "[(300, True), (330, False), (930, True), (960, True)]" _ _ 960, OF _ _ i _ refl refl]
    by (simp add: default_wedge_def new_wedge_def RESUME_AFTER_PROBES_def del: fold.simps)
qed

text \<open>A garbled reply is not treated as a failed poll: it raises a \<open>ValueError\<close> out of
  the update although a snapshot is cached, is not counted towards the tolerance or the
  cooldown, and leaves the link open.\<close>

theorem garbled_poll_escapes_tolerance:
  assumes "polls_normally co" "co_data co = Some s"
    and "ha_read SETTINGS_BASE SETTINGS_LEN (co_client co) = (Inl ValueError, c)"
  shows "\<exists>co'. async_update_data co = (Inl ValueError, co') \<and> co_failures co' = co_failures co
    \<and> co_cooldown_until co' = None \<and> co_client co' = c"
  unfolding normal_update [OF assms(1)]
  using assms by (simp add: full_poll_def read_snapshot_def poll_errors_def polls_normally_def)

theorem garbled_poll_escapes_tolerance_witness:
  "\<exists>co'. async_update_data (demo_coordinator\<lparr>co_client :=
        ha_demo_conn (''r00000073'' @ replicate 229 (CHR ''0'') @ ''G00'')\<rparr>) = (Inl ValueError, co')
     \<and> co_failures co' = 0"
proof -
  let ?c = "ha_demo_conn (''r00000073'' @ replicate 229 (CHR ''0'') @ ''G00'')"
  have "fst (ha_read SETTINGS_BASE SETTINGS_LEN ?c) = Inl ValueError" by code_simp
  then obtain c where r: "ha_read SETTINGS_BASE SETTINGS_LEN ?c = (Inl ValueError, c)"
    by (metis prod.collapse)
  have "polls_normally (demo_coordinator\<lparr>co_client := ?c\<rparr>)"
    "co_data (demo_coordinator\<lparr>co_client := ?c\<rparr>) = Some (seed_snapshot\<lparr>hs_available := True\<rparr>)"
    using demo_coordinator_facts by (simp_all add: polls_normally_def)
  from garbled_poll_escapes_tolerance [OF this, of c] r show ?thesis
    using demo_coordinator_facts(2) by auto
qed

end
