(* ===== verification/HaDisplay.thy ===== *)
theory HaDisplay
  imports HaEntities
begin

text \<open>
  The front-panel text (\<open>parse_display_brew_temp\<close>, \<open>machine_to_celsius\<close> and \<open>current_c\<close>
  of \<open>custom_components/rocket_r60v/entities.py\<close>): the one-pass matcher is the regular
  expression it stands for, written as the texts it describes, and a temperature the
  panel shows in Fahrenheit is read as the nearest whole degree Celsius, although the
  code divides by a binary64 approximation of 1.8.
\<close>

section \<open>The texts of the pattern\<close>

definition all_ws :: "string \<Rightarrow> bool" where
  "all_ws s \<longleftrightarrow> (\<forall>c \<in> set s. is_ws c)"

record brew_parts =
  bp_brew :: string
  bp_ws1 :: string
  bp_boil :: string
  bp_dot :: string
  bp_ws2 :: string
  bp_digits :: string
  bp_ws3 :: string
  bp_star :: string
  bp_ws4 :: string
  bp_mark :: char

definition parts_ok :: "brew_parts \<Rightarrow> bool" where
  "parts_ok b \<longleftrightarrow>
     upper (bp_brew b) = ''BREW'' \<and> all_ws (bp_ws1 b) \<and> upper (bp_boil b) = ''BOIL''
     \<and> (bp_dot b = [] \<or> bp_dot b = ''.'') \<and> all_ws (bp_ws2 b)
     \<and> bp_digits b \<noteq> [] \<and> length (bp_digits b) \<le> 3 \<and> (\<forall>c \<in> set (bp_digits b). is_digit c)
     \<and> all_ws (bp_ws3 b) \<and> (bp_star b = [] \<or> bp_star b = ''*'') \<and> all_ws (bp_ws4 b)
     \<and> upper_char (bp_mark b) \<in> {CHR ''C'', CHR ''F''}"

definition parts_text :: "brew_parts \<Rightarrow> string" where
  "parts_text b = bp_brew b @ bp_ws1 b @ bp_boil b @ bp_dot b @ bp_ws2 b @ bp_digits b
     @ bp_ws3 b @ bp_star b @ bp_ws4 b @ [bp_mark b]"

definition parts_value :: "brew_parts \<Rightarrow> int \<times> bool" where
  "parts_value b =
     (int (value_of 10 (map digit_val (bp_digits b))), upper_char (bp_mark b) = CHR ''F'')"

text \<open>A text shows a temperature when some part of it matches.\<close>

definition shows_temp :: "string \<Rightarrow> int \<times> bool \<Rightarrow> bool" where
  "shows_temp s x \<longleftrightarrow> (\<exists>pre b post. s = pre @ parts_text b @ post \<and> parts_ok b \<and> parts_value b = x)"

lemma eat_iff: "eat p s = Some r \<longleftrightarrow> (\<exists>w. s = w @ r \<and> upper w = p)"
proof (induction p s rule: eat.induct)
  case (1 s) then show ?case by (auto simp: upper_def)
next
  case (2 p ps) then show ?case by (auto simp: upper_def)
next
  case (3 p ps c s)
  have "(\<exists>w. c # s = w @ r \<and> upper w = p # ps) \<longleftrightarrow> upper_char c = p \<and> (\<exists>w. s = w @ r \<and> upper w = ps)"
    by (auto simp: upper_def Cons_eq_append_conv)
  then show ?case using 3 by simp
qed

lemma span_append:
  assumes "\<forall>c \<in> set a. P c" "b = [] \<or> \<not> P (hd b)"
  shows "dropWhile P (a @ b) = b" "takeWhile P (a @ b) = a"
proof -
  have "dropWhile P b = b \<and> takeWhile P b = []" using assms(2) by (cases b) auto
  then show "dropWhile P (a @ b) = b" "takeWhile P (a @ b) = a"
    using assms(1) by (simp_all add: dropWhile_append2 takeWhile_append2)
qed

lemma ws_code: "is_ws c \<Longrightarrow> code c \<le> 32"
  by (auto simp: is_ws_def)

lemma upper_char_ws: "64 < code (upper_char c) \<Longrightarrow> \<not> is_ws c \<and> \<not> is_digit c \<and> c \<noteq> CHR ''.'' \<and> c \<noteq> CHR ''*''"
  by (auto simp: upper_char_def is_ws_def is_digit_def code_def split: if_splits)

lemma letters: "64 < code (CHR ''B'')" "64 < code (CHR ''C'')" "64 < code (CHR ''F'')"
  by (simp_all add: code_def)

lemma mark_facts:
  "upper_char u \<in> {CHR ''C'', CHR ''F''} \<Longrightarrow> \<not> is_ws u \<and> \<not> is_digit u \<and> u \<noteq> CHR ''*''"
  using upper_char_ws [of u] letters by auto

lemma sign_facts:
  "\<not> is_ws (CHR ''*'')" "\<not> is_digit (CHR ''*'')" "\<not> is_ws (CHR ''.'')" "\<not> is_digit (CHR ''.'')"
  by (simp_all add: is_ws_def is_digit_def code_def)

lemma digit_not_ws: "is_digit c \<Longrightarrow> \<not> is_ws c"
  by (auto simp: is_digit_def is_ws_def)

lemma brew_match_complete:
  assumes "parts_ok b"
  shows "brew_match (parts_text b @ post) = Some (parts_value b)"
proof -
  obtain brew ws1 boil dot ws2 ds ws3 star ws4 u where b: "b = \<lparr>bp_brew = brew, bp_ws1 = ws1,
      bp_boil = boil, bp_dot = dot, bp_ws2 = ws2, bp_digits = ds, bp_ws3 = ws3, bp_star = star,
      bp_ws4 = ws4, bp_mark = u\<rparr>" by (cases b)
  define m where "m = parts_text b"
  have w: "upper brew = ''BREW''" "upper boil = ''BOIL''" "all_ws ws1" "all_ws ws2" "all_ws ws3" "all_ws ws4"
    and d: "dot = [] \<or> dot = ''.''" "star = [] \<or> star = ''*''"
    and n: "ds \<noteq> []" "length ds \<le> 3" "\<forall>c \<in> set ds. is_digit c"
    and u: "upper_char u \<in> {CHR ''C'', CHR ''F''}"
    using assms unfolding parts_ok_def b by simp_all
  note ws = w(3-6) [unfolded all_ws_def]
  define r5 where "r5 = u # post"
  define r4 where "r4 = star @ ws4 @ r5"
  define r3 where "r3 = ds @ ws3 @ r4"
  define r2 where "r2 = dot @ ws2 @ r3"
  have u1: "\<not> is_ws u" "\<not> is_digit u" "u \<noteq> CHR ''*''" using mark_facts [OF u] by auto
  have hb: "boil \<noteq> [] \<and> \<not> is_ws (hd boil)"
  proof (cases boil)
    case (Cons c cs)
    then have "upper_char c = CHR ''B''" using w(2) by (simp add: upper_def)
    then show ?thesis using Cons upper_char_ws [of c] letters(1) by simp
  qed (use w(2) in \<open>simp add: upper_def\<close>)
  have e1: "eat ''BREW'' (m @ post) = Some (ws1 @ boil @ r2)"
    unfolding eat_iff using w(1) by (intro exI [of _ brew]) (simp add: m_def parts_text_def b r2_def r3_def r4_def r5_def)
  have s1: "dropWhile is_ws (ws1 @ boil @ r2) = boil @ r2"
    using span_append(1) [OF ws(1)] hb by simp
  have e2: "eat ''BOIL'' (boil @ r2) = Some r2"
    unfolding eat_iff using w(2) by blast
  have h3: "\<not> is_ws (hd r3)" "r3 \<noteq> []" "hd r3 \<noteq> CHR ''.''"
    using n(1,3) digit_not_ws sign_facts(4) by (auto simp: r3_def) (metis list.set_sel(1) sign_facts(4))
  have s2: "dropWhile is_ws (skip_char (CHR ''.'') r2) = r3"
  proof -
    have "skip_char (CHR ''.'') r2 = ws2 @ r3"
      using d(1) h3 ws(2) sign_facts(3) by (cases ws2) (auto simp: r2_def skip_char_def)
    then show ?thesis using span_append(1) [OF ws(2)] h3 by simp
  qed
  have h5: "ws @ r5 \<noteq> [] \<and> \<not> is_digit (hd (ws @ r5))" if "all_ws ws" for ws
    using that u1(2) digit_not_ws by (cases ws) (auto simp: all_ws_def r5_def)
  have h4: "ws3 @ r4 \<noteq> []" "\<not> is_digit (hd (ws3 @ r4))"
  proof -
    have "r4 \<noteq> [] \<and> \<not> is_digit (hd r4)"
      using d(2) h5 [OF w(6)] sign_facts(2) by (auto simp: r4_def)
    then show "ws3 @ r4 \<noteq> []" "\<not> is_digit (hd (ws3 @ r4))"
      using ws(3) digit_not_ws by (cases ws3; auto)+
  qed
  have s3: "takeWhile is_digit r3 = ds" "dropWhile is_digit r3 = ws3 @ r4"
    unfolding r3_def using span_append [OF n(3)] h4 by blast+
  have s4: "dropWhile is_ws (skip_char (CHR ''*'') (dropWhile is_ws (ws3 @ r4))) = r5"
    using d(2)
  proof
    assume s: "star = []"
    have "dropWhile is_ws (ws3 @ r4) = r5"
      using span_append(1) [of "ws3 @ ws4" is_ws r5] ws(3,4) u1(1) by (auto simp: r4_def r5_def s)
    then show ?thesis using u1 by (simp add: skip_char_def r5_def)
  next
    assume s: "star = ''*''"
    have "dropWhile is_ws (ws3 @ r4) = CHR ''*'' # ws4 @ r5"
      using span_append(1) [OF ws(3), of r4] sign_facts(1) by (simp add: r4_def s)
    then show ?thesis using span_append(1) [OF ws(4), of r5] u1(1) by (simp add: skip_char_def r5_def)
  qed
  show ?thesis
    unfolding m_def [symmetric] brew_match_def e1 option.case s1 e2 Let_def s2 s3 s4
    using n u by (simp add: r5_def not_less parts_value_def b)
qed

lemma brew_match_sound:
  assumes "brew_match s = Some x"
  shows "\<exists>b post. s = parts_text b @ post \<and> parts_ok b \<and> parts_value b = x"
proof -
  from assms obtain s1 s2 where e: "eat ''BREW'' s = Some s1" "eat ''BOIL'' (dropWhile is_ws s1) = Some s2"
    unfolding brew_match_def by (auto split: option.splits)
  define s3 where "s3 = dropWhile is_ws (skip_char (CHR ''.'') s2)"
  define s4 where "s4 = dropWhile is_digit s3"
  define s5 where "s5 = dropWhile is_ws (skip_char (CHR ''*'') (dropWhile is_ws s4))"
  define ds where "ds = takeWhile is_digit s3"
  have r: "ds \<noteq> []" "length ds \<le> 3" "s5 \<noteq> []" "upper_char (hd s5) \<in> {CHR ''C'', CHR ''F''}"
    "x = (int (value_of 10 (map digit_val ds)), upper_char (hd s5) = CHR ''F'')"
    using assms unfolding brew_match_def e option.case Let_def s3_def [symmetric] ds_def [symmetric]
      s4_def [symmetric] s5_def [symmetric]
    by (auto split: if_splits)
  have w: "\<forall>c \<in> set (takeWhile P t). P c" for P and t :: string
    by (blast dest: set_takeWhileD)
  have k: "\<exists>x. s = x @ skip_char c s \<and> (x = [] \<or> x = [c])" for c and s :: string
    by (cases s) (auto simp: skip_char_def)
  obtain brew where b1: "s = brew @ s1" "upper brew = ''BREW''" using e(1) unfolding eat_iff by blast
  obtain boil where b2: "dropWhile is_ws s1 = boil @ s2" "upper boil = ''BOIL''"
    using e(2) unfolding eat_iff by blast
  obtain dot where b3: "s2 = dot @ skip_char (CHR ''.'') s2" "dot = [] \<or> dot = ''.''" using k by blast
  obtain star where b4: "dropWhile is_ws s4 = star @ skip_char (CHR ''*'') (dropWhile is_ws s4)"
      "star = [] \<or> star = ''*''" using k by blast
  let ?b = "\<lparr>bp_brew = brew, bp_ws1 = takeWhile is_ws s1, bp_boil = boil, bp_dot = dot,
      bp_ws2 = takeWhile is_ws (skip_char (CHR ''.'') s2), bp_digits = ds,
      bp_ws3 = takeWhile is_ws s4, bp_star = star,
      bp_ws4 = takeWhile is_ws (skip_char (CHR ''*'') (dropWhile is_ws s4)), bp_mark = hd s5\<rparr>"
  have "s4 = takeWhile is_ws s4 @ star @ takeWhile is_ws (skip_char (CHR ''*'') (dropWhile is_ws s4)) @ s5"
    unfolding s5_def using b4(1) by (metis takeWhile_dropWhile_id)
  moreover have "s3 = ds @ s4" by (simp add: ds_def s4_def)
  moreover have "s2 = dot @ takeWhile is_ws (skip_char (CHR ''.'') s2) @ s3"
    unfolding s3_def using b3(1) by (metis takeWhile_dropWhile_id)
  moreover have "s1 = takeWhile is_ws s1 @ boil @ s2" using b2(1) by (metis takeWhile_dropWhile_id)
  moreover have "s5 = [hd s5] @ tl s5" using r(3) by simp
  ultimately have "s = parts_text ?b @ tl s5"
    using b1(1) by (simp only: parts_text_def brew_parts.simps) (metis append.assoc)
  moreover have "parts_ok ?b"
    using b1(2) b2(2) b3(2) b4(2) r(1-4) w [of is_ws] w [of is_digit]
    by (simp add: parts_ok_def all_ws_def ds_def)
  moreover have "parts_value ?b = x" using r(5) by (simp add: parts_value_def)
  ultimately show ?thesis by blast
qed

lemma search_first_Some:
  "search_first f s = Some x \<Longrightarrow> \<exists>pre t. s = pre @ t \<and> f t = Some x"
proof (induction f s rule: search_first.induct)
  case (2 f c s)
  show ?case
  proof (cases "f (c # s)")
    case None
    then obtain pre t where "s = pre @ t" "f t = Some x" using 2 by auto
    then have "c # s = (c # pre) @ t \<and> f t = Some x" by simp
    then show ?thesis by blast
  next
    case (Some y)
    then show ?thesis using 2(2) by (intro exI [of _ "[]"] exI [of _ "c # s"]) simp
  qed
qed auto

lemma search_first_None:
  "search_first f s = None \<Longrightarrow> s = pre @ t \<Longrightarrow> f t = None"
  by (induction f s arbitrary: pre rule: search_first.induct)
    (auto simp: Cons_eq_append_conv split: option.splits)

lemma parse_display_cases:
  "case parse_display_brew_temp s of
     Some x \<Rightarrow> shows_temp s x
   | None \<Rightarrow> \<forall>x. \<not> shows_temp s x"
proof (cases "parse_display_brew_temp s")
  case None
  have "\<not> shows_temp s x" for x
  proof
    assume "shows_temp s x"
    then obtain pre b post where b: "s = pre @ parts_text b @ post" "parts_ok b"
      by (auto simp: shows_temp_def)
    have "brew_match (parts_text b @ post) = None"
      using search_first_None [OF None [unfolded parse_display_brew_temp_def]] b(1) by blast
    then show False using brew_match_complete [OF b(2)] by simp
  qed
  then show ?thesis using None by simp
next
  case (Some x)
  from search_first_Some [OF this [unfolded parse_display_brew_temp_def]]
  obtain pre t where t: "s = pre @ t" "brew_match t = Some x" by blast
  from brew_match_sound [OF t(2)] have "shows_temp s x" unfolding shows_temp_def t(1) by blast
  then show ?thesis using Some by simp
qed

section \<open>Fahrenheit\<close>

lemma fl_quotient:
  assumes "\<bar>n\<bar> \<le> 1000"
  shows "\<bar>fl (of_int n / fl (18 / 10)) - of_int n * 5 / 9\<bar> \<le> 1 / 100"
proof (cases "n = 0")
  case False
  let ?g = "fl (18 / 10)"
  define x where "x = of_int n / ?g"
  have "\<bar>?g - 18 / 10\<bar> \<le> 1 / 1000000" using fl_tenth_error [of 18] by simp
  then have g: "17 / 10 \<le> ?g" "?g \<le> 19 / 10" "\<bar>?g - 9 / 5\<bar> \<le> 1 / 1000000" by linarith+
  have nq: "(1 :: rat) \<le> \<bar>of_int n\<bar>" "\<bar>of_int n\<bar> \<le> (1000 :: rat)"
    using False assms by (simp_all flip: of_int_abs)
  have xg: "x * ?g = of_int n" using g by (simp add: x_def)
  have ax: "\<bar>x\<bar> * ?g = \<bar>of_int n\<bar>" using g by (simp add: x_def abs_mult)
  have x1: "\<bar>x\<bar> \<le> 1000"
  proof -
    have "\<bar>x\<bar> * 1 \<le> \<bar>x\<bar> * ?g" using g by (intro mult_left_mono) auto
    then show ?thesis using ax nq(2) by linarith
  qed
  have x2: "1 / 4 \<le> \<bar>x\<bar>"
  proof -
    have "\<bar>x\<bar> * ?g \<le> \<bar>x\<bar> * 4" using g by (intro mult_left_mono) auto
    then show ?thesis using ax nq(1) by linarith
  qed
  have "(2 :: rat) powi (- 1022) \<le> 2 powi (- 2)" by (intro power_int_increasing) auto
  then have "(2 :: rat) powi (- 1022) \<le> \<bar>x\<bar>" using x2 by (simp add: power_int_minus)
  from fl_error [OF this] have "\<bar>fl x - x\<bar> \<le> \<bar>x\<bar> * 2 powi (- 53)" .
  also have "\<dots> \<le> 1000 * 2 powi (- 53)" using x1 by (intro mult_right_mono) auto
  also have "\<dots> \<le> 1 / 1000" by (simp add: power_int_minus)
  finally have e1: "\<bar>fl x - x\<bar> \<le> 1 / 1000" .
  have "(x - of_int n * 5 / 9) * (9 / 5) = x * (9 / 5 - ?g)" using xg by (simp add: algebra_simps)
  then have "\<bar>x - of_int n * 5 / 9\<bar> * (9 / 5) = \<bar>x\<bar> * \<bar>9 / 5 - ?g\<bar>"
    by (metis abs_mult abs_of_pos zero_less_divide_iff zero_less_numeral)
  also have "\<dots> \<le> 1000 * (1 / 1000000)"
    using x1 g(3) by (intro mult_mono) (auto simp: abs_minus_commute)
  finally have "\<bar>x - of_int n * 5 / 9\<bar> \<le> 1 / 1000" by simp
  then show ?thesis using e1 unfolding x_def by linarith
qed simp

text \<open>No number of Fahrenheit degrees lies halfway between two Celsius ones, so the nearest
  is unique, and it is the one the code returns.\<close>

lemma machine_to_celsius_nearest:
  assumes "0 \<le> n" "n < 1000"
  shows "machine_to_celsius n True = (10 * (n - 32) + 9) div 18"
proof -
  define q :: rat where "q = fl (of_int (n - 32) / fl (18 / 10))"
  define c where "c = rhe q"
  have "\<bar>n - 32\<bar> \<le> 1000" using assms by simp
  then have e: "\<bar>q - of_int (n - 32) * 5 / 9\<bar> \<le> 1 / 100" unfolding q_def by (rule fl_quotient)
  have r: "\<bar>of_int c - q\<bar> \<le> 1 / 2" unfolding c_def by (rule rhe_error)
  have "\<bar>of_int c - of_int (n - 32) * 5 / 9 :: rat\<bar> \<le> 51 / 100" using e r by linarith
  then have "- 5 < (of_int (9 * c - 5 * (n - 32)) :: rat)" "of_int (9 * c - 5 * (n - 32)) < (5 :: rat)"
    unfolding of_int_diff of_int_mult by linarith+
  then have "\<bar>of_int (9 * c - 5 * (n - 32)) :: rat\<bar> < of_int 5" unfolding abs_less_iff by simp
  then have "\<bar>9 * c - 5 * (n - 32)\<bar> < 5" by (simp only: of_int_less_iff flip: of_int_abs)
  then have "(10 * (n - 32) + 9) div 18 = c" by linarith
  then show ?thesis by (simp add: machine_to_celsius_def c_def q_def)
qed

lemma panel_text:
  assumes "0 \<le> n" "n < 1000" "u = CHR ''C'' \<or> u = CHR ''F''"
  shows "parse_display_brew_temp (''BREW BOIL. '' @ int_str n @ ''*'' @ [u]) = Some (n, u = CHR ''F'')"
proof -
  let ?ds = "digits_of 10 (nat n)"
  have i: "int_str n = map digit_char ?ds" using assms(1) by (simp add: fmt_int_def zpad_def nat_str_def)
  have d: "\<forall>d \<in> set ?ds. d < 10" by (auto dest: digits_of_less [rotated])
  have l: "length ?ds \<le> Suc 2" using assms(1,2) by (intro length_digits_of) auto
  let ?b = "\<lparr>bp_brew = ''BREW'', bp_ws1 = '' '', bp_boil = ''BOIL'', bp_dot = ''.'', bp_ws2 = '' '',
      bp_digits = int_str n, bp_ws3 = [], bp_star = ''*'', bp_ws4 = [], bp_mark = u\<rparr>"
  have up: "upper ''BREW'' = ''BREW''" "upper ''BOIL'' = ''BOIL''" "all_ws '' ''"
    "upper_char (CHR ''C'') = CHR ''C''" "upper_char (CHR ''F'') = CHR ''F''" by code_simp+
  have "\<forall>c \<in> set (int_str n). is_digit c" unfolding i using d by (auto simp: digit_char_is_digit)
  then have ok: "parts_ok ?b" using l assms(3) up by (auto simp: parts_ok_def all_ws_def i)
  have "map digit_val (int_str n) = ?ds" unfolding i using d by (auto simp: comp_def intro!: map_idI)
  then have v: "parts_value ?b = (n, u = CHR ''F'')"
    using assms(1,3) up by (auto simp: parts_value_def)
  have t: "parts_text ?b @ [] = ''BREW BOIL. '' @ int_str n @ ''*'' @ [u]" by (simp add: parts_text_def)
  have "brew_match (''BREW BOIL. '' @ int_str n @ ''*'' @ [u]) = Some (n, u = CHR ''F'')"
    using brew_match_complete [OF ok, of "[]"] unfolding t v .
  then show ?thesis by (simp add: parse_display_brew_temp_def)
qed

section \<open>Properties\<close>

text \<open>The matcher of the panel text is its regular expression: it returns a temperature
  that some part of the text shows, and it returns none only when no part of the text
  has the form of the pattern, wherever it starts and however it is spelt.\<close>

theorem display_matcher_exact:
  "case parse_display_brew_temp display of
     Some (v, f) \<Rightarrow> (\<exists>pre b post. display = pre @ parts_text b @ post \<and> parts_ok b \<and> parts_value b = (v, f))
   | None \<Rightarrow> \<not> (\<exists>pre b post. display = pre @ parts_text b @ post \<and> parts_ok b)"
proof (cases "parse_display_brew_temp display")
  case None
  then have "\<not> shows_temp display x" for x using parse_display_cases [of display] by (cases x) simp
  then have "\<not> (\<exists>pre b post. display = pre @ parts_text b @ post \<and> parts_ok b)"
    unfolding shows_temp_def by blast
  then show ?thesis using None by simp
next
  case (Some x)
  then have "shows_temp display x" using parse_display_cases [of display] by simp
  then show ?thesis unfolding shows_temp_def using Some by (cases x) simp
qed

text \<open>C33: A brew-boiler temperature that the panel shows as the code expects it, as in
  \<open>BREW BOIL. 221*F\<close>, with at most three digits, is what the thermostat shows, whatever
  the live register holds: the number itself when the panel is in Celsius, and the
  nearest whole degree Celsius when it is in Fahrenheit.\<close>

theorem panel_temperature:
  assumes "0 \<le> n" "n < 1000" "u = CHR ''C'' \<or> u = CHR ''F''"
    and "live_text DISPLAY s = Inr (''BREW BOIL. '' @ int_str n @ ''*'' @ [u])"
  shows "current_c (HA_CLIMATE_ENTITIES ! 0) s
    = Inr (if u = CHR ''F'' then (10 * (n - 32) + 9) div 18 else n)"
  using assms(3) panel_text [OF assms(1-3)] machine_to_celsius_nearest [OF assms(1,2)]
  unfolding current_c_def assms(4)
  by (auto simp: HA_CLIMATE_ENTITIES_def machine_to_celsius_def)

theorem panel_temperature_witness:
  "current_c (HA_CLIMATE_ENTITIES ! 0)
     \<lparr>hs_settings = [], hs_live = [(CURRENT_BREW_TEMP, [90]),
        (DISPLAY, [66, 82, 69, 87, 32, 66, 79, 73, 76, 46, 32, 50, 50, 49, 42, 70])],
      hs_available = True\<rparr>
   = Inr (if CHR ''F'' = CHR ''F'' then (10 * (221 - 32) + 9) div 18 else 221)
   \<and> (10 * (221 - 32) + 9) div 18 = (105 :: int)"
proof -
  let ?s = "\<lparr>hs_settings = [], hs_live = [(CURRENT_BREW_TEMP, [90]),
        (DISPLAY, [66, 82, 69, 87, 32, 66, 79, 73, 76, 46, 32, 50, 50, 49, 42, 70])],
      hs_available = True\<rparr> :: ha_snapshot"
  have "live_text DISPLAY ?s = Inr (''BREW BOIL. '' @ int_str 221 @ ''*'' @ [CHR ''F''])"
    by code_simp
  then have "current_c (HA_CLIMATE_ENTITIES ! 0) ?s
      = Inr (if CHR ''F'' = CHR ''F'' then (10 * (221 - 32) + 9) div 18 else 221)"
    by (intro panel_temperature) simp_all
  then show ?thesis by simp
qed

end
