(* ===== verification/PushServer.thy ===== *)
theory PushServer
  imports Broker "HOL-Library.Sublist"
begin

text \<open>
  The concurrency of the push server, \<open>bridge/r60v_broker/push_server.py\<close>. In \<open>Broker\<close> a
  broadcast is one step; here it is what the code does, a wait for the lock, a send per
  subscriber that may be delayed or time out, and the dropping of the dead ones, between
  any of which the other tasks broadcast, connect and disconnect. Connections are
  numbered as they open. \<open>asyncio.Lock\<close> serves its waiters in the order they came.
\<close>

section \<open>The server\<close>

text \<open>\<open>sv_open\<close> are the connections whose handler runs, \<open>sv_clients\<close> the subscribers among
  them; \<open>sv_waiting\<close> the broadcasts before the lock, and \<open>sv_sending\<close> the one that holds it:
  its frame, the subscribers it still sends to and those that failed. The two logs are of
  the frames each connection was sent, and of the snapshots broadcast.\<close>

record 'f server =
  sv_open :: "nat list"
  sv_clients :: "nat list"
  sv_latest :: 'f
  sv_waiting :: "'f list"
  sv_sending :: "('f \<times> nat list \<times> nat list) option"
  sv_next :: nat
  sv_received :: "(nat \<times> 'f) list"
  sv_log :: "'f list"

definition new_server :: "'f \<Rightarrow> 'f server" where
  "new_server initial =
     \<lparr>sv_open = [], sv_clients = [], sv_latest = initial, sv_waiting = [], sv_sending = None,
      sv_next = 0, sv_received = [], sv_log = [initial]\<rparr>"

definition sv_call :: "'f \<Rightarrow> 'f server \<Rightarrow> 'f server" where
  "sv_call f sv = sv\<lparr>sv_waiting := sv_waiting sv @ [f], sv_log := sv_log sv @ [f]\<rparr>"

definition sv_acquire :: "'f server \<Rightarrow> 'f server option" where
  "sv_acquire sv =
     (case (sv_sending sv, sv_waiting sv) of
        (None, f # waiting) \<Rightarrow>
          (let sv = sv\<lparr>sv_waiting := waiting, sv_latest := f\<rparr>
           in Some (if sv_clients sv = [] then sv
                    else sv\<lparr>sv_sending := Some (f, sv_clients sv, [])\<rparr>))
      | _ \<Rightarrow> None)"

text \<open>A send to a subscriber returns; or it fails, at once or, its frame perhaps sent,
  when its time is over.\<close>

definition sv_deliver :: "nat \<Rightarrow> 'f server \<Rightarrow> 'f server option" where
  "sv_deliver c sv =
     (case sv_sending sv of
        Some (f, pending, dead) \<Rightarrow>
          if c \<in> set pending \<and> c \<in> set (sv_open sv)
          then Some (sv\<lparr>sv_sending := Some (f, removeAll c pending, dead),
                        sv_received := sv_received sv @ [(c, f)]\<rparr>)
          else None
      | None \<Rightarrow> None)"

definition sv_fail :: "nat \<Rightarrow> bool \<Rightarrow> 'f server \<Rightarrow> 'f server option" where
  "sv_fail c sent sv =
     (case sv_sending sv of
        Some (f, pending, dead) \<Rightarrow>
          if c \<in> set pending
          then Some (sv\<lparr>sv_sending := Some (f, removeAll c pending, dead @ [c]),
                        sv_received := sv_received sv @ (if sent then [(c, f)] else [])\<rparr>)
          else None
      | None \<Rightarrow> None)"

definition sv_release :: "'f server \<Rightarrow> 'f server option" where
  "sv_release sv =
     (case sv_sending sv of
        Some (f, [], dead) \<Rightarrow>
          Some (sv\<lparr>sv_sending := None, sv_clients := filter (\<lambda>c. c \<notin> set dead) (sv_clients sv)\<rparr>)
      | _ \<Rightarrow> None)"

text \<open>A handler begins: its connection becomes a subscriber and is sent the latest
  snapshot, without an await between the two; and ends.\<close>

definition sv_connect :: "'f server \<Rightarrow> 'f server" where
  "sv_connect sv =
     sv\<lparr>sv_open := sv_open sv @ [sv_next sv], sv_clients := sv_clients sv @ [sv_next sv],
        sv_next := Suc (sv_next sv), sv_received := sv_received sv @ [(sv_next sv, sv_latest sv)]\<rparr>"

definition sv_disconnect :: "nat \<Rightarrow> 'f server \<Rightarrow> 'f server" where
  "sv_disconnect c sv =
     sv\<lparr>sv_open := removeAll c (sv_open sv), sv_clients := removeAll c (sv_clients sv)\<rparr>"

section \<open>Runs\<close>

datatype 'f server_event =
  Call 'f | Acquire | Deliver nat | Fail nat bool | Release | Connect | Disconnect nat

fun server_step :: "'f server_event \<Rightarrow> 'f server \<Rightarrow> 'f server option" where
  "server_step (Call f) sv = Some (sv_call f sv)"
| "server_step Acquire sv = sv_acquire sv"
| "server_step (Deliver c) sv = sv_deliver c sv"
| "server_step (Fail c sent) sv = sv_fail c sent sv"
| "server_step Release sv = sv_release sv"
| "server_step Connect sv = Some (sv_connect sv)"
| "server_step (Disconnect c) sv = Some (sv_disconnect c sv)"

text \<open>\<open>None\<close> when some event of the list cannot happen.\<close>

fun server_run :: "'f server_event list \<Rightarrow> 'f server \<Rightarrow> 'f server option" where
  "server_run [] sv = Some sv"
| "server_run (e # es) sv = Option.bind (server_step e sv) (server_run es)"

definition frames_of :: "nat \<Rightarrow> 'f server \<Rightarrow> 'f list" where
  "frames_of c sv = map snd (filter (\<lambda>r. fst r = c) (sv_received sv))"

lemma server_run_append:
  "server_run (xs @ ys) sv = Option.bind (server_run xs sv) (server_run ys)"
  by (induction xs arbitrary: sv) (auto split: Option.bind_splits)

lemma server_run_induct:
  assumes "server_run es sv = Some sv'" "P sv"
    and "\<And>e s s'. P s \<Longrightarrow> server_step e s = Some s' \<Longrightarrow> P s'"
  shows "P sv'"
  using assms(1,2) by (induction es arbitrary: sv) (auto split: Option.bind_splits intro: assms(3))

section \<open>Order and freshness\<close>

text \<open>\<open>sv_log\<close> is the snapshots whose broadcast has begun, the last of which is the latest,
  and then those that wait. A connection's frames are among the former, in their order,
  and without the last one while it is to be sent to it.\<close>

definition begun :: "'f server \<Rightarrow> 'f list \<Rightarrow> bool" where
  "begun sv d \<longleftrightarrow> sv_log sv = d @ sv_waiting sv \<and> d \<noteq> [] \<and> last d = sv_latest sv"

definition pending_of :: "'f server \<Rightarrow> nat set" where
  "pending_of sv = (case sv_sending sv of None \<Rightarrow> {} | Some (_, pending, _) \<Rightarrow> set pending)"

definition dead_of :: "'f server \<Rightarrow> nat set" where
  "dead_of sv = (case sv_sending sv of None \<Rightarrow> {} | Some (_, _, dead) \<Rightarrow> set dead)"

definition in_order :: "'f server \<Rightarrow> 'f list \<Rightarrow> bool" where
  "in_order sv d \<longleftrightarrow>
     (\<forall>c. subseq (frames_of c sv) d) \<and> (\<forall>c \<in> pending_of sv. subseq (frames_of c sv) (butlast d))"

definition server_inv :: "'f server \<Rightarrow> bool" where
  "server_inv sv \<longleftrightarrow>
     set (sv_clients sv) \<union> set (sv_open sv) \<union> pending_of sv \<union> dead_of sv \<union> fst ` set (sv_received sv)
       \<subseteq> {..<sv_next sv}
     \<and> (\<forall>f p q. sv_sending sv = Some (f, p, q) \<longrightarrow> f = sv_latest sv)
     \<and> (\<exists>d. begun sv d \<and> in_order sv d)
     \<and> (\<forall>c \<in> set (sv_clients sv) - pending_of sv - dead_of sv.
          frames_of c sv \<noteq> [] \<and> last (frames_of c sv) = sv_latest sv)"


lemma frames_of_fresh: "c \<notin> fst ` set (sv_received sv) \<Longrightarrow> frames_of c sv = []"
  by (auto simp: frames_of_def image_iff filter_empty_conv)

lemma subseq_butlast_snoc: "subseq xs (butlast d) \<Longrightarrow> d \<noteq> [] \<Longrightarrow> subseq (xs @ [last d]) d"
  by (metis append_butlast_last_id list_emb_append_mono subseq_order.refl)

lemma subseq_butlastD: "subseq xs (butlast d) \<Longrightarrow> subseq xs d"
  by (cases "d = []") (auto dest: list_emb_prefix [where zs = "[last d]"])

lemma server_invI:
  assumes "set (sv_clients sv) \<union> set (sv_open sv) \<union> pending_of sv \<union> dead_of sv
      \<union> fst ` set (sv_received sv) \<subseteq> {..<sv_next sv}"
    and "\<And>f p q. sv_sending sv = Some (f, p, q) \<Longrightarrow> f = sv_latest sv"
    and "begun sv d" "in_order sv d"
    and "\<And>c. c \<in> set (sv_clients sv) \<Longrightarrow> c \<notin> pending_of sv \<Longrightarrow> c \<notin> dead_of sv \<Longrightarrow>
      frames_of c sv \<noteq> [] \<and> last (frames_of c sv) = sv_latest sv"
  shows "server_inv sv"
  unfolding server_inv_def using assms by blast

lemma server_invE:
  assumes "server_inv sv"
  obtains d where "begun sv d" "in_order sv d"
  using assms unfolding server_inv_def by blast

lemma frames_of_simps [simp]:
  "frames_of c (sv_call f sv) = frames_of c sv"
  "frames_of c (sv_disconnect x sv) = frames_of c sv"
  by (simp_all add: frames_of_def sv_call_def sv_disconnect_def)

lemma unchanged_simps [simp]:
  "pending_of (sv_call f sv) = pending_of sv" "pending_of (sv_disconnect x sv) = pending_of sv"
  "pending_of (sv_connect sv) = pending_of sv"
  "dead_of (sv_call f sv) = dead_of sv" "dead_of (sv_disconnect x sv) = dead_of sv"
  "dead_of (sv_connect sv) = dead_of sv"
  "sv_latest (sv_call f sv) = sv_latest sv" "sv_latest (sv_disconnect x sv) = sv_latest sv"
  "sv_latest (sv_connect sv) = sv_latest sv"
  by (simp_all add: pending_of_def dead_of_def sv_call_def sv_disconnect_def sv_connect_def)

lemma server_inv_new: "server_inv (new_server f)"
  by (rule server_invI [where d = "[f]"])
    (simp_all add: new_server_def begun_def in_order_def pending_of_def dead_of_def frames_of_def)

lemma server_inv_call:
  assumes "server_inv sv"
  shows "server_inv (sv_call f sv)"
proof (rule server_invE [OF assms])
  fix d
  assume d: "begun sv d" "in_order sv d"
  have "begun (sv_call f sv) d" using d(1) by (simp add: begun_def sv_call_def)
  moreover have "in_order (sv_call f sv) d" using d(2) by (simp add: in_order_def)
  ultimately show ?thesis
    using assms by (intro server_invI) (auto simp: server_inv_def, auto simp: sv_call_def)
qed

lemma server_inv_acquire:
  assumes "server_inv sv" "sv_acquire sv = Some sv'"
  shows "server_inv sv'"
proof (rule server_invE [OF assms(1)])
  fix d
  assume d: "begun sv d" "in_order sv d"
  obtain f w where s: "sv_sending sv = None" "sv_waiting sv = f # w"
    using assms(2) by (auto simp: sv_acquire_def split: option.splits list.splits)
  let ?sv = "sv\<lparr>sv_waiting := w, sv_latest := f\<rparr>"
  have sv': "sv' = (if sv_clients sv = [] then ?sv else ?sv\<lparr>sv_sending := Some (f, sv_clients sv, [])\<rparr>)"
    using assms(2) by (auto simp: sv_acquire_def s Let_def)
  have fr: "frames_of c sv' = frames_of c sv" for c by (simp add: frames_of_def sv')
  have sets: "pending_of sv = {}" "dead_of sv = {}" "pending_of sv' = set (sv_clients sv)" "dead_of sv' = {}"
    by (simp_all add: pending_of_def dead_of_def s sv')
  have rest: "sv_clients sv' = sv_clients sv" "sv_latest sv' = f" "sv_open sv' = sv_open sv"
    "sv_next sv' = sv_next sv" "sv_received sv' = sv_received sv"
    "\<And>f' p q. sv_sending sv' = Some (f', p, q) \<Longrightarrow> f' = f"
    by (auto simp: sv' s split: if_splits)
  have d': "subseq (frames_of c sv) d" for c using d(2) by (simp add: in_order_def)
  have "begun sv' (d @ [f])" using d(1) by (simp add: begun_def s sv')
  moreover have "in_order sv' (d @ [f])" using d' by (simp add: in_order_def fr list_emb_prefix)
  ultimately show ?thesis
    using assms(1) by (intro server_invI) (auto simp: server_inv_def sets rest)
qed

lemma server_inv_sent:
  assumes "server_inv sv" "sv_sending sv = Some (f, p, q)" "c \<in> set p"
    and "sv' = sv\<lparr>sv_sending := Some (f, removeAll c p, q @ dead),
           sv_received := sv_received sv @ (if sent then [(c, f)] else [])\<rparr>"
    and "dead = [] \<and> sent \<or> dead = [c]"
  shows "server_inv sv'"
proof (rule server_invE [OF assms(1)])
  fix d
  assume d: "begun sv d" "in_order sv d"
  have f: "f = sv_latest sv" using assms(1,2) by (simp add: server_inv_def)
  have fr: "frames_of x sv' = (if x = c \<and> sent then frames_of c sv @ [f] else frames_of x sv)" for x
    by (simp add: frames_of_def assms(4))
  have c: "subseq (frames_of c sv) (butlast d)" using d(2) assms(2,3) by (simp add: in_order_def pending_of_def)
  then have "subseq (frames_of c sv @ [f]) d"
    using d(1) f subseq_butlast_snoc [of "frames_of c sv" d] by (simp add: begun_def)
  moreover have sets: "pending_of sv = set p" "dead_of sv = set q" "pending_of sv' = set p - {c}"
    "dead_of sv' = set q \<union> set dead"
    by (simp_all add: pending_of_def dead_of_def assms(2,4))
  ultimately have "in_order sv' d"
    using d(2) by (simp add: in_order_def fr)
  moreover have "begun sv' d" using d(1) by (simp add: begun_def assms(4))
  moreover have rest: "sv_clients sv' = sv_clients sv" "sv_latest sv' = sv_latest sv"
    "sv_open sv' = sv_open sv" "sv_next sv' = sv_next sv"
    "fst ` set (sv_received sv') \<subseteq> insert c (fst ` set (sv_received sv))"
    "sv_sending sv' = Some (f, removeAll c p, q @ dead)"
    by (auto simp: assms(4))
  moreover have c_old: "c < sv_next sv" using assms(1,3) sets(1) by (auto simp: server_inv_def)
  have old: "fst ` set (sv_received sv') \<subseteq> {..<sv_next sv}"
    using assms(1) c_old by (intro order_trans [OF rest(5)]) (simp add: server_inv_def)
  have "set (sv_clients sv') \<union> set (sv_open sv') \<union> pending_of sv' \<union> dead_of sv'
      \<union> fst ` set (sv_received sv') \<subseteq> {..<sv_next sv'}"
    using assms(1,5) old c_old unfolding server_inv_def sets rest(1-4) by (elim disjE; simp; blast)
  moreover have "frames_of x sv' \<noteq> [] \<and> last (frames_of x sv') = sv_latest sv'"
    if "x \<in> set (sv_clients sv')" "x \<notin> pending_of sv'" "x \<notin> dead_of sv'" for x
  proof (cases "x = c")
    case True
    then have sent using that(3) assms(5) by (auto simp: sets)
    then show ?thesis using True f by (simp add: fr rest(2))
  next
    case False
    then show ?thesis using that assms(1) by (simp add: fr rest server_inv_def sets)
  qed
  ultimately show ?thesis using f by (intro server_invI) auto
qed

lemma server_inv_release:
  assumes "server_inv sv" "sv_release sv = Some sv'"
  shows "server_inv sv'"
proof (rule server_invE [OF assms(1)])
  fix d
  assume d: "begun sv d" "in_order sv d"
  obtain f q where s: "sv_sending sv = Some (f, [], q)"
    "sv' = sv\<lparr>sv_sending := None, sv_clients := filter (\<lambda>c. c \<notin> set q) (sv_clients sv)\<rparr>"
    using assms(2) by (auto simp: sv_release_def split: option.splits list.splits)
  have "begun sv' d" using d(1) by (simp add: begun_def s(2))
  moreover have fr: "frames_of x sv' = frames_of x sv" for x by (simp add: frames_of_def s(2))
  moreover have sets: "pending_of sv = {}" "dead_of sv = set q" "pending_of sv' = {}" "dead_of sv' = {}"
    by (simp_all add: pending_of_def dead_of_def s)
  moreover have "in_order sv' d" using d(2) by (simp add: in_order_def fr sets)
  moreover have "sv_latest sv' = sv_latest sv" "sv_open sv' = sv_open sv" "sv_next sv' = sv_next sv"
    "sv_received sv' = sv_received sv" "sv_clients sv' = filter (\<lambda>c. c \<notin> set q) (sv_clients sv)"
    "sv_sending sv' = None"
    by (simp_all add: s(2))
  ultimately show ?thesis
    using assms(1) by (intro server_invI) (auto simp: server_inv_def)
qed

lemma server_inv_connect:
  assumes "server_inv sv"
  shows "server_inv (sv_connect sv)"
proof (rule server_invE [OF assms])
  fix d
  assume d: "begun sv d" "in_order sv d"
  let ?n = "sv_next sv"
  have sub: "pending_of sv \<subseteq> {..<?n}" "dead_of sv \<subseteq> {..<?n}" "fst ` set (sv_received sv) \<subseteq> {..<?n}"
    using assms by (simp_all add: server_inv_def)
  then have new: "frames_of ?n sv = []" "?n \<notin> pending_of sv" "?n \<notin> dead_of sv"
    by (blast intro: frames_of_fresh)+
  have fr: "frames_of x (sv_connect sv) = (if x = ?n then [sv_latest sv] else frames_of x sv)" for x
    using new(1) by (simp add: frames_of_def sv_connect_def)
  have "subseq [sv_latest sv] d"
    using d(1) by (simp add: begun_def subseq_singleton_left) (metis last_in_set)
  then have "in_order (sv_connect sv) d" using d(2) new(2) by (simp add: in_order_def fr)
  moreover have "begun (sv_connect sv) d" using d(1) by (simp add: begun_def sv_connect_def)
  moreover have "set (sv_clients (sv_connect sv)) \<union> set (sv_open (sv_connect sv)) \<union> pending_of sv
      \<union> dead_of sv \<union> fst ` set (sv_received (sv_connect sv)) \<subseteq> {..<sv_next (sv_connect sv)}"
    using assms by (auto simp: server_inv_def sv_connect_def)
  ultimately show ?thesis
    using assms new by (intro server_invI) (auto simp: server_inv_def fr, auto simp: sv_connect_def)
qed

lemma server_inv_disconnect:
  assumes "server_inv sv"
  shows "server_inv (sv_disconnect c sv)"
proof (rule server_invE [OF assms])
  fix d
  assume d: "begun sv d" "in_order sv d"
  have "begun (sv_disconnect c sv) d" using d(1) by (simp add: begun_def sv_disconnect_def)
  moreover have "in_order (sv_disconnect c sv) d" using d(2) by (simp add: in_order_def)
  ultimately show ?thesis
    using assms by (intro server_invI) (auto simp: server_inv_def, auto simp: sv_disconnect_def)
qed

lemma server_inv_step:
  assumes "server_inv sv" "server_step e sv = Some sv'"
  shows "server_inv sv'"
proof (cases e)
  case (Deliver c)
  then obtain f p q where "sv_sending sv = Some (f, p, q)" "c \<in> set p"
    "sv' = sv\<lparr>sv_sending := Some (f, removeAll c p, q), sv_received := sv_received sv @ [(c, f)]\<rparr>"
    using assms(2) by (auto simp: sv_deliver_def split: option.splits if_splits)
  then show ?thesis by (intro server_inv_sent [OF assms(1), where dead = "[]" and sent = True]) auto
next
  case (Fail c sent)
  then obtain f p q where "sv_sending sv = Some (f, p, q)" "c \<in> set p"
    "sv' = sv\<lparr>sv_sending := Some (f, removeAll c p, q @ [c]),
       sv_received := sv_received sv @ (if sent then [(c, f)] else [])\<rparr>"
    using assms(2) by (auto simp: sv_fail_def split: option.splits if_splits)
  then show ?thesis by (intro server_inv_sent [OF assms(1)]) auto
qed (use assms in \<open>auto intro: server_inv_call server_inv_acquire server_inv_release server_inv_connect
      server_inv_disconnect\<close>)

lemma server_inv_run: "server_run es (new_server f) = Some sv \<Longrightarrow> server_inv sv"
  by (erule server_run_induct [where P = server_inv]) (auto intro: server_inv_new server_inv_step)

lemma subscribers_are_open:
  assumes "server_run es (new_server f) = Some sv"
  shows "set (sv_clients sv) \<subseteq> set (sv_open sv) \<and> distinct (sv_clients sv)"
proof -
  let ?P = "\<lambda>sv. server_inv sv \<and> (\<forall>c \<in> set (sv_clients sv). c \<in> set (sv_open sv)) \<and> distinct (sv_clients sv)"
  have "?P sv"
    using assms
  proof (rule server_run_induct)
    show "?P (new_server f)" using server_inv_new by (simp add: new_server_def)
  next
    fix e and s s' :: "'a server"
    assume i: "?P s" and e: "server_step e s = Some s'"
    have "sv_next s \<notin> set (sv_clients s)" using i by (auto simp: server_inv_def)
    then have "(\<forall>c \<in> set (sv_clients s'). c \<in> set (sv_open s')) \<and> distinct (sv_clients s')"
      using i e
      by (cases e) (auto simp: sv_call_def sv_connect_def sv_disconnect_def sv_acquire_def
          sv_deliver_def sv_fail_def sv_release_def Let_def distinct_removeAll
          split: option.splits list.splits if_splits)
    then show "?P s'" using i e server_inv_step by blast
  qed
  then show ?thesis by blast
qed

section \<open>Every broadcast ends\<close>

text \<open>Each send ends, if need be by its time-out, and then the lock is free: the broadcasts
  that wait all come to their end.\<close>

definition busy :: "'f server \<Rightarrow> nat" where
  "busy sv = 2 * length (sv_waiting sv) + (if sv_sending sv = None then 0 else 1)"

lemma sends_end:
  assumes "sv_sending sv = Some (f, pending, dead)"
  shows "\<exists>es sv'. server_run es sv = Some sv' \<and> sv_sending sv' = None
    \<and> sv_waiting sv' = sv_waiting sv \<and> sv_latest sv' = sv_latest sv"
  using assms
proof (induction "length pending" arbitrary: sv pending dead rule: less_induct)
  case less
  show ?case
  proof (cases pending)
    case Nil
    let ?sv = "sv\<lparr>sv_sending := None, sv_clients := filter (\<lambda>c. c \<notin> set dead) (sv_clients sv)\<rparr>"
    have "server_run [Release] sv = Some ?sv"
      using less.prems by (simp add: sv_release_def Nil)
    then show ?thesis by (intro exI [of _ "[Release]"] exI [of _ ?sv]) simp
  next
    case (Cons c cs)
    let ?sv = "sv\<lparr>sv_sending := Some (f, removeAll c cs, dead @ [c])\<rparr>"
    have s: "server_step (Fail c False) sv = Some ?sv"
      using less.prems by (simp add: sv_fail_def Cons)
    have "length (removeAll c cs) < length pending"
      by (simp add: Cons removeAll_filter_not_eq less_Suc_eq_le)
    from less.hyps [OF this, of ?sv] obtain es sv' where
      "server_run es ?sv = Some sv'" "sv_sending sv' = None" "sv_waiting sv' = sv_waiting ?sv"
      "sv_latest sv' = sv_latest ?sv" by auto
    then show ?thesis using s by (intro exI [of _ "Fail c False # es"] exI [of _ sv']) simp
  qed
qed

lemma broadcasts_end:
  "\<exists>es sv'. server_run es sv = Some sv' \<and> sv_sending sv' = None \<and> sv_waiting sv' = []
     \<and> sv_latest sv' = last (sv_latest sv # sv_waiting sv)"
proof (induction "busy sv" arbitrary: sv rule: less_induct)
  case less
  show ?case
  proof (cases "sv_sending sv")
    case (Some x)
    obtain f p q where x: "x = (f, p, q)" by (cases x)
    obtain es sv1 where 1: "server_run es sv = Some sv1" "sv_sending sv1 = None"
      "sv_waiting sv1 = sv_waiting sv" "sv_latest sv1 = sv_latest sv"
      using sends_end [OF Some [unfolded x]] by blast
    then have "busy sv1 < busy sv" by (simp add: busy_def Some)
    from less.hyps [OF this] 1 show ?thesis by (metis server_run_append Option.bind.bind_lunit)
  next
    case None
    show ?thesis
    proof (cases "sv_waiting sv")
      case Nil
      then show ?thesis using None by (intro exI [of _ "[]"] exI [of _ sv]) simp
    next
      case (Cons f w)
      obtain sv1 where 1: "server_step Acquire sv = Some sv1" "sv_waiting sv1 = w" "sv_latest sv1 = f"
        using None Cons by (simp add: sv_acquire_def Let_def)
      then have "busy sv1 < busy sv" by (simp add: busy_def None Cons)
      from less.hyps [OF this] obtain es sv' where
        "server_run es sv1 = Some sv'" "sv_sending sv' = None" "sv_waiting sv' = []"
        "sv_latest sv' = last (f # w)" using 1 by auto
      then show ?thesis using 1 Cons by (intro exI [of _ "Acquire # es"] exI [of _ sv']) simp
    qed
  qed
qed

section \<open>A broadcast by itself\<close>

text \<open>When nothing else happens, the steps of a broadcast make the single step of \<open>Broker\<close>.\<close>

definition matches :: "raw_snap option server \<Rightarrow> push \<Rightarrow> bool" where
  "matches sv ps \<longleftrightarrow> sv_clients sv = ps_clients ps \<and> sv_latest sv = ps_latest ps
     \<and> sv_received sv = ps_sent ps \<and> sv_sending sv = None \<and> sv_waiting sv = []"

definition send_event :: "nat list \<Rightarrow> nat \<Rightarrow> 'f server_event" where
  "send_event stalled c = (if c \<in> set stalled then Fail c False else Deliver c)"

lemma sends_alone:
  assumes "sv_sending sv = Some (f, cs, dead)" "distinct cs" "set cs \<subseteq> set (sv_open sv)"
  shows "server_run (map (send_event stalled) cs) sv
    = Some (sv\<lparr>sv_sending := Some (f, [], dead @ filter (\<lambda>c. c \<in> set stalled) cs),
        sv_received := sv_received sv
          @ map (\<lambda>c. (c, f)) (filter (\<lambda>c. c \<notin> set stalled) cs)\<rparr>)"
  using assms
proof (induction cs arbitrary: sv dead)
  case (Cons c cs)
  have r: "removeAll c cs = cs" using Cons.prems(2) by simp
  show ?case
  proof (cases "c \<in> set stalled")
    case True
    let ?sv = "sv\<lparr>sv_sending := Some (f, cs, dead @ [c])\<rparr>"
    have "server_step (send_event stalled c) sv = Some ?sv"
      using Cons.prems r True by (simp add: send_event_def sv_fail_def)
    then show ?thesis
      using Cons.IH [of ?sv "dead @ [c]"] Cons.prems(2,3) True by simp
  next
    case False
    let ?sv = "sv\<lparr>sv_sending := Some (f, cs, dead), sv_received := sv_received sv @ [(c, f)]\<rparr>"
    have "server_step (send_event stalled c) sv = Some ?sv"
      using Cons.prems r False by (simp add: send_event_def sv_deliver_def)
    then show ?thesis
      using Cons.IH [of ?sv dead] Cons.prems(2,3) False by simp
  qed
qed simp

lemma broadcast_alone:
  assumes "matches sv ps" "distinct (sv_clients sv)" "set (sv_clients sv) \<subseteq> set (sv_open sv)"
  shows "\<exists>es sv'. server_run es sv = Some sv' \<and> matches sv' (broadcast st ps)"
proof (cases "ps_clients ps = []")
  case True
  let ?es = "[Call (Some st), Acquire]"
  have "server_run ?es sv = Some (sv\<lparr>sv_waiting := [], sv_log := sv_log sv @ [Some st], sv_latest := Some st\<rparr>)"
    using assms(1) True by (simp add: matches_def sv_call_def sv_acquire_def)
  then show ?thesis
    using assms(1) True by (intro exI [of _ ?es] exI conjI) (auto simp: matches_def broadcast_def)
next
  case False
  let ?es = "[Call (Some st), Acquire] @ map (send_event (ps_stalled ps)) (sv_clients sv) @ [Release]"
  let ?sv = "sv\<lparr>sv_waiting := [], sv_log := sv_log sv @ [Some st], sv_latest := Some st,
    sv_sending := Some (Some st, sv_clients sv, [])\<rparr>"
  have 1: "server_run [Call (Some st), Acquire] sv = Some ?sv"
    using assms(1) False by (simp add: matches_def sv_call_def sv_acquire_def)
  have 2: "server_run (map (send_event (ps_stalled ps)) (sv_clients sv)) ?sv
    = Some (?sv\<lparr>sv_sending := Some (Some st, [], filter (\<lambda>c. c \<in> set (ps_stalled ps)) (sv_clients sv)),
        sv_received := sv_received sv
          @ map (\<lambda>c. (c, Some st)) (filter (\<lambda>c. c \<notin> set (ps_stalled ps)) (sv_clients sv))\<rparr>)"
    using sends_alone [of ?sv "Some st" "sv_clients sv" "[]" "ps_stalled ps"] assms(2,3) by simp
  have f: "filter (\<lambda>c. c \<in> set cs \<longrightarrow> c \<notin> set xs) cs = filter (\<lambda>c. c \<notin> set xs) cs" for cs xs :: "nat list"
    by (rule filter_cong) auto
  have "server_run ?es sv = server_run [Release] (?sv
      \<lparr>sv_sending := Some (Some st, [], filter (\<lambda>c. c \<in> set (ps_stalled ps)) (sv_clients sv)),
        sv_received := sv_received sv
          @ map (\<lambda>c. (c, Some st)) (filter (\<lambda>c. c \<notin> set (ps_stalled ps)) (sv_clients sv))\<rparr>)"
    by (simp only: server_run_append 1 2 Option.bind.bind_lunit)
  then show ?thesis
    using assms(1) False
    by (intro exI [of _ ?es]) (simp add: sv_release_def matches_def broadcast_def f)
qed

section \<open>A dropped subscriber\<close>

lemma starved_step:
  assumes "server_step e sv = Some sv'" "c < sv_next sv" "c \<notin> set (sv_clients sv)" "c \<notin> pending_of sv"
  shows "c < sv_next sv' \<and> c \<notin> set (sv_clients sv') \<and> c \<notin> pending_of sv'
    \<and> frames_of c sv' = frames_of c sv
    \<and> (e \<noteq> Disconnect c \<longrightarrow> c \<in> set (sv_open sv) \<longrightarrow> c \<in> set (sv_open sv'))"
  using assms
  by (cases e) (auto simp: sv_call_def sv_acquire_def sv_deliver_def sv_fail_def sv_release_def
      sv_connect_def sv_disconnect_def pending_of_def frames_of_def Let_def
      split: option.splits list.splits if_splits)

lemma starved_run:
  assumes "server_run es sv = Some sv'" "c < sv_next sv" "c \<notin> set (sv_clients sv)" "c \<notin> pending_of sv"
  shows "c \<notin> set (sv_clients sv') \<and> frames_of c sv' = frames_of c sv
    \<and> (Disconnect c \<notin> set es \<longrightarrow> c \<in> set (sv_open sv) \<longrightarrow> c \<in> set (sv_open sv'))"
  using assms
proof (induction es arbitrary: sv)
  case (Cons e es)
  then obtain s where s: "server_step e sv = Some s" "server_run es s = Some sv'"
    by (auto split: Option.bind_splits)
  from starved_step [OF s(1) Cons.prems(2-4)] Cons.IH [OF s(2)] show ?case by auto
qed simp

section \<open>Properties\<close>

text \<open>C19: Subscribers are served in order. However the broadcasts of the poll loop and of the
  commands overlap, whatever sends are slow, fail or time out, and whoever connects or
  leaves meanwhile: the frames sent on a connection are snapshots in the order in which
  their broadcasts were asked for, none twice, so no older snapshot ever follows a newer
  one; and whenever no broadcast is under way, each subscriber was last sent the newest.
  And every broadcast under way can come to its end without the help of any subscriber.\<close>

theorem subscribers_in_order:
  assumes "server_run es (new_server initial) = Some sv"
  shows "subseq (frames_of c sv) (sv_log sv)
    \<and> (sv_sending sv = None \<and> sv_waiting sv = [] \<and> c \<in> set (sv_clients sv) \<longrightarrow>
         frames_of c sv \<noteq> [] \<and> last (frames_of c sv) = last (sv_log sv))
    \<and> (\<exists>ends sv'. server_run ends sv = Some sv' \<and> sv_sending sv' = None \<and> sv_waiting sv' = []
         \<and> sv_latest sv' = last (sv_log sv))"
proof (rule server_invE [OF server_inv_run [OF assms]])
  fix d
  assume d: "begun sv d" "in_order sv d"
  have "subseq (frames_of c sv) (d @ sv_waiting sv)"
    using d(2) by (intro list_emb_prefix) (simp add: in_order_def)
  moreover have "last (sv_log sv) = last (sv_latest sv # sv_waiting sv)"
    using d(1) by (auto simp: begun_def)
  moreover have "frames_of c sv \<noteq> [] \<and> last (frames_of c sv) = sv_latest sv"
    if "sv_sending sv = None" "c \<in> set (sv_clients sv)"
    using server_inv_run [OF assms] that by (simp add: server_inv_def pending_of_def dead_of_def)
  ultimately show ?thesis
    using d(1) broadcasts_end [of sv] by (auto simp: begun_def)
qed

text \<open>Two broadcasts overlap while a second subscriber connects and the first is slow.\<close>

theorem subscribers_in_order_witness:
  "\<exists>sv. server_run [Connect, Call 1, Acquire, Call 2, Connect, Deliver 0, Release, Acquire,
       Deliver 1, Fail 0 True, Release] (new_server (0 :: nat)) = Some sv
     \<and> frames_of 0 sv = [0, 1, 2] \<and> frames_of 1 sv = [1, 2] \<and> subseq (frames_of 1 sv) (sv_log sv)"
proof -
  let ?es = "[Connect, Call 1, Acquire, Call 2, Connect, Deliver 0, Release, Acquire,
       Deliver 1, Fail 0 True, Release]"
  define sv where "sv = the (server_run ?es (new_server (0 :: nat)))"
  have r: "server_run ?es (new_server 0) = Some sv" unfolding sv_def by code_simp
  have "frames_of 0 sv = [0, 1, 2]" "frames_of 1 sv = [1, 2]" unfolding sv_def by code_simp+
  then show ?thesis using r subscribers_in_order [OF r, of 1] by blast
qed

text \<open>C38: A subscriber that is dropped is not told. Once a broadcast ends for which the send to a
  connection failed, that connection is no subscriber any more: it is sent no further
  frame, whatever happens, but it stays open until its other end closes it. A send fails
  after one second.\<close>

theorem dropped_subscriber_starves:
  assumes "server_run es (new_server initial) = Some sv" "sv_sending sv = Some (f, [], dead)"
    and "c \<in> set dead" "c \<in> set (sv_open sv)" "server_run (Release # later) sv = Some sv'"
  shows "c \<notin> set (sv_clients sv') \<and> frames_of c sv' = frames_of c sv
    \<and> (Disconnect c \<notin> set later \<longrightarrow> c \<in> set (sv_open sv'))"
proof -
  let ?sv = "sv\<lparr>sv_sending := None, sv_clients := filter (\<lambda>c. c \<notin> set dead) (sv_clients sv)\<rparr>"
  have later: "server_run later ?sv = Some sv'" using assms(2,5) by (simp add: sv_release_def)
  have "c < sv_next ?sv" using server_inv_run [OF assms(1)] assms(4) by (auto simp: server_inv_def)
  from starved_run [OF later this] assms(3,4) show ?thesis
    by (simp add: pending_of_def frames_of_def)
qed

theorem dropped_subscriber_starves_witness:
  "\<exists>sv sv'. server_run [Connect, Call 1, Acquire, Fail 0 False] (new_server (0 :: nat)) = Some sv
     \<and> server_run (Release # [Call 2, Acquire, Call 3, Acquire]) sv = Some sv'
     \<and> frames_of 0 sv' = [0] \<and> sv_latest sv' = 3 \<and> 0 \<in> set (sv_open sv')"
proof -
  let ?es = "[Connect, Call 1, Acquire, Fail 0 False]"
  let ?more = "[Call 2, Acquire, Call 3, Acquire]"
  define sv where "sv = the (server_run ?es (new_server (0 :: nat)))"
  define sv' where "sv' = the (server_run (Release # ?more) sv)"
  have r: "server_run ?es (new_server 0) = Some sv" unfolding sv_def by code_simp
  have r': "server_run (Release # ?more) sv = Some sv'" unfolding sv'_def sv_def by code_simp
  have s: "sv_sending sv = Some (1, [], [0])" unfolding sv_def by code_simp
  have "0 \<in> set (sv_open sv)" "frames_of 0 sv = [0]" unfolding sv_def by code_simp+
  moreover have "sv_latest sv' = 3" unfolding sv'_def sv_def by code_simp
  moreover have "Disconnect 0 \<notin> set ?more" by simp
  ultimately show ?thesis
    using r r' dropped_subscriber_starves [OF r s _ _ r', of 0] by auto
qed

end
