(* ===== verification/Discovery.thy ===== *)
theory Discovery
  imports Broker
begin

text \<open>
  MQTT Discovery, \<open>bridge/r60v_broker/mqtt_bridge.py\<close>: the documents that announce the
  bridge's entities and thermostats, and their publication. What \<open>json.dumps\<close> makes of a
  document is an argument. The lemmas compare what a document offers, its topics, options,
  pattern and limits, with what the broker's codecs and routing do.
\<close>

section \<open>The documents\<close>

definition device_doc :: "config \<Rightarrow> string \<Rightarrow> json" where
  "device_doc c sw_version =
     JObj ([(''identifiers'', JList [JStr (cf_device_id c)]), (''name'', JStr (cf_device_name c)),
            (''manufacturer'', JStr ''Rocket Espresso''), (''model'', JStr ''R60V'')]
           @ (if sw_version \<noteq> [] then [(''sw_version'', JStr sw_version)] else []))"

text \<open>\<open>dict.update\<close>.\<close>

definition dict_update :: "(string \<times> json) list \<Rightarrow> (string \<times> json) list \<Rightarrow> (string \<times> json) list" where
  "dict_update new d = fold (\<lambda>(k, v). AList.update k v) new d"

definition build_discovery_payload :: "entity \<Rightarrow> config \<Rightarrow> string \<Rightarrow> (string \<times> json) list" where
  "build_discovery_payload e c sw_version =
     dict_update (en_config e)
       ([(''name'', JStr (en_name e)), (''unique_id'', JStr (unique_id c (en_key e))),
         (''object_id'', JStr (cf_device_id c @ ''_'' @ en_key e)),
         (''state_topic'', JStr (state_topic c (en_key e))),
         (''availability_topic'', JStr (availability_topic c)),
         (''payload_available'', JStr ''online''), (''payload_not_available'', JStr ''offline''),
         (''device'', device_doc c sw_version)]
        @ (if en_component e = ''switch''
           then [(''payload_on'', JStr ''ON''), (''payload_off'', JStr ''OFF'')] else [])
        @ (if en_writable e then [(''command_topic'', JStr (command_topic c (en_key e)))] else []))"

definition build_climate_discovery_payload ::
    "climate_entity \<Rightarrow> config \<Rightarrow> string \<Rightarrow> (string \<times> json) list" where
  "build_climate_discovery_payload cl c sw_version =
     dict_update (cl_config cl)
       [(''name'', JStr (cl_name cl)), (''unique_id'', JStr (unique_id c (cl_key cl))),
        (''object_id'', JStr (cf_device_id c @ ''_'' @ cl_key cl)),
        (''availability_topic'', JStr (availability_topic c)),
        (''payload_available'', JStr ''online''), (''payload_not_available'', JStr ''offline''),
        (''current_temperature_topic'', JStr (climate_current_topic c (cl_key cl))),
        (''temperature_state_topic'', JStr (climate_target_state_topic c (cl_key cl))),
        (''temperature_command_topic'', JStr (climate_target_command_topic c (cl_key cl))),
        (''mode_state_topic'', JStr (climate_mode_topic c (cl_key cl))),
        (''modes'', JList [JStr ''heat'']),
        (''min_temp'', JInt (cl_min_temp cl)), (''max_temp'', JInt (cl_max_temp cl)),
        (''temp_step'', JInt (cl_temp_step cl)), (''temperature_unit'', JStr ''C''),
        (''device'', device_doc c sw_version)]"

definition publish_discovery :: "(json \<Rightarrow> string) \<Rightarrow> config \<Rightarrow> string \<Rightarrow> mqtt \<Rightarrow> mqtt" where
  "publish_discovery dumps c sw_version q =
     (let q = fold (\<lambda>e. mq_publish (discovery_topic c (en_component e) (en_key e))
                          (dumps (JObj (build_discovery_payload e c sw_version)))) ENTITIES q
      in fold (\<lambda>cl. mq_publish (discovery_topic c ''climate'' (cl_key cl))
                       (dumps (JObj (build_climate_discovery_payload cl c sw_version))))
           CLIMATE_ENTITIES q)"

text \<open>The last will that \<open>_make_client\<close> registers: published by the server, retained, when
  the connection is lost.\<close>

definition last_will :: "config \<Rightarrow> string \<times> string" where
  "last_will c = (availability_topic c, ''offline'')"

section \<open>What a document offers\<close>

text \<open>The texts matched by \<open>TIME_PATTERN\<close>.\<close>

fun hhmm_text :: "string \<Rightarrow> bool" where
  "hhmm_text [a, b, c, d, e] \<longleftrightarrow>
     (a \<in> {CHR ''0'', CHR ''1''} \<and> is_digit b \<or> a = CHR ''2'' \<and> b \<in> {CHR ''0'', CHR ''1'', CHR ''2'', CHR ''3''})
     \<and> c = CHR '':'' \<and> d \<in> set ''012345'' \<and> is_digit e"
| "hhmm_text _ \<longleftrightarrow> False"

text \<open>What Home Assistant may send for an announced entity: an option of a select, a text of
  the pattern, or one of a switch's two payloads.\<close>

definition offered :: "(string \<times> json) list \<Rightarrow> string \<Rightarrow> bool" where
  "offered doc payload \<longleftrightarrow>
     (case map_of doc ''options'' of
        Some (JList opts) \<Rightarrow> JStr payload \<in> set opts
      | _ \<Rightarrow>
          (case map_of doc ''pattern'' of
             Some pat \<Rightarrow> pat = JStr TIME_PATTERN \<and> hhmm_text payload
           | None \<Rightarrow> Some (JStr payload) \<in> {map_of doc ''payload_on'', map_of doc ''payload_off''}))"

lemma map_of_dict_update:
  "distinct (map fst new) \<Longrightarrow>
     map_of (dict_update new d) k = (case map_of new k of Some v \<Rightarrow> Some v | None \<Rightarrow> map_of d k)"
proof (induction new arbitrary: d)
  case (Cons p new)
  obtain a b where p: "p = (a, b)" by (cases p)
  have "map_of new a = None" using Cons.prems by (simp add: p map_of_eq_None_iff)
  then show ?case
    using Cons by (auto simp: p dict_update_def AList.update_conv' split: option.split)
qed (simp add: dict_update_def)

section \<open>An offered command is shown as it was sent\<close>

definition echoed :: "(snapshot \<Rightarrow> pyval res) \<Rightarrow> (string \<Rightarrow> write_op res) \<Rightarrow> snapshot \<Rightarrow> string \<Rightarrow> bool" where
  "echoed dec enc s payload \<longleftrightarrow>
     (\<exists>w. enc payload = Inr w \<and> dec (written s w) = Inr (VStr payload))"

lemma echoed_enum:
  assumes "p \<in> set opts" "length (sn_settings s) = nat SETTINGS_LEN"
    and "0 \<le> a" "a < SETTINGS_LEN" "distinct opts" "length opts \<le> 256"
  shows "echoed (dec_enum a opts) (encode_enum a opts) s p"
proof -
  obtain i where i: "i < length opts" "p = opts ! i" using assms(1) by (auto simp: in_set_conv_nth)
  have "is_byte (int i)" using i(1) assms(6) by (simp add: is_byte_def)
  moreover have "settings_byte (written s (a, [int i])) a = int i AND 255"
    using assms(2-4) by (simp add: settings_byte_written SETTINGS_LEN_def)
  ultimately have "dec_enum a opts (written s (a, [int i])) = Inr (VStr p)"
    using i by (simp add: dec_enum_def)
  then show ?thesis
    using encode_enum_option [OF i(1) assms(5)] by (auto simp: echoed_def i(2))
qed

lemma echoed_bool:
  assumes "p \<in> {''ON'', ''OFF''}" "length (sn_settings s) = nat SETTINGS_LEN"
  shows "echoed dec_power (encode_bool STANDBY 0 1) s p"
    and "echoed dec_service (encode_bool SERVICE_BOILER_ENABLE 1 0) s p"
proof -
  have e: "encode_bool STANDBY 0 1 ''ON'' = Inr (STANDBY, [0])"
    "encode_bool STANDBY 0 1 ''OFF'' = Inr (STANDBY, [1])"
    "encode_bool SERVICE_BOILER_ENABLE 1 0 ''ON'' = Inr (SERVICE_BOILER_ENABLE, [1])"
    "encode_bool SERVICE_BOILER_ENABLE 1 0 ''OFF'' = Inr (SERVICE_BOILER_ENABLE, [0])"
    by code_simp+
  have d: "dec_power (written s (STANDBY, [0])) = Inr (VStr ''ON'')"
    "dec_power (written s (STANDBY, [1])) = Inr (VStr ''OFF'')"
    "dec_service (written s (SERVICE_BOILER_ENABLE, [1])) = Inr (VStr ''ON'')"
    "dec_service (written s (SERVICE_BOILER_ENABLE, [0])) = Inr (VStr ''OFF'')"
    using assms(2)
    by (simp_all add: dec_power_def dec_service_def settings_byte_written address_defs)
  show "echoed dec_power (encode_bool STANDBY 0 1) s p"
    using assms(1) e(1,2) d(1,2) unfolding echoed_def by blast
  show "echoed dec_service (encode_bool SERVICE_BOILER_ENABLE 1 0) s p"
    using assms(1) e(3,4) d(3,4) unfolding echoed_def by blast
qed

lemma is_digit_char:
  assumes "is_digit c"
  obtains k where "k < 10" "c = digit_char k" "code c = 48 + k"
proof (rule that)
  show "code c - 48 < 10" using assms by (auto simp: is_digit_def)
  show "code c = 48 + (code c - 48)" using assms by (auto simp: is_digit_def)
  have "digit_char (code c - 48) = char_of (code c)"
    using assms by (auto simp: is_digit_def digit_char_def)
  then show "c = digit_char (code c - 48)" by (simp add: code_def)
qed

lemma fmt_two:
  assumes "x < 10" "y < 10"
  shows "fmt_int 10 2 (int (10 * x + y)) = [digit_char x, digit_char y]"
proof -
  have d: "digits_of 10 y = [y]" "digits_of 10 x = [x]"
    using assms by (simp_all add: digits_of.simps [of 10])
  have "digits_of 10 (10 * x + y) = (if x = 0 then [y] else [x, y])"
  proof (cases "x = 0")
    case False
    then have "\<not> 10 * x + y < 10" "(10 * x + y) div 10 = x" "(10 * x + y) mod 10 = y"
      using assms by auto
    then show ?thesis using d False by (subst digits_of.simps) simp
  qed (simp add: d)
  then show ?thesis by (simp add: fmt_int_digits nat_int numeral_2_eq_2 del: of_nat_add of_nat_mult)
qed

lemma hhmm_text_time:
  assumes "hhmm_text p"
  obtains h m where "p = fmt_int 10 2 h @ '':'' @ fmt_int 10 2 m" "0 \<le> h" "h \<le> 23" "0 \<le> m" "m \<le> 59"
proof -
  obtain a b d e where p: "p = [a, b, CHR '':'', d, e]"
    and ab: "is_digit a" "is_digit b" "code a \<le> 49 \<or> code a = 50 \<and> code b \<le> 51"
    and de: "is_digit d" "is_digit e" "code d \<le> 53"
    using assms by (cases p rule: hhmm_text.cases) (auto simp: is_digit_def code_def)
  obtain x y where x: "x < 10" "a = digit_char x" "code a = 48 + x"
    and y: "y < 10" "b = digit_char y" "code b = 48 + y"
    using ab by (meson is_digit_char)
  obtain u v where u: "u < 10" "d = digit_char u" "code d = 48 + u"
    and v: "v < 10" "e = digit_char v" "code e = 48 + v"
    using de by (meson is_digit_char)
  show thesis
  proof (rule that [of "int (10 * x + y)" "int (10 * u + v)"])
    show "p = fmt_int 10 2 (int (10 * x + y)) @ '':'' @ fmt_int 10 2 (int (10 * u + v))"
      by (simp only: fmt_two [OF x(1) y(1)] fmt_two [OF u(1) v(1)] p x(2) y(2) u(2) v(2) append.simps)
    show "int (10 * x + y) \<le> 23" "int (10 * u + v) \<le> 59"
      using ab(3) de(3) x y u v by auto
  qed auto
qed

lemma echoed_time:
  assumes "hhmm_text p" "length (sn_settings s) = nat SETTINGS_LEN" "0 \<le> a" "a + 1 < SETTINGS_LEN"
  shows "echoed (dec_time a (a + 1)) (encode_time a) s p"
proof -
  obtain h m where p: "p = fmt_int 10 2 h @ '':'' @ fmt_int 10 2 m"
    and hm: "0 \<le> h" "h \<le> 23" "0 \<le> m" "m \<le> 59"
    using assms(1) by (rule hhmm_text_time)
  have b: "is_byte h" "is_byte m" using hm by (simp_all add: is_byte_def)
  have "settings_byte (written s (a, [h, m])) a = h AND 255"
    "settings_byte (written s (a, [h, m])) (a + 1) = m AND 255"
    using assms(2-4) by (simp_all add: settings_byte_written SETTINGS_LEN_def)
  then have "dec_time a (a + 1) (written s (a, [h, m])) = Inr (VStr p)"
    using b by (simp add: dec_time_def p)
  then show ?thesis using encode_time_canonical [OF hm] by (auto simp: echoed_def p)
qed

section \<open>The documents of the two tables\<close>

definition entity_doc_keys :: "string list" where
  "entity_doc_keys = [''name'', ''unique_id'', ''object_id'', ''state_topic'', ''availability_topic'',
     ''payload_available'', ''payload_not_available'', ''device'', ''payload_on'', ''payload_off'',
     ''command_topic'']"

lemma entity_configs:
  assumes "e \<in> set ENTITIES"
  shows "distinct (map fst (en_config e))"
    and "set (map fst (en_config e)) \<inter> set entity_doc_keys = {}"
proof -
  have "list_all (\<lambda>k. distinct (map fst k) \<and> list_all (\<lambda>x. x \<notin> set entity_doc_keys) (map fst k))
      (map en_config ENTITIES)"
    by code_simp
  then have "distinct (map fst (en_config e)) \<and> (\<forall>x \<in> set (map fst (en_config e)). x \<notin> set entity_doc_keys)"
    using assms by (simp only: list_all_iff set_map) blast
  then show "distinct (map fst (en_config e))"
    "set (map fst (en_config e)) \<inter> set entity_doc_keys = {}" by auto
qed

lemma doc_fields:
  fixes c :: config and sw :: string
  assumes "e \<in> set ENTITIES"
  defines "doc \<equiv> build_discovery_payload e c sw"
  shows "map_of doc ''state_topic'' = Some (JStr (state_topic c (en_key e)))"
    and "map_of doc ''command_topic'' =
      (if en_writable e then Some (JStr (command_topic c (en_key e))) else None)"
    and "map_of doc ''options'' = map_of (en_config e) ''options''"
    and "map_of doc ''pattern'' = map_of (en_config e) ''pattern''"
    and "map_of doc ''payload_on'' = (if en_component e = ''switch'' then Some (JStr ''ON'') else None)"
    and "map_of doc ''payload_off'' = (if en_component e = ''switch'' then Some (JStr ''OFF'') else None)"
proof -
  have none: "map_of (en_config e) k = None" if "k \<in> set entity_doc_keys" for k
    using entity_configs(2) [OF assms(1)] that by (auto simp: map_of_eq_None_iff)
  have n: "map_of (en_config e) ''state_topic'' = None" "map_of (en_config e) ''command_topic'' = None"
    "map_of (en_config e) ''payload_on'' = None" "map_of (en_config e) ''payload_off'' = None"
    by (simp_all add: none entity_doc_keys_def)
  note doc = map_of_dict_update [OF entity_configs(1) [OF assms(1)]] doc_def build_discovery_payload_def
  show "map_of doc ''state_topic'' = Some (JStr (state_topic c (en_key e)))"
    "map_of doc ''command_topic'' =
      (if en_writable e then Some (JStr (command_topic c (en_key e))) else None)"
    "map_of doc ''payload_on'' = (if en_component e = ''switch'' then Some (JStr ''ON'') else None)"
    "map_of doc ''payload_off'' = (if en_component e = ''switch'' then Some (JStr ''OFF'') else None)"
    by (simp_all add: doc n)
  show "map_of doc ''options'' = map_of (en_config e) ''options''"
    "map_of doc ''pattern'' = map_of (en_config e) ''pattern''"
    by (simp_all add: doc split: option.split)
qed

lemma writable_tables:
  "map (\<lambda>e. (en_component e, map_of (en_config e) ''options'', map_of (en_config e) ''pattern'',
             en_decode e, en_encode e)) (filter en_writable ENTITIES) =
   [(''switch'', None, None, dec_power, Some (encode_bool STANDBY 0 1)),
    (''switch'', None, None, dec_service, Some (encode_bool SERVICE_BOILER_ENABLE 1 0)),
    (''select'', Some (JList (map JStr PROFILE_OPTIONS)), None,
      dec_enum ACTIVE_PROFILE PROFILE_OPTIONS, Some (encode_enum ACTIVE_PROFILE PROFILE_OPTIONS)),
    (''select'', Some (JList (map JStr WATER_FEED_OPTIONS)), None,
      dec_enum WATER_FEED WATER_FEED_OPTIONS, Some (encode_enum WATER_FEED WATER_FEED_OPTIONS)),
    (''select'', Some (JList (map JStr TEMP_UNIT_OPTIONS)), None,
      dec_enum TEMPERATURE_UNIT TEMP_UNIT_OPTIONS,
      Some (encode_enum TEMPERATURE_UNIT TEMP_UNIT_OPTIONS)),
    (''select'', Some (JList (map JStr LANGUAGE_OPTIONS)), None,
      dec_enum LANGUAGE LANGUAGE_OPTIONS, Some (encode_enum LANGUAGE LANGUAGE_OPTIONS)),
    (''text'', None, Some (JStr TIME_PATTERN),
      dec_time AUTO_ON_HOUR (AUTO_ON_HOUR + 1), Some (encode_time AUTO_ON_HOUR)),
    (''text'', None, Some (JStr TIME_PATTERN),
      dec_time AUTO_OFF_HOUR (AUTO_OFF_HOUR + 1), Some (encode_time AUTO_OFF_HOUR))]"
  unfolding ENTITIES_def Entity_def dec_time_hour en_writable_def
  by (simp add: options_config_def icon_config_def)

text \<open>The three kinds of offer.\<close>

lemma writable_cases:
  assumes "e \<in> set ENTITIES" "en_encode e = Some enc"
  obtains "en_component e = ''switch''" "map_of (en_config e) ''options'' = None"
      "map_of (en_config e) ''pattern'' = None"
      "(en_decode e, enc) \<in> {(dec_power, encode_bool STANDBY 0 1),
        (dec_service, encode_bool SERVICE_BOILER_ENABLE 1 0)}"
  | a opts where "map_of (en_config e) ''options'' = Some (JList (map JStr opts))"
      "en_decode e = dec_enum a opts" "enc = encode_enum a opts"
      "(a, opts) \<in> {(ACTIVE_PROFILE, PROFILE_OPTIONS), (WATER_FEED, WATER_FEED_OPTIONS),
        (TEMPERATURE_UNIT, TEMP_UNIT_OPTIONS), (LANGUAGE, LANGUAGE_OPTIONS)}"
  | a where "map_of (en_config e) ''options'' = None"
      "map_of (en_config e) ''pattern'' = Some (JStr TIME_PATTERN)"
      "en_decode e = dec_time a (a + 1)" "enc = encode_time a" "a \<in> {AUTO_ON_HOUR, AUTO_OFF_HOUR}"
proof -
  let ?f = "\<lambda>e. (en_component e, map_of (en_config e) ''options'', map_of (en_config e) ''pattern'',
             en_decode e, en_encode e)"
  have "?f e \<in> set (map ?f (filter en_writable ENTITIES))"
    using assms by (auto simp: en_writable_def)
  then show thesis
    unfolding writable_tables assms(2)
    using that(1) that(2) [of PROFILE_OPTIONS ACTIVE_PROFILE] that(2) [of WATER_FEED_OPTIONS WATER_FEED]
      that(2) [of TEMP_UNIT_OPTIONS TEMPERATURE_UNIT] that(2) [of LANGUAGE_OPTIONS LANGUAGE]
      that(3) [of AUTO_ON_HOUR] that(3) [of AUTO_OFF_HOUR]
    by (simp only: list.set insert_iff empty_iff prod.inject option.inject option.distinct
        simp_thms) blast
qed

lemma offered_echoed:
  assumes "e \<in> set ENTITIES" "en_encode e = Some enc"
    and "offered (build_discovery_payload e c sw) p" "length (sn_settings s) = nat SETTINGS_LEN"
  shows "echoed (en_decode e) enc s p"
  using assms(1,2)
proof (cases rule: writable_cases)
  case 1
  have "p \<in> {''ON'', ''OFF''}"
    using assms(3) 1 by (auto simp: offered_def doc_fields [OF assms(1)])
  from echoed_bool [OF this assms(4)]
  show ?thesis using 1(4) by (elim insertE emptyE Pair_inject) (simp_all only:)
next
  case (2 a opts)
  have "p \<in> set opts" using assms(3) 2(1) by (auto simp: offered_def doc_fields [OF assms(1)])
  moreover have "0 \<le> a \<and> a < SETTINGS_LEN \<and> distinct opts \<and> length opts \<le> 256"
    using 2(4) by (auto simp: address_defs PROFILE_OPTIONS_def WATER_FEED_OPTIONS_def
        TEMP_UNIT_OPTIONS_def LANGUAGE_OPTIONS_def)
  ultimately show ?thesis unfolding 2(2,3) using assms(4) by (intro echoed_enum) auto
next
  case (3 a)
  have "hhmm_text p" using assms(3) 3(1,2) by (auto simp: offered_def doc_fields [OF assms(1)])
  moreover have "0 \<le> a" "a + 1 < SETTINGS_LEN" using 3(5) by (auto simp: address_defs)
  ultimately show ?thesis unfolding 3(3,4) using assms(4) by (intro echoed_time) auto
qed

section \<open>Facts for the properties\<close>

lemma find_encoder_entity:
  assumes "e \<in> set ENTITIES" "en_encode e = Some enc"
  shows "find_encoder (en_key e) = Some enc"
proof -
  have "distinct (map en_key ENTITIES)" by code_simp
  then have "map_of (map (\<lambda>e. (en_key e, en_encode e)) ENTITIES) (en_key e) = Some (en_encode e)"
    using assms(1) by (intro map_of_is_SomeI) (auto simp: comp_def)
  then show ?thesis by (simp add: find_encoder_maps assms(2))
qed

lemma find_encoder_thermostat:
  assumes "cl \<in> set CLIMATE_ENTITIES"
  shows "find_encoder (cl_key cl) = Some (cl_encode_target cl)"
proof -
  consider "cl = CLIMATE_ENTITIES ! 0" | "cl = CLIMATE_ENTITIES ! 1"
    using assms by (auto simp: CLIMATE_ENTITIES_def)
  then show ?thesis
    by cases (simp_all add: find_encoder_climate CLIMATE_ENTITIES_def)
qed

lemma publish_entity_log:
  assumes "mq_connected q"
  shows "mq_log (publish_entity c s e q) = mq_log q
    @ (case en_decode e s of Inl _ \<Rightarrow> [] | Inr v \<Rightarrow> [(state_topic c (en_key e), py_str v)])"
  using assms
  by (cases "en_decode e s") (simp_all add: publish_entity_def publish_state_def mq_publish_def)

text \<open>No document replaces another: their topics and unique ids differ.\<close>

lemma discovery_topics_distinct:
  "distinct (map (\<lambda>e. discovery_topic c (en_component e) (en_key e)) ENTITIES
     @ map (\<lambda>cl. discovery_topic c ''climate'' (cl_key cl)) CLIMATE_ENTITIES)"
  "distinct (map (\<lambda>e. unique_id c (en_key e)) ENTITIES @ map (\<lambda>cl. unique_id c (cl_key cl)) CLIMATE_ENTITIES)"
  by (simp_all add: ENTITIES_def CLIMATE_ENTITIES_def Entity_def discovery_topic_def unique_id_def)

text \<open>Every temperature between the limits a thermostat announces is accepted on its topic
  and then shown.\<close>

lemma climate_discovery_honoured:
  assumes "cl \<in> set CLIMATE_ENTITIES" "length (sn_settings s) = nat SETTINGS_LEN"
    and "map_of (build_climate_discovery_payload cl c sw) ''min_temp'' = Some (JInt lo)"
    and "map_of (build_climate_discovery_payload cl c sw) ''max_temp'' = Some (JInt hi)"
    and "lo \<le> v" "v \<le> hi"
  shows "on_message c (climate_target_command_topic c (cl_key cl)) (int_str v)
      = Some (cl_key cl, int_str v)
    \<and> (\<exists>w. Option.bind (find_encoder (cl_key cl)) (\<lambda>enc. Some (enc (int_str v))) = Some (Inr w)
          \<and> cl_target cl (written s w) = Inr (VInt v))"
proof -
  have cfg: "\<forall>cl \<in> set CLIMATE_ENTITIES. distinct (map fst (cl_config cl))
      \<and> map_of (cl_config cl) ''min_temp'' = None \<and> map_of (cl_config cl) ''max_temp'' = None"
    by (simp add: CLIMATE_ENTITIES_def icon_config_def)
  then have "lo = cl_min_temp cl" "hi = cl_max_temp cl"
    using assms(1,3,4) by (simp_all add: build_climate_discovery_payload_def map_of_dict_update)
  with assms(5,6) have v: "cl_min_temp cl \<le> v" "v \<le> cl_max_temp cl" by simp_all
  have r: "on_message c (climate_target_command_topic c (cl_key cl)) (int_str v)
      = Some (cl_key cl, int_str v)"
    using command_routing [of c "int_str v"] assms(1) by (auto simp: list_all_iff)
  from assms(1) obtain a where a: "cl_target cl = dec_byte a"
    "cl_encode_target cl = encode_ranged a (cl_min_temp cl) (cl_max_temp cl)"
    "0 \<le> a" "a < SETTINGS_LEN" "85 \<le> cl_min_temp cl" "cl_max_temp cl \<le> 125"
    by (rule climate_cases)
  have b: "85 \<le> v" "v \<le> 125" using v a(5,6) by linarith+
  have e: "cl_encode_target cl (int_str v) = Inr (a, [v])"
    using v a(2) b by (simp add: encode_ranged_def py_float_int_str)
  have "settings_byte (written s (a, [v])) a = v AND 255"
    using assms(2) a(3,4) by (intro settings_byte_written) (auto simp: SETTINGS_LEN_def)
  then have "cl_target cl (written s (a, [v])) = Inr (VInt v)"
    using b by (simp add: a(1) dec_byte_def is_byte_def)
  then show ?thesis using r e by (simp add: find_encoder_thermostat [OF assms(1)])
qed

text \<open>A timer that the machine has disabled, hour and minute 100, is published as a text
  that the announced pattern excludes, and a byte beyond a select's options as a text
  that is not an option.\<close>

lemma disabled_timer_outside_pattern:
  assumes "settings_byte s AUTO_ON_HOUR = 100" "settings_byte s AUTO_ON_MINUTE = 100"
  shows "dec_time AUTO_ON_HOUR AUTO_ON_MINUTE s = Inr (VStr ''100:100'') \<and> \<not> hhmm_text ''100:100''"
proof -
  have "fmt_int 10 2 100 = ''100''" by code_simp
  then show ?thesis using assms by (simp add: dec_time_def)
qed

section \<open>Properties\<close>

text \<open>C15: What the bridge announces it honours: for each of its entities, the document says
  where its values are published; it names a command topic just when the entity takes
  commands; and everything that document offers (an option, a text of its pattern, a
  switch's payload) is, sent to that topic, which the bridge has subscribed to, handed to
  the broker under the entity's key, accepted as a write, and shown back as it was sent.\<close>

theorem discovery_honoured:
  assumes "e \<in> set ENTITIES" "doc = build_discovery_payload e c sw_version"
    and "mq_connected q" "length (sn_settings s) = nat SETTINGS_LEN"
  shows "(\<exists>t. map_of doc ''state_topic'' = Some (JStr t)
      \<and> mq_log (publish_entity c s e q) = mq_log q
          @ (case en_decode e s of Inl _ \<Rightarrow> [] | Inr v \<Rightarrow> [(t, py_str v)]))
    \<and> (map_of doc ''command_topic'' \<noteq> None \<longleftrightarrow> en_writable e)
    \<and> (\<forall>t p. map_of doc ''command_topic'' = Some (JStr t) \<and> offered doc p \<longrightarrow>
         t \<in> set (mq_subs (on_connect c q)) \<and> on_message c t p = Some (en_key e, p)
         \<and> (\<exists>enc w. find_encoder (en_key e) = Some enc \<and> enc p = Inr w
               \<and> en_decode e (written s w) = Inr (VStr p)))"
proof (intro conjI allI impI; (elim conjE)?)
  show "\<exists>t. map_of doc ''state_topic'' = Some (JStr t)
      \<and> mq_log (publish_entity c s e q) = mq_log q
          @ (case en_decode e s of Inl _ \<Rightarrow> [] | Inr v \<Rightarrow> [(t, py_str v)])"
    using publish_entity_log [OF assms(3)] by (simp add: assms(2) doc_fields [OF assms(1)])
  show "map_of doc ''command_topic'' \<noteq> None \<longleftrightarrow> en_writable e"
    by (simp add: assms(2) doc_fields [OF assms(1)])
next
  fix t p
  assume t: "map_of doc ''command_topic'' = Some (JStr t)" and p: "offered doc p"
  then have w: "en_writable e" and top: "t = command_topic c (en_key e)"
    by (simp_all add: assms(2) doc_fields [OF assms(1)] split: if_splits)
  show "t \<in> set (mq_subs (on_connect c q))" "on_message c t p = Some (en_key e, p)"
    using command_routing [of c p q] assms(1) w by (auto simp: list_all_iff top)
  obtain enc where enc: "en_encode e = Some enc" using w by (auto simp: en_writable_def)
  show "\<exists>enc w. find_encoder (en_key e) = Some enc \<and> enc p = Inr w
      \<and> en_decode e (written s w) = Inr (VStr p)"
    using offered_echoed [OF assms(1) enc p [unfolded assms(2)] assms(4)]
      find_encoder_entity [OF assms(1) enc]
    by (auto simp: echoed_def)
qed

text \<open>The machine's power switch, announced and switched on.\<close>

theorem discovery_honoured_witness:
  "\<exists>enc w. find_encoder ''power'' = Some enc \<and> enc ''ON'' = Inr w
     \<and> dec_power (written empty_snapshot w) = Inr (VStr ''ON'')"
proof -
  let ?e = "Entity ''power'' ''Power'' ''switch'' dec_power (Some (encode_bool STANDBY 0 1))
    [icon_config ''mdi:power'']"
  let ?doc = "build_discovery_payload ?e mqtt_config []"
  have e: "?e \<in> set ENTITIES" by (simp add: ENTITIES_def)
  have "length (sn_settings empty_snapshot) = nat SETTINGS_LEN" by (simp add: empty_snapshot_def)
  moreover have "mq_connected (new_mqtt\<lparr>mq_connected := True\<rparr>)" by simp
  moreover have "map_of ?doc ''command_topic'' = Some (JStr (command_topic mqtt_config ''power''))"
    by (simp add: doc_fields [OF e]) (simp add: Entity_def en_writable_def)
  moreover have "offered ?doc ''ON''"
    unfolding offered_def doc_fields [OF e] by (simp add: Entity_def icon_config_def)
  ultimately show ?thesis
    using discovery_honoured [OF e refl, of "new_mqtt\<lparr>mq_connected := True\<rparr>" empty_snapshot mqtt_config "[]"]
    by (simp add: Entity_def)
qed

end
