(* ===== verification/Listeners.thy ===== *)
theory Listeners
  imports Emulator
begin

text \<open>
  The TCP servers that \<open>bridge/r60v_broker/tcp_frontend.py\<close>,
  \<open>bridge/r60v_broker/push_server.py\<close> and \<open>bridge/r60v_broker/emulator.py\<close> keep: start, connections, the bound port and stop. A
  server of \<open>asyncio\<close> has its sockets and the connections accepted on them;
  \<open>close\<close> closes the sockets only, and \<open>wait_closed\<close> waits until the connections have
  ended, but returns at once before Python 3.12.1, so \<open>waits\<close> is an argument.
\<close>

section \<open>Servers of asyncio\<close>

record listener =
  ls_sockets :: "int list"
  ls_conns :: "nat list"

definition start_server :: "int list res \<Rightarrow> listener res" where
  "start_server bound = bind_res bound (\<lambda>ports. Inr \<lparr>ls_sockets = ports, ls_conns = []\<rparr>)"

definition ls_accept :: "nat \<Rightarrow> listener \<Rightarrow> listener" where
  "ls_accept c l = (if ls_sockets l = [] then l else l\<lparr>ls_conns := ls_conns l @ [c]\<rparr>)"

definition ls_drop :: "nat \<Rightarrow> listener \<Rightarrow> listener" where
  "ls_drop c l = l\<lparr>ls_conns := removeAll c (ls_conns l)\<rparr>"

definition ls_close :: "listener \<Rightarrow> listener" where
  "ls_close l = l\<lparr>ls_sockets := []\<rparr>"

definition wait_closed :: "bool \<Rightarrow> listener \<Rightarrow> bool" where
  "wait_closed waits l \<longleftrightarrow> \<not> waits \<or> ls_conns l = []"

definition conns_of :: "listener option \<Rightarrow> nat list" where
  "conns_of server = (case server of None \<Rightarrow> [] | Some l \<Rightarrow> ls_conns l)"

definition bound_port :: "listener option \<Rightarrow> int res" where
  "bound_port server =
     (case server of
        None \<Rightarrow> Inl RuntimeError
      | Some l \<Rightarrow> (case ls_sockets l of [] \<Rightarrow> Inl RuntimeError | port # _ \<Rightarrow> Inr port))"

text \<open>A service around a server whose events do not touch its sockets.\<close>

locale tcp_service =
  fixes server :: "'s \<Rightarrow> listener option" and event :: "'e \<Rightarrow> 's \<Rightarrow> 's"
  assumes sockets_kept: "map_option ls_sockets (server (event e s)) = map_option ls_sockets (server s)"
begin

lemma sockets_history:
  "map_option ls_sockets (server (fold event events s)) = map_option ls_sockets (server s)"
  by (induction events arbitrary: s) (simp_all add: sockets_kept)

lemma bound_port_sockets:
  "map_option ls_sockets (server s) = map_option ls_sockets (server s') \<Longrightarrow>
     bound_port (server s) = bound_port (server s')"
  by (cases "server s"; cases "server s'") (simp_all add: bound_port_def)

lemma port_history: "bound_port (server (fold event events s)) = bound_port (server s)"
  by (rule bound_port_sockets [OF sockets_history])

end

section \<open>The front-end\<close>

record frontend =
  fe_server :: "listener option"

definition new_frontend :: frontend where
  "new_frontend = \<lparr>fe_server = None\<rparr>"

definition fe_start :: "int list res \<Rightarrow> frontend \<Rightarrow> unit res \<times> frontend" where
  "fe_start bound fe =
     (case start_server bound of
        Inl e \<Rightarrow> (Inl e, fe)
      | Inr l \<Rightarrow> (Inr (), fe\<lparr>fe_server := Some l\<rparr>))"

text \<open>The LAN clients that come and go.\<close>

datatype lan_event = Lan_join nat | Lan_leave nat

fun fe_event :: "lan_event \<Rightarrow> frontend \<Rightarrow> frontend" where
  "fe_event (Lan_join c) fe = fe\<lparr>fe_server := map_option (ls_accept c) (fe_server fe)\<rparr>"
| "fe_event (Lan_leave c) fe = fe\<lparr>fe_server := map_option (ls_drop c) (fe_server fe)\<rparr>"

abbreviation fe_clients :: "frontend \<Rightarrow> nat list" where
  "fe_clients fe \<equiv> conns_of (fe_server fe)"

text \<open>\<open>stop\<close>: whether it returns while its clients stay as they are.\<close>

definition fe_stop :: "bool \<Rightarrow> frontend \<Rightarrow> bool \<times> frontend" where
  "fe_stop waits fe =
     (case fe_server fe of
        None \<Rightarrow> (True, fe)
      | Some l \<Rightarrow>
          let l = ls_close l
          in if wait_closed waits l then (True, fe\<lparr>fe_server := None\<rparr>)
             else (False, fe\<lparr>fe_server := Some l\<rparr>))"

interpretation lan: tcp_service fe_server fe_event
proof
  show "map_option ls_sockets (fe_server (fe_event e s)) = map_option ls_sockets (fe_server s)" for e s
    by (cases e; cases "fe_server s") (simp_all add: ls_accept_def ls_drop_def)
qed

lemma fe_stop_returns: "fst (fe_stop waits fe) \<longleftrightarrow> \<not> waits \<or> fe_clients fe = []"
  by (simp add: fe_stop_def wait_closed_def ls_close_def conns_of_def Let_def split: option.split)

lemma fe_port:
  "fe_start (Inr (port # ports)) new_frontend = (r, fe) \<Longrightarrow>
     r = Inr () \<and> bound_port (fe_server (fold fe_event events fe)) = Inr port"
  unfolding lan.port_history by (auto simp: fe_start_def start_server_def bound_port_def)

text \<open>One client that stays is enough: its connection is served whatever the others do, and
  the stop waits for it.\<close>

lemma fe_client_stays:
  assumes "c \<in> set (fe_clients fe)" "Lan_leave c \<notin> set events"
  shows "c \<in> set (fe_clients (fold fe_event events fe))"
  using assms
proof (induction events arbitrary: fe)
  case (Cons e events)
  then have "c \<in> set (fe_clients (fe_event e fe))"
    by (cases e; cases "fe_server fe") (auto simp: conns_of_def ls_accept_def ls_drop_def)
  then show ?case using Cons by simp
qed simp

lemma fe_stop_waits_for_client:
  assumes "c \<in> set (fe_clients fe)" "Lan_leave c \<notin> set events"
  shows "\<not> fst (fe_stop True (fold fe_event events fe))"
  using fe_client_stays [OF assms] by (auto simp: fe_stop_returns)

section \<open>The push server\<close>

text \<open>The server of the \<open>websockets\<close> library: its \<open>close\<close>, unlike that of \<open>asyncio\<close>, also closes
  every connection, after which \<open>wait_closed\<close> returns.\<close>

record ws_listener =
  wl_server :: "listener option"

definition new_ws_listener :: ws_listener where
  "new_ws_listener = \<lparr>wl_server = None\<rparr>"

definition ws_start :: "int list res \<Rightarrow> ws_listener \<Rightarrow> unit res \<times> ws_listener" where
  "ws_start bound ws =
     (case start_server bound of
        Inl e \<Rightarrow> (Inl e, ws)
      | Inr l \<Rightarrow> (Inr (), ws\<lparr>wl_server := Some l\<rparr>))"

definition ws_stop :: "ws_listener \<Rightarrow> ws_listener" where
  "ws_stop ws = (if wl_server ws \<noteq> None then ws\<lparr>wl_server := None\<rparr> else ws)"

fun ws_event :: "lan_event \<Rightarrow> ws_listener \<Rightarrow> ws_listener" where
  "ws_event (Lan_join c) ws = ws\<lparr>wl_server := map_option (ls_accept c) (wl_server ws)\<rparr>"
| "ws_event (Lan_leave c) ws = ws\<lparr>wl_server := map_option (ls_drop c) (wl_server ws)\<rparr>"

text \<open>The task of the push server, with the subscribers that come and go until the task is
  cancelled; its listener is then closed, and the \<open>stop\<close> that \<open>run\<close> calls finds it so.\<close>

definition ws_serve :: "int list res \<Rightarrow> lan_event list \<Rightarrow> ws_listener \<Rightarrow> exn \<times> ws_listener" where
  "ws_serve bound events ws =
     (case ws_start bound ws of
        (Inl e, ws) \<Rightarrow> (e, ws)
      | (Inr _, ws) \<Rightarrow> (CancelledError, ws_stop (fold ws_event events ws)))"

interpretation ws: tcp_service wl_server ws_event
proof
  show "map_option ls_sockets (wl_server (ws_event e s)) = map_option ls_sockets (wl_server s)" for e s
    by (cases e; cases "wl_server s") (simp_all add: ls_accept_def ls_drop_def)
qed

lemma ws_port:
  "ws_start (Inr (port # ports)) new_ws_listener = (r, ws) \<Longrightarrow>
     r = Inr () \<and> bound_port (wl_server (fold ws_event events ws)) = Inr port"
  unfolding ws.port_history by (auto simp: ws_start_def start_server_def bound_port_def)

lemma ws_serve_ends_closed:
  assumes "ws_serve bound events new_ws_listener = (e, ws)"
  shows "wl_server ws = None" "ws_stop ws = ws" "e = (case bound of Inl e \<Rightarrow> e | Inr _ \<Rightarrow> CancelledError)"
  using assms
  by (auto simp: ws_serve_def ws_start_def start_server_def new_ws_listener_def ws_stop_def
      split: sum.splits if_splits)

section \<open>The emulator\<close>

record em_server =
  es_model :: machine
  es_server :: "listener option"
  es_ticker :: bool
  es_writers :: "nat list"

definition new_em_server :: "machine \<Rightarrow> em_server" where
  "new_em_server m = \<lparr>es_model = m, es_server = None, es_ticker = False, es_writers = []\<rparr>"

definition es_start :: "int list res \<Rightarrow> em_server \<Rightarrow> unit res \<times> em_server" where
  "es_start bound es =
     (case start_server bound of
        Inl e \<Rightarrow> (Inl e, es)
      | Inr l \<Rightarrow> (Inr (), es\<lparr>es_server := Some l, es_ticker := True\<rparr>))"

definition es_stop :: "bool \<Rightarrow> em_server \<Rightarrow> bool \<times> em_server" where
  "es_stop waits es =
     (let closing = (\<lambda>l. ls_close (fold ls_drop (es_writers es) l));
          es = es\<lparr>es_ticker := False, es_writers := [], es_server := map_option closing (es_server es)\<rparr>
      in (case es_server es of None \<Rightarrow> True | Some l \<Rightarrow> wait_closed waits l, es))"

text \<open>A connection's handler begins, answers a request, and ends; the ticker's second.\<close>

definition es_join :: "nat \<Rightarrow> em_server \<Rightarrow> em_server" where
  "es_join c es =
     (case es_server es of
        None \<Rightarrow> es
      | Some l \<Rightarrow>
          if ls_sockets l = [] then es
          else es\<lparr>es_server := Some (ls_accept c l), es_writers := List.insert c (es_writers es)\<rparr>)"

definition es_leave :: "nat \<Rightarrow> em_server \<Rightarrow> em_server" where
  "es_leave c es =
     es\<lparr>es_server := map_option (ls_drop c) (es_server es), es_writers := removeAll c (es_writers es)\<rparr>"

definition es_request :: "nat \<Rightarrow> int list \<Rightarrow> string \<Rightarrow> em_server \<Rightarrow> em_server" where
  "es_request c clock input es =
     (if c \<notin> set (conns_of (es_server es)) then es
      else
        (case serve_one clock input (es_model es) of
           (Some _, m) \<Rightarrow> es\<lparr>es_model := m\<rparr>
         | (None, m) \<Rightarrow> es_leave c (es\<lparr>es_model := m\<rparr>)))"

definition run_ticker :: "em_server \<Rightarrow> em_server" where
  "run_ticker es = (if es_ticker es then es\<lparr>es_model := em_tick (es_model es)\<rparr> else es)"

datatype em_event = Em_join nat | Em_leave nat | Em_request nat "int list" string | Em_second

fun es_event :: "em_event \<Rightarrow> em_server \<Rightarrow> em_server" where
  "es_event (Em_join c) es = es_join c es"
| "es_event (Em_leave c) es = es_leave c es"
| "es_event (Em_request c clock input) es = es_request c clock input es"
| "es_event Em_second es = run_ticker es"

lemmas es_event_defs = es_join_def es_leave_def es_request_def run_ticker_def

interpretation em: tcp_service es_server es_event
proof
  show "map_option ls_sockets (es_server (es_event e s)) = map_option ls_sockets (es_server s)" for e s
    by (cases e; cases "es_server s")
      (simp_all add: es_event_defs ls_accept_def ls_drop_def split: prod.split option.split)
qed

text \<open>Every connection's writer is tracked, so a stop closes them all.\<close>

definition tracked :: "em_server \<Rightarrow> bool" where
  "tracked es \<longleftrightarrow> set (conns_of (es_server es)) \<subseteq> set (es_writers es)"

lemma tracked_event: "tracked es \<Longrightarrow> tracked (es_event e es)"
  by (cases e; cases "es_server es")
    (auto simp: tracked_def conns_of_def es_event_defs ls_accept_def ls_drop_def split: prod.split option.split)

lemma tracked_history: "tracked es \<Longrightarrow> tracked (fold es_event events es)"
  by (induction events arbitrary: es) (simp_all add: tracked_event)

lemma drops: "ls_conns (fold ls_drop cs l) = filter (\<lambda>c. c \<notin> set cs) (ls_conns l)"
  by (induction cs arbitrary: l) (auto simp: ls_drop_def removeAll_filter_not_eq intro!: filter_cong)

definition stopped :: "em_server \<Rightarrow> bool" where
  "stopped es \<longleftrightarrow> \<not> es_ticker es \<and> conns_of (es_server es) = [] \<and> bound_port (es_server es) = Inl RuntimeError"

lemma es_stop_tracked:
  assumes "tracked es"
  shows "fst (es_stop waits es)" "stopped (snd (es_stop waits es))"
    "es_model (snd (es_stop waits es)) = es_model es"
  using assms
  by (auto simp: tracked_def stopped_def es_stop_def wait_closed_def ls_close_def drops conns_of_def bound_port_def
      Let_def filter_empty_conv split: option.splits)

lemma stopped_event: "stopped es \<Longrightarrow> stopped (es_event e es) \<and> es_model (es_event e es) = es_model es"
  by (cases e; cases "es_server es")
    (auto simp: stopped_def conns_of_def bound_port_def es_event_defs ls_drop_def split: list.splits)

lemma stopped_history:
  "stopped es \<Longrightarrow> stopped (fold es_event events es) \<and> es_model (fold es_event events es) = es_model es"
  by (induction events arbitrary: es) (use stopped_event in auto)

text \<open>However its clients come, ask and go, the emulator's stop returns at once, with every
  connection closed, and from then on nothing changes its memory.\<close>

lemma emulator_stops_clean:
  assumes "es = fold es_event events (snd (es_start bound (new_em_server m)))"
  shows "fst (es_stop waits es)
    \<and> stopped (fold es_event later (snd (es_stop waits es)))
    \<and> es_model (fold es_event later (snd (es_stop waits es))) = es_model es"
proof -
  have "tracked (snd (es_start bound (new_em_server m)))"
    by (cases bound) (simp_all add: tracked_def es_start_def start_server_def new_em_server_def conns_of_def)
  then have "tracked es" unfolding assms by (rule tracked_history)
  then show ?thesis using es_stop_tracked [of es waits] stopped_history by metis
qed

text \<open>Whatever clients send, the memory stays 256 bytes.\<close>

lemma em_memory_history:
  assumes "mem_ok (es_model es)"
  shows "mem_ok (es_model (fold es_event events es))"
  using assms
proof (induction events arbitrary: es)
  case (Cons e events)
  have "mem_ok (es_model (es_event e es))"
    using Cons.prems serve_one_ok [OF Cons.prems]
    by (cases e) (auto simp: es_event_defs mem_ok_def em_tick_def Let_def split: option.splits prod.splits,
        (metis snd_conv)+)
  then show ?case using Cons.IH by simp
qed simp

end
