(* ===== verification/Daemon.thy ===== *)
theory Daemon
  imports Intents Discovery Listeners
begin

text \<open>
  The daemon of \<open>bridge/r60v_broker/broker.py\<close> as a whole: the tasks \<open>run\<close> starts, the loops
  around the rounds of \<open>Broker\<close> and \<open>Intents\<close>, the shutdown and the exit status of \<open>main\<close>.
  The tasks share the event loop, so between two awaits a task runs alone, and during an
  await the others do: a run is a sequence of rounds, and a round's awaits may change
  the broker by any sequence of the atomic steps of the other tasks. The invariants are
  proved once for those steps.
\<close>

section \<open>The intervals of the loops\<close>

fun float_less :: "pyfloat \<Rightarrow> pyfloat \<Rightarrow> bool" where
  "float_less (Fin x) (Fin y) \<longleftrightarrow> x < y"
| "float_less (Fin x) (Inf neg) \<longleftrightarrow> \<not> neg"
| "float_less (Inf neg) (Fin y) \<longleftrightarrow> neg"
| "float_less (Inf neg) (Inf neg') \<longleftrightarrow> neg \<and> \<not> neg'"
| "float_less _ _ \<longleftrightarrow> False"

text \<open>\<open>max(a, b)\<close> keeps its first argument unless the second is greater, so a NaN is
  passed over. The divisor of \<open>x / y\<close> is never zero here.\<close>

definition py_max :: "pyfloat \<Rightarrow> pyfloat \<Rightarrow> pyfloat" where
  "py_max a b = (if float_less a b then b else a)"

fun float_div :: "pyfloat \<Rightarrow> pyfloat \<Rightarrow> pyfloat" where
  "float_div (Fin x) (Fin y) = to_float (x / y)"
| "float_div (Fin x) (Inf neg) = Fin 0"
| "float_div (Inf neg) (Fin y) = Inf (neg \<noteq> (y < 0))"
| "float_div _ _ = NaN"

definition poll_params :: "config \<Rightarrow> (pyfloat \<times> int) res" where
  "poll_params c =
     (let interval = py_max (to_float (2 / 10)) (cf_live_interval c)
      in bind_res (py_round (float_div (cf_settings_interval c) interval))
           (\<lambda>n. Inr (interval, max 1 n)))"

definition publish_interval :: "config \<Rightarrow> pyfloat" where
  "publish_interval c = py_max (Fin (1 / 2)) (cf_publish_interval c)"

text \<open>\<open>asyncio.sleep\<close>; the interval of a loop is finite or a positive infinity, and a task
  that sleeps for ever has no further round.\<close>

definition loop_sleep :: "'d device \<Rightarrow> pyfloat \<Rightarrow> 'd broker \<Rightarrow> 'd broker" where
  "loop_sleep dev interval b = (case interval of Fin dt \<Rightarrow> dv_sleep dev dt b | _ \<Rightarrow> b)"

section \<open>The tasks\<close>

datatype task = Poll_loop | Command_loop | Publish_loop | Push_serve | Intent_loop | Frontend_serve

definition run_tasks :: "config \<Rightarrow> task list" where
  "run_tasks c =
     (if mqtt_enabled c \<or> cf_push_enabled c then [Poll_loop] else [])
     @ (if mqtt_enabled c then [Command_loop, Publish_loop] else [])
     @ (if cf_push_enabled c then [Push_serve, Intent_loop] else [])
     @ (if cf_frontend_enabled c then [Frontend_serve] else [])"

text \<open>What may happen: a round of a loop, the start of a server with the ports that are bound or
  the exception of binding them, or a callback of the push server or of the MQTT client's
  thread.\<close>

datatype activity =
    Poll | Command | Publish | Intent
  | Start_push "int list res" | Start_frontend "int list res"
  | Frame "json option" | Join nat | Leave nat
  | Mqtt_connected | Mqtt_message string string

fun task_of :: "activity \<Rightarrow> task" where
  "task_of Poll = Poll_loop"
| "task_of Command = Command_loop"
| "task_of Publish = Publish_loop"
| "task_of Intent = Intent_loop"
| "task_of (Start_push _) = Push_serve"
| "task_of (Start_frontend _) = Frontend_serve"
| "task_of (Frame _) = Push_serve"
| "task_of (Join _) = Push_serve"
| "task_of (Leave _) = Push_serve"
| "task_of Mqtt_connected = Command_loop"
| "task_of (Mqtt_message _ _) = Command_loop"

definition poll_round :: "'d device \<Rightarrow> 'd broker \<Rightarrow> unit res \<times> 'd broker" where
  "poll_round dev b =
     (case poll_params (bk_config b) of
        Inl e \<Rightarrow> (Inl e, b)
      | Inr (interval, settings_every) \<Rightarrow>
          (Inr (), loop_sleep dev interval (poll_cycle dev settings_every b)))"

definition publish_round :: "'d device \<Rightarrow> 'd broker \<Rightarrow> 'd broker" where
  "publish_round dev b = loop_sleep dev (publish_interval (bk_config b)) (publish_now b)"

definition command_round :: "'d device \<Rightarrow> 'd broker \<Rightarrow> unit res \<times> 'd broker" where
  "command_round dev b =
     (case bk_commands b of
        Some ((key, payload) # q) \<Rightarrow> apply_command dev key payload (b\<lparr>bk_commands := Some q\<rparr>)
      | _ \<Rightarrow> (Inr (), b))"

definition mqtt_callback :: "(config \<Rightarrow> mqtt \<Rightarrow> mqtt) \<Rightarrow> 'd broker \<Rightarrow> 'd broker" where
  "mqtt_callback f b = b\<lparr>bk_mqtt := f (bk_config b) (bk_mqtt b)\<rparr>"

definition receive_message :: "string \<Rightarrow> string \<Rightarrow> 'd broker \<Rightarrow> 'd broker" where
  "receive_message topic payload b =
     (case on_message (bk_config b) topic payload of
        None \<Rightarrow> b | Some (key, p) \<Rightarrow> enqueue_command key p b)"

definition on_push :: "(push \<Rightarrow> push) \<Rightarrow> 'd broker \<Rightarrow> 'd broker" where
  "on_push f b = b\<lparr>bk_push := map_option f (bk_push b)\<rparr>"

text \<open>One activity; \<open>None\<close> when it never ends.\<close>

fun perform :: "'d device \<Rightarrow> activity \<Rightarrow> 'd broker \<Rightarrow> (unit res \<times> 'd broker) option" where
  "perform dev Poll b = Some (poll_round dev b)"
| "perform dev Command b = Some (command_round dev b)"
| "perform dev Publish b = Some (Inr (), publish_round dev b)"
| "perform dev Intent b = map_option (Pair (Inr ())) (intent_round dev b)"
| "perform dev (Start_push bound) b = Some (fst (ws_start bound new_ws_listener), b)"
| "perform dev (Start_frontend bound) b = Some (fst (fe_start bound new_frontend), b)"
| "perform dev (Frame parsed) b = Some (Inr (), handle_inbound parsed b)"
| "perform dev (Join client) b = Some (Inr (), on_push (push_connect client) b)"
| "perform dev (Leave client) b = Some (Inr (), on_push (push_disconnect client) b)"
| "perform dev Mqtt_connected b = Some (Inr (), mqtt_callback on_connect b)"
| "perform dev (Mqtt_message topic payload) b = Some (Inr (), receive_message topic payload b)"

section \<open>Running\<close>

text \<open>The activities until one raises; those of tasks that were not started do not occur.\<close>

fun activities :: "('d device \<times> activity) list \<Rightarrow> 'd broker \<Rightarrow> (unit res \<times> 'd broker) option" where
  "activities [] b = Some (Inr (), b)"
| "activities ((dev, a) # rest) b =
     (if task_of a \<notin> set (run_tasks (bk_config b)) then activities rest b
      else
        (case perform dev a b of
           None \<Rightarrow> None
         | Some (Inl e, b) \<Rightarrow> Some (Inl e, b)
         | Some (Inr _, b) \<Rightarrow> activities rest b))"

definition start_broker :: "(json \<Rightarrow> string) \<Rightarrow> string \<Rightarrow> config \<Rightarrow> time \<Rightarrow> 'd \<Rightarrow> 'd broker" where
  "start_broker dumps version c now d =
     (let b = new_broker c now d
      in if mqtt_enabled c
         then b\<lparr>bk_mqtt := publish_discovery dumps c version ((bk_mqtt b)\<lparr>mq_connected := True\<rparr>)\<rparr>
         else b)"

text \<open>The \<open>finally\<close> of \<open>run\<close>: the push server, whose task is cancelled, closes its
  connections; the stop of the front-end may not return while a LAN client stays, and then
  the MQTT client is not reached.\<close>

definition shutdown :: "bool \<Rightarrow> frontend option \<Rightarrow> 'd broker \<Rightarrow> bool \<times> 'd broker" where
  "shutdown waits fe b =
     (let b = on_push (\<lambda>ps. ps\<lparr>ps_clients := []\<rparr>) b
      in if \<not> (case fe of None \<Rightarrow> True | Some fe \<Rightarrow> fst (fe_stop waits fe)) then (False, b)
         else (True, if mqtt_enabled (bk_config b) then mqtt_callback mq_disconnect b else b))"

text \<open>\<open>run\<close>, cancelled by a signal when the activities end; an exception is raised again
  after the clean-up. The front-end is given as its LAN clients have left it then.\<close>

datatype ending = Ends "unit res" | Hangs

definition run_broker :: "bool \<Rightarrow> frontend \<Rightarrow> (json \<Rightarrow> string) \<Rightarrow> string \<Rightarrow> ('d device \<times> activity) list
    \<Rightarrow> config \<Rightarrow> time \<Rightarrow> 'd \<Rightarrow> (ending \<times> 'd broker) option" where
  "run_broker waits fe dumps version acts c now d =
     (let b = start_broker dumps version c now d
      in if run_tasks c = [] then Some (Ends (Inr ()), b)
         else
           map_option
             (\<lambda>(r, b).
                let (stopped, b) = shutdown waits (if cf_frontend_enabled c then Some fe else None) b
                in (if stopped then Ends r else Hangs, b))
             (activities acts b))"

text \<open>The exit status of the process.\<close>

definition exit_status :: "unit res \<Rightarrow> int" where
  "exit_status r = (case r of Inl _ \<Rightarrow> 1 | Inr _ \<Rightarrow> 0)"

section \<open>Atomic steps\<close>

text \<open>The operations on the store that the tasks perform: no subscription, and live values
  of the live registers only.\<close>

definition task_op :: "store_op \<Rightarrow> bool" where
  "task_op op \<longleftrightarrow> \<not> is_subscription op
     \<and> (case op of Live _ address _ \<Rightarrow> address \<in> set (map fst LIVE_REGISTERS) | _ \<Rightarrow> True)"

lemma task_op_simps [simp]:
  "task_op (Settings d)" "task_op Success" "task_op Failure" "task_op Wedged"
  "task_op (Optimistic a d)" "task_op (Reconcile e)" "task_op (Interpolate t)"
  "task_op (Live t a d) \<longleftrightarrow> a \<in> set (map fst LIVE_REGISTERS)"
  by (simp_all add: task_op_def is_subscription_def)

inductive other_step :: "bool \<Rightarrow> 'd broker \<Rightarrow> 'd broker \<Rightarrow> bool" for re where
  store: "task_op op \<Longrightarrow> other_step re b (on_store op b)"
| wedge: "other_step re b (on_wedge f b)"
| send: "other_step re b (broadcast_state b)"
| publish: "other_step re b (publish_now b)"
| request: "other_step re b (enqueue_command key payload b)"
| command: "other_step re b (b\<lparr>bk_commands := q\<rparr>)"
| frame: "other_step re b (handle_inbound parsed b)"
| intent: "bk_intents b = Some (i # q) \<Longrightarrow> other_step re b (b\<lparr>bk_intents := Some q\<rparr>)"
| push: "other_step re b (on_push f b)"
| cadence: "other_step re b (b\<lparr>bk_tick := n, bk_idle := idle\<rparr>)"
| reconnect: "re \<Longrightarrow> other_step re b (mqtt_callback on_connect b)"
| environment: "other_step re b (b\<lparr>bk_now := t, bk_dev := d\<rparr>)"

abbreviation steps :: "bool \<Rightarrow> 'd broker \<Rightarrow> 'd broker \<Rightarrow> bool" where
  "steps re \<equiv> (other_step re)\<^sup>*\<^sup>*"

text \<open>A device during whose awaits the other tasks take any of their steps, with \<open>re\<close> also the
  MQTT client one of its reconnects.\<close>

definition interleaving :: "bool \<Rightarrow> 'd device \<Rightarrow> bool" where
  "interleaving re dev \<longleftrightarrow>
     (\<forall>a n b. steps re b (snd (dv_read dev a n b)))
     \<and> (\<forall>a d b. steps re b (snd (dv_write dev a d b)))
     \<and> (\<forall>b. steps re b (dv_close_link dev b))
     \<and> (\<forall>dt b. steps re b (dv_sleep dev dt b))"

lemma other_step_mono: "other_step False b b' \<Longrightarrow> other_step True b b'"
  by (erule other_step.cases) (auto intro: other_step.intros)

lemma steps_after [trans]: "steps re a b \<Longrightarrow> other_step re b c \<Longrightarrow> steps re a c"
  by (rule rtranclp.rtrancl_into_rtrancl)

lemma steps_trans [trans]: "steps re a b \<Longrightarrow> steps re b c \<Longrightarrow> steps re a c"
  by (rule rtranclp_trans)

lemma steps_refl [simp, intro!]: "steps re b b"
  by (rule rtranclp.rtrancl_refl)

lemma steps_then:
  "steps re a b \<Longrightarrow> task_op op \<Longrightarrow> steps re a (on_store op b)"
  "steps re a b \<Longrightarrow> steps re a (on_wedge f b)"
  "steps re a b \<Longrightarrow> steps re a (broadcast_state b)"
  "steps re a b \<Longrightarrow> steps re a (publish_now b)"
  "steps re a b \<Longrightarrow> steps re a (b\<lparr>bk_commands := q\<rparr>)"
  "steps re a b \<Longrightarrow> steps re a (on_push g b)"
  "steps re a b \<Longrightarrow> steps re a (handle_inbound parsed b)"
  "steps re a b \<Longrightarrow> steps re a (enqueue_command k p b)"
  by (blast intro: steps_after other_step.intros)+

lemma steps_awaits:
  assumes "interleaving re dev" "steps re a b"
  shows "dv_read dev address n b = (r, c) \<Longrightarrow> steps re a c"
    and "dv_write dev address d b = (r', c) \<Longrightarrow> steps re a c"
    and "steps re a (dv_close_link dev b)" and "steps re a (dv_sleep dev dt b)"
proof -
  have "steps re b (snd (dv_read dev address n b))" "steps re b (snd (dv_write dev address d b))"
    "steps re b (dv_close_link dev b)" "steps re b (dv_sleep dev dt b)"
    using assms(1) by (simp_all add: interleaving_def)
  then show "dv_read dev address n b = (r, c) \<Longrightarrow> steps re a c"
    "dv_write dev address d b = (r', c) \<Longrightarrow> steps re a c"
    "steps re a (dv_close_link dev b)" "steps re a (dv_sleep dev dt b)"
    using steps_trans [OF assms(2)] by auto
qed

lemma steps_mono: "steps False b b' \<Longrightarrow> steps True b b'"
  by (induction rule: rtranclp_induct) (auto intro: steps_after other_step_mono)

lemma interleaving_mono: "interleaving False dev \<Longrightarrow> interleaving re dev"
  by (cases re) (auto simp: interleaving_def intro: steps_mono)

section \<open>Every round is a run of atomic steps\<close>

lemma poll_settings_steps:
  "interleaving re dev \<Longrightarrow> steps re a b \<Longrightarrow> poll_settings dev b = (r, c) \<Longrightarrow> steps re a c"
  by (auto simp: poll_settings_def intro: steps_awaits(1) steps_then split: prod.splits sum.splits)

lemma poll_live_steps:
  assumes "interleaving re dev" "steps re a b" "set regs \<subseteq> set LIVE_REGISTERS"
    "poll_live dev regs b = (r, c)"
  shows "steps re a c"
  using assms(2-4)
proof (induction regs arbitrary: b)
  case (Cons reg regs)
  obtain address n where reg: "reg = (address, n)" by (cases reg)
  obtain r1 b1 where e: "dv_read dev address n b = (r1, b1)" by (cases "dv_read dev address n b")
  have b1: "steps re a b1" using steps_awaits(1) [OF assms(1) Cons.prems(1) e] .
  have live: "task_op (Live (bk_now b1) address d)" for d
    using Cons.prems(2) by (force simp: reg)
  show ?case
  proof (cases r1)
    case (Inr d)
    have "poll_live dev regs (on_store (Live (bk_now b1) address d) b1) = (r, c)"
      using Cons.prems(3) by (simp add: reg e Inr)
    then show ?thesis using Cons.prems(2) by (intro Cons.IH [OF steps_then(1) [OF b1 live]]) auto
  qed (use b1 Cons.prems(3) in \<open>simp add: reg e\<close>)
qed simp

lemma poll_failed_steps:
  assumes "interleaving re dev" "steps re a b"
  shows "steps re a (poll_failed dev b)"
proof -
  let ?b = "on_wedge (record_failure (bk_now b)) (on_store Failure b)"
  have "steps re a ?b" using assms(2) by (intro steps_then) simp_all
  then show ?thesis
    unfolding poll_failed_def Let_def
    by (auto simp: Let_def intro!: steps_awaits(3) [OF assms(1)] steps_then assms(2))
qed

lemma poll_once_steps:
  assumes "interleaving re dev" "steps re a b"
  shows "steps re a (poll_once dev read_settings b)"
proof -
  obtain r1 b1 where e1: "(if read_settings then poll_settings dev b else (Inr (), b)) = (r1, b1)"
    by (cases "if read_settings then poll_settings dev b else (Inr (), b)")
  have b1: "steps re a b1"
    using e1 assms(2) poll_settings_steps [OF assms, of r1 b1] by (cases read_settings) auto
  obtain r2 b2 where e2: "(case r1 of Inl e \<Rightarrow> (Inl e, b1) | Inr _ \<Rightarrow> poll_live dev LIVE_REGISTERS b1)
      = (r2, b2)"
    by (cases "case r1 of Inl e \<Rightarrow> (Inl e, b1) | Inr _ \<Rightarrow> poll_live dev LIVE_REGISTERS b1")
  have b2: "steps re a b2"
    using e2 b1 poll_live_steps [OF assms(1) b1 subset_refl] by (auto split: sum.splits)
  have "poll_once dev read_settings b =
      (case r2 of Inr _ \<Rightarrow> on_wedge record_success (on_store Success b2) | Inl _ \<Rightarrow> poll_failed dev b2)"
    by (simp add: poll_once_def e1 e2)
  then show ?thesis
    using poll_failed_steps [OF assms(1) b2] steps_then(2) [OF steps_then(1) [OF b2]]
    by (simp split: sum.split)
qed

lemma probe_cycle_steps:
  assumes "interleaving re dev" "steps re a b"
  shows "steps re a (probe_cycle dev b)"
proof -
  obtain r b1 where e: "poll_settings dev b = (r, b1)" by (cases "poll_settings dev b")
  have b1: "steps re a b1" using poll_settings_steps [OF assms e] .
  have w: "b1\<lparr>bk_wedge := w\<rparr> = on_wedge (\<lambda>_. w) b1" for w by (simp add: on_wedge_def)
  show ?thesis
  proof (cases r)
    case (Inl x)
    have "steps re a (dv_close_link dev
        (on_store Wedged (on_wedge (\<lambda>w. fst (begin_cooldown (bk_now b1) w)) b1)))"
      by (intro steps_awaits(3) [OF assms(1)] steps_then b1) simp
    then show ?thesis by (simp add: probe_cycle_def probe_link_def e Inl)
  next
    case (Inr u)
    then show ?thesis
      using steps_then(1) [OF steps_then(2) [OF b1]] steps_then(2) [OF b1]
      by (simp add: probe_cycle_def probe_link_def e Let_def w split: prod.split)
  qed
qed

lemma idle_steps: "steps re a b \<Longrightarrow> steps re a (b\<lparr>bk_idle := idle\<rparr>)"
  and tick_steps: "steps re a b \<Longrightarrow> steps re a (b\<lparr>bk_tick := n\<rparr>)"
proof -
  have "b\<lparr>bk_idle := idle\<rparr> = b\<lparr>bk_tick := bk_tick b, bk_idle := idle\<rparr>"
    "b\<lparr>bk_tick := n\<rparr> = b\<lparr>bk_tick := n, bk_idle := bk_idle b\<rparr>" by simp_all
  then show "steps re a b \<Longrightarrow> steps re a (b\<lparr>bk_idle := idle\<rparr>)"
    "steps re a b \<Longrightarrow> steps re a (b\<lparr>bk_tick := n\<rparr>)"
    by (metis steps_after other_step.cadence)+
qed

lemma poll_cycle_steps:
  assumes "interleaving re dev" "steps re a b"
  shows "steps re a (poll_cycle dev k b)"
proof -
  have b: "steps re a (b\<lparr>bk_idle := idle\<rparr>)" for idle using assms(2) by (rule idle_steps)
  then show ?thesis
    unfolding poll_cycle_def Let_def
    by (auto intro!: tick_steps steps_then steps_awaits(3) [OF assms(1)]
        probe_cycle_steps [OF assms(1)] poll_once_steps [OF assms(1)])
qed

lemma loop_sleep_steps:
  "interleaving re dev \<Longrightarrow> steps re a b \<Longrightarrow> steps re a (loop_sleep dev dt b)"
  by (auto simp: loop_sleep_def intro: steps_awaits(4) split: pyfloat.split)

lemma apply_command_steps:
  assumes "interleaving re dev" "steps re a b" "apply_command dev key payload b = (r, c)"
  shows "steps re a c"
proof -
  show ?thesis
  proof (cases "\<exists>enc address d. find_encoder key = Some enc \<and> enc payload = Inr (address, d)")
    case False
    then show ?thesis
      using assms(2,3) by (auto simp: apply_command_def split: option.splits sum.splits)
  next
    case True
    then obtain enc address d where enc: "find_encoder key = Some enc" "enc payload = Inr (address, d)"
      by blast
    obtain r1 b1 where e: "dv_write dev address d b = (r1, b1)" by (cases "dv_write dev address d b")
    have b1: "steps re a b1" using steps_awaits(2) [OF assms(1,2) e] .
    obtain r2 b2 where e2: "(case r1 of Inl e \<Rightarrow> (Inl e, b1) | Inr _ \<Rightarrow> poll_settings dev b1) = (r2, b2)"
      by (cases "case r1 of Inl e \<Rightarrow> (Inl e, b1) | Inr _ \<Rightarrow> poll_settings dev b1")
    have b2: "steps re a b2"
      using e2 b1 poll_settings_steps [OF assms(1) b1] by (auto split: sum.splits)
    have "(r, c) = (case r2 of
              Inr _ \<Rightarrow> (Inr (), publish_now (on_store Success b2))
            | Inl e \<Rightarrow>
                if e = R60VConnectionError then (Inr (), on_store Failure b2)
                else (Inl e, b2))"
      using assms(3) e e2 by (simp add: apply_command_def enc)
    then show ?thesis
      using b2 steps_then(4) [OF steps_then(1) [OF b2]] steps_then(1) [OF b2]
      by (auto split: sum.splits if_splits)
  qed
qed

lemma command_round_steps:
  "interleaving re dev \<Longrightarrow> steps re a b \<Longrightarrow> command_round dev b = (r, c) \<Longrightarrow> steps re a c"
  by (auto simp: command_round_def intro: apply_command_steps steps_then
      split: option.splits list.splits)

lemma wait_cooldown_steps:
  assumes "wait_cooldown dev b = Some c" "interleaving re dev"
  shows "steps re b c"
proof -
  have "interleaving re dev \<longrightarrow> steps re b c"
  proof (rule wait_cooldown.raw_induct [where P = "\<lambda>dev b c. interleaving re dev \<longrightarrow> steps re b c",
        OF _ assms(1)], intro impI)
    fix wait :: "'a device \<Rightarrow> 'a broker \<Rightarrow> 'a broker option" and dev b c
    assume IH: "\<And>dev b c. wait dev b = Some c \<Longrightarrow> interleaving re dev \<longrightarrow> steps re b c"
      and w: "(if in_cooldown (bk_now b) (bk_wedge b)
        then wait dev (dv_sleep dev (min (cooldown_remaining (bk_now b) (bk_wedge b) + 1 / 20) 5) b)
        else Some b) = Some c"
      and dev: "interleaving re dev"
    show "steps re b c"
    proof (cases "in_cooldown (bk_now b) (bk_wedge b)")
      case True
      let ?c = "dv_sleep dev (min (cooldown_remaining (bk_now b) (bk_wedge b) + 1 / 20) 5) b"
      have "steps re ?c c" using IH [of dev ?c c] w True dev by simp
      then show ?thesis using steps_trans [OF steps_awaits(4) [OF dev steps_refl]] by blast
    qed (use w in simp)
  qed
  then show ?thesis using assms(2) by blast
qed

lemma write_tries_steps:
  assumes "interleaving re dev" "steps re x b" "write_tries dev n a d b = (r, c)"
  shows "steps re x c"
  using assms(2,3)
proof (induction n arbitrary: b)
  case 0
  obtain r1 b1 where e: "dv_write dev a d b = (r1, b1)" by (cases "dv_write dev a d b")
  show ?case
    using 0 steps_awaits(2) [OF assms(1) 0(1) e] by (auto simp: e split: sum.splits if_splits)
next
  case (Suc n)
  obtain r1 b1 where e: "dv_write dev a d b = (r1, b1)" by (cases "dv_write dev a d b")
  have b1: "steps re x b1" using steps_awaits(2) [OF assms(1) Suc.prems(1) e] .
  have "steps re x (dv_sleep dev WRITE_RETRY_BACKOFF b1)" by (rule steps_awaits(4) [OF assms(1) b1])
  then show ?case
    using Suc b1 by (auto simp: e split: sum.splits if_splits)
qed

lemma reconcile_steps:
  assumes "interleaving re dev" "steps re x b" "reconcile dev wrote a d b = (r, c)"
  shows "steps re x c"
proof -
  define b1 where "b1 = (let b = on_store (Reconcile (intent_bytes a d)) b
    in if wrote then b else on_store Failure b)"
  have b1: "steps re x b1" unfolding b1_def Let_def using assms(2) by (auto intro!: steps_then)
  obtain r2 b2 where e: "poll_settings dev b1 = (r2, b2)" by (cases "poll_settings dev b1")
  have b2: "steps re x b2" using poll_settings_steps [OF assms(1) b1 e] .
  have "(r, c) = (case r2 of Inr _ \<Rightarrow> (Inr (), broadcast_state (on_store Success b2))
         | Inl e \<Rightarrow> if e = R60VConnectionError then (Inr (), broadcast_state (on_store Failure b2))
                    else (Inl e, b2))"
    using assms(3) e by (cases wrote; cases r2) (auto simp: reconcile_def b1_def Let_def)
  then show ?thesis
    using b2 steps_then(3) [OF steps_then(1) [OF b2]] by (auto split: sum.splits if_splits)
qed

lemma intent_round_steps:
  assumes "interleaving re dev" "steps re x b" "intent_round dev b = Some c"
  shows "steps re x c"
proof (cases "\<exists>a d q. bk_intents b = Some ((a, d) # q)")
  case False
  then show ?thesis
    using assms(2,3) by (auto simp: intent_round_def split: option.splits list.splits)
next
  case True
  then obtain a d q where q: "bk_intents b = Some ((a, d) # q)" by blast
  let ?b = "b\<lparr>bk_intents := Some q\<rparr>"
  have b: "steps re x ?b" using steps_after [OF assms(2) other_step.intent [OF q]] .
  obtain b1 where b1: "wait_cooldown dev ?b = Some b1"
    using assms(3) by (auto simp: intent_round_def q write_and_reconcile_def)
  obtain r2 b2 where e: "write_tries dev WRITE_RETRIES a d b1 = (r2, b2)"
    by (cases "write_tries dev WRITE_RETRIES a d b1")
  have b2: "steps re x b2"
    using write_tries_steps [OF assms(1) steps_trans [OF b wait_cooldown_steps [OF b1 assms(1)]] e] .
  have "c = b2 \<or> (\<exists>wrote. c = snd (reconcile dev wrote a d b2))"
    using assms(3) by (cases r2) (auto simp: intent_round_def q write_and_reconcile_def b1 e)
  then show ?thesis using b2 reconcile_steps [OF assms(1) b2 prod.collapse [symmetric]] by auto
qed

lemma receive_message_steps: "steps re a b \<Longrightarrow> steps re a (receive_message topic payload b)"
  by (auto simp: receive_message_def intro: steps_then split: option.split prod.split)

lemma perform_steps:
  assumes "interleaving re dev" "a = Mqtt_connected \<longrightarrow> re" "perform dev a b = Some (r, c)"
  shows "steps re b c"
proof (cases a)
  case Poll
  then show ?thesis
    using assms(1,3)
    by (auto simp: poll_round_def intro!: loop_sleep_steps poll_cycle_steps
        split: sum.splits prod.splits)
next
  case Command
  then show ?thesis using command_round_steps [OF assms(1) steps_refl] assms(3) by auto
next
  case Publish
  then show ?thesis
    using assms(1,3) by (auto simp: publish_round_def intro!: loop_sleep_steps steps_then)
next
  case Intent
  then show ?thesis using intent_round_steps [OF assms(1) steps_refl] assms(3) by auto
next
  case Mqtt_connected
  then show ?thesis using assms(2,3) by (auto intro: steps_after other_step.reconnect)
qed (use assms in \<open>auto intro!: steps_then receive_message_steps\<close>)

section \<open>The invariant\<close>

definition intents_ok :: "(int \<times> int list) list option \<Rightarrow> bool" where
  "intents_ok intents \<longleftrightarrow>
     (\<exists>q. intents = Some q \<and> length q \<le> INTENT_QUEUE_MAX
        \<and> (\<forall>(a, d) \<in> set q. d \<noteq> [] \<and> list_all is_byte d))"

text \<open>The store is what some history of the tasks' operations made of the initial one.\<close>

definition store_reached :: "store \<Rightarrow> bool" where
  "store_reached st \<longleftrightarrow>
     (\<exists>hist. list_all task_op hist \<and> st = store_run hist (subscribe PUBLISHER (new_store 4 12 1)))"

definition online_inv :: "config \<Rightarrow> store \<times> publisher \<times> mqtt \<Rightarrow> bool" where
  "online_inv c s \<longleftrightarrow> bus_inv c s
     \<and> (case s of (st, p, q) \<Rightarrow> pb_last p = None \<longrightarrow> last_availability c q = Some ''online'')"

text \<open>The last part holds as long as the MQTT client does not reconnect.\<close>

definition broker_inv :: "bool \<Rightarrow> config \<Rightarrow> 'd broker \<Rightarrow> bool" where
  "broker_inv re c b \<longleftrightarrow>
     bk_config b = c \<and> store_reached (bk_store b) \<and> intents_ok (bk_intents b)
     \<and> (mqtt_enabled c \<longrightarrow> mq_connected (bk_mqtt b))
     \<and> (mqtt_enabled c \<and> \<not> re \<longrightarrow> online_inv c (bk_store b, bk_pub b, bk_mqtt b))"

lemma store_reached_step:
  assumes "store_reached st" "task_op op"
  shows "store_reached (store_step op st)"
proof -
  obtain hist where h: "list_all task_op hist" "st = store_run hist (subscribe PUBLISHER (new_store 4 12 1))"
    using assms(1) by (auto simp: store_reached_def)
  then have "list_all task_op (hist @ [op])"
    "store_step op st = store_run (hist @ [op]) (subscribe PUBLISHER (new_store 4 12 1))"
    using assms(2) by simp_all
  then show ?thesis unfolding store_reached_def by blast
qed

lemma pb_last_fold:
  "pb_last (fst pq) \<noteq> None \<Longrightarrow> pb_last (fst (fold (\<lambda>e. on_store_change c (snd e)) evs pq)) \<noteq> None"
proof (induction evs arbitrary: pq)
  case (Cons e evs)
  have "pb_last (fst (on_store_change c (snd e) pq)) \<noteq> None"
    using Cons.prems by (cases pq) (simp add: on_store_change_def)
  from Cons.IH [OF this] show ?case by simp
qed simp

lemma deliver_silent:
  assumes "pb_last (fst (deliver c st (p, q))) = None"
  shows "pb_last p = None \<and> snd (deliver c st (p, q)) = q"
proof -
  define evs where "evs = filter (\<lambda>e. fst e = PUBLISHER) (drop (pb_seen p) (st_events st))"
  have d: "deliver c st (p, q) = (let (p', q') = fold (\<lambda>e. on_store_change c (snd e)) evs (p, q)
      in (p'\<lparr>pb_seen := length (st_events st)\<rparr>, q'))"
    by (simp add: deliver_def evs_def)
  then have last: "pb_last (fst (fold (\<lambda>e. on_store_change c (snd e)) evs (p, q))) = None"
    using assms by (simp split: prod.splits)
  have p: "pb_last p = None" using last pb_last_fold [of "(p, q)" c evs] by (cases "pb_last p") auto
  have "evs = []"
  proof (cases evs)
    case (Cons e rest)
    have "pb_last (fst (on_store_change c (snd e) (p, q))) \<noteq> None"
      using p by (simp add: on_store_change_def)
    then show ?thesis
      using last pb_last_fold [of "on_store_change c (snd e) (p, q)" c rest] by (simp add: Cons)
  qed
  then show ?thesis using p by (simp add: d)
qed

lemma online_inv_step:
  assumes "online_inv c s" "\<not> is_subscription op"
  shows "online_inv c (bus_step c op s)"
proof -
  obtain st p q where s: "s = (st, p, q)" by (cases s) auto
  obtain p' q' where d: "deliver c (store_step op st) (p, q) = (p', q')"
    by (cases "deliver c (store_step op st) (p, q)")
  have "pb_last p' = None \<longrightarrow> last_availability c q' = Some ''online''"
    using deliver_silent [of c "store_step op st" p q] assms(1) by (auto simp: d online_inv_def s)
  then show ?thesis
    using bus_inv_step [of c s op] assms by (simp add: online_inv_def s bus_step_def d)
qed

text \<open>No topic but the availability topic ends as that does.\<close>

lemma other_topics:
  "state_topic c key \<noteq> availability_topic c" "climate_current_topic c key \<noteq> availability_topic c"
  "climate_target_state_topic c key \<noteq> availability_topic c"
  "climate_mode_topic c key \<noteq> availability_topic c"
  "discovery_topic c component key \<noteq> availability_topic c"
proof -
  have "t \<noteq> availability_topic c" if "last t \<noteq> CHR ''s''" for t
    using that by (auto simp: availability_topic_def)
  then show "state_topic c key \<noteq> availability_topic c"
    "climate_current_topic c key \<noteq> availability_topic c"
    "climate_target_state_topic c key \<noteq> availability_topic c"
    "climate_mode_topic c key \<noteq> availability_topic c"
    "discovery_topic c component key \<noteq> availability_topic c"
    by (simp_all add: topic_defs discovery_topic_def)
qed

definition same_announcement :: "config \<Rightarrow> mqtt \<Rightarrow> mqtt \<Rightarrow> bool" where
  "same_announcement c q q' \<longleftrightarrow>
     mq_connected q' = mq_connected q \<and> last_availability c q' = last_availability c q"

lemma same_announcement_fold:
  assumes "\<And>x q. same_announcement c q (f x q)"
  shows "same_announcement c q (fold f xs q)"
proof (induction xs arbitrary: q)
  case (Cons x xs)
  then show ?case using assms [of q x] Cons [of "f x q"] by (simp add: same_announcement_def)
qed (simp add: same_announcement_def)

lemma same_announcement_publish:
  "topic \<noteq> availability_topic c \<Longrightarrow> same_announcement c q (mq_publish topic payload q)"
  by (simp add: same_announcement_def last_availability_publish)

lemma same_announcement_trans:
  "same_announcement c q q' \<Longrightarrow> same_announcement c q' q'' \<Longrightarrow> same_announcement c q q''"
  by (simp add: same_announcement_def)

lemma same_announcement_views:
  "same_announcement c q (publish_entity c snap e q)"
  "same_announcement c q (publish_thermostat c snap cl q)"
proof -
  show "same_announcement c q (publish_entity c snap e q)"
    by (simp add: publish_entity_def publish_state_def other_topics same_announcement_def
        last_availability_publish split: sum.split)
  show "same_announcement c q (publish_thermostat c snap cl q)"
    by (auto simp: publish_thermostat_def publish_climate_def same_announcement_def other_topics
        last_availability_publish split: sum.split)
qed

lemma same_announcement_discovery:
  "same_announcement c q (publish_discovery dumps c version q)"
  unfolding publish_discovery_def Let_def
  by (intro same_announcement_trans [OF same_announcement_fold same_announcement_fold]
      same_announcement_publish other_topics)

lemma bus_inv_same:
  assumes "bus_inv c (st, p, q)" "same_announcement c q q'"
    and "st_listeners st' = st_listeners st" "st_events st' = st_events st"
    and "available st' = available st"
  shows "bus_inv c (st', p, q')"
  using assms by (simp add: bus_inv_def mirrored_def same_announcement_def)

lemma broker_inv_publish:
  assumes "broker_inv re c b"
  shows "broker_inv re c (publish_now b)"
proof -
  obtain st q where e: "publish c (bk_now b) (bk_store b, bk_mqtt b) = (st, q)"
    by (cases "publish c (bk_now b) (bk_store b, bk_mqtt b)")
  have b: "bk_config b = c" using assms by (simp add: broker_inv_def)
  have st: "st = bk_store b \<or> st = store_step (Interpolate (bk_now b)) (bk_store b)"
    using e by (auto simp: publish_def Let_def split: if_splits)
  have "store_reached st" using st assms store_reached_step [of "bk_store b" "Interpolate (bk_now b)"]
    by (auto simp: broker_inv_def)
  moreover have "same_announcement c (bk_mqtt b) q"
  proof (cases "st_have_data (bk_store b)")
    case True
    let ?snap = "st_snapshot st"
    let ?q = "fold (publish_entity c ?snap) ENTITIES (bk_mqtt b)"
    have "q = fold (publish_thermostat c ?snap) CLIMATE_ENTITIES ?q"
      using e True by (auto simp: publish_def Let_def)
    moreover have "same_announcement c (bk_mqtt b) ?q"
      by (rule same_announcement_fold) (rule same_announcement_views)
    moreover have "same_announcement c ?q (fold (publish_thermostat c ?snap) CLIMATE_ENTITIES ?q)"
      by (rule same_announcement_fold) (rule same_announcement_views)
    ultimately show ?thesis by (simp only: same_announcement_trans)
  next
    case False
    then show ?thesis using e by (simp add: publish_def same_announcement_def)
  qed
  moreover have "st_listeners st = st_listeners (bk_store b)" "st_events st = st_events (bk_store b)"
    "available st = available (bk_store b)"
    using st store_step_listeners [of "Interpolate (bk_now b)" "bk_store b"]
    by (auto simp: is_subscription_def available_def)
  ultimately show ?thesis
    using assms bus_inv_same [of c "bk_store b" "bk_pub b" "bk_mqtt b" q st]
    by (simp add: broker_inv_def online_inv_def same_announcement_def publish_now_def b e)
qed

lemma broker_inv_frames:
  assumes "broker_inv re c b"
  shows "broker_inv re c (b\<lparr>bk_wedge := w\<rparr>)" "broker_inv re c (b\<lparr>bk_push := ps\<rparr>)"
    "broker_inv re c (b\<lparr>bk_commands := cs\<rparr>)" "broker_inv re c (b\<lparr>bk_tick := n\<rparr>)"
    "broker_inv re c (b\<lparr>bk_idle := i\<rparr>)" "broker_inv re c (b\<lparr>bk_now := t\<rparr>)" "broker_inv re c (b\<lparr>bk_dev := d\<rparr>)"
    "intents_ok is \<Longrightarrow> broker_inv re c (b\<lparr>bk_intents := is\<rparr>)"
  using assms by (simp_all add: broker_inv_def)

lemma deliver_connected: "mq_connected (snd (deliver c st (p, q))) = mq_connected q"
proof -
  have "mq_connected (snd (fold (\<lambda>e. on_store_change c (snd e)) evs (p, q))) = mq_connected q" for evs
    by (induction evs arbitrary: p q)
      (auto simp: on_store_change_def publish_availability_def mq_publish_def Let_def)
  then show ?thesis by (simp add: deliver_def split_def Let_def)
qed

lemma broker_inv_on_store:
  assumes "broker_inv re c b" "task_op op"
  shows "broker_inv re c (on_store op b)"
proof -
  have c: "bk_config b = c" using assms(1) by (simp add: broker_inv_def)
  have "\<not> is_subscription op" using assms(2) by (simp add: task_op_def)
  note step = online_inv_step [OF _ this]
  obtain st p q where e: "bus_step c op (bk_store b, bk_pub b, bk_mqtt b) = (st, p, q)"
    by (cases "bus_step c op (bk_store b, bk_pub b, bk_mqtt b)") auto
  then have st: "st = store_step op (bk_store b)" by (simp add: bus_step_def Let_def split: prod.splits)
  have o: "on_store op b = b\<lparr>bk_store := st, bk_pub := p, bk_mqtt := q\<rparr>"
    by (simp add: on_store_def c e)
  have "mqtt_enabled c \<and> \<not> re \<longrightarrow> online_inv c (st, p, q)"
    using step [of c "(bk_store b, bk_pub b, bk_mqtt b)"] assms(1) by (simp add: e broker_inv_def)
  moreover have "mq_connected q = mq_connected (bk_mqtt b)"
    using e deliver_connected [of c "store_step op (bk_store b)" "bk_pub b" "bk_mqtt b"]
    by (auto simp: bus_step_def Let_def prod_eq_iff)
  ultimately show ?thesis
    using assms(1) store_reached_step [OF _ assms(2), of "bk_store b"] by (simp add: o broker_inv_def st)
qed

lemma broker_inv_frame:
  assumes "broker_inv re c b"
  shows "broker_inv re c (handle_inbound parsed b)"
proof -
  have "broker_inv re c (on_ws_command frame b)" for frame
  proof (cases "parse_command frame")
    case (Some ad)
    obtain a d where ad: "ad = (a, d)" by (cases ad)
    obtain q where q: "bk_intents b = Some q" "length q \<le> INTENT_QUEUE_MAX"
      "\<forall>(a, d) \<in> set q. d \<noteq> [] \<and> list_all is_byte d"
      using assms by (auto simp: broker_inv_def intents_ok_def)
    show ?thesis
    proof (cases "INTENT_QUEUE_MAX \<le> length q")
      case False
      then have "intents_ok (Some (q @ [(a, d)]))"
        using q parse_command_bytes [OF Some [unfolded ad]] by (simp add: intents_ok_def)
      then have "broker_inv re c (on_store (Optimistic a d) (b\<lparr>bk_intents := Some (q @ [(a, d)])\<rparr>))"
        using assms by (simp add: broker_inv_on_store broker_inv_frames)
      then show ?thesis
        using False by (simp add: on_ws_command_def Some ad q(1) broadcast_state_def broker_inv_frames)
    qed (use assms in \<open>simp add: on_ws_command_def Some ad q(1)\<close>)
  qed (use assms in \<open>simp add: on_ws_command_def\<close>)
  then show ?thesis using assms by (auto simp: handle_inbound_def split: option.split json.split)
qed

lemma broker_inv_step:
  assumes "other_step re b b'" "broker_inv re c b"
  shows "broker_inv re c b'"
  using assms
proof (induction rule: other_step.induct)
  case (intent b i q)
  then have "intents_ok (Some q)" by (auto simp: broker_inv_def intents_ok_def)
  then show ?case using intent by (simp add: broker_inv_frames)
next
  case (reconnect b)
  then show ?case
    by (simp add: broker_inv_def mqtt_callback_def on_connect_def publish_availability_def mq_publish_def)
qed (simp_all add: broker_inv_on_store broker_inv_publish broker_inv_frame broker_inv_frames
    on_wedge_def broadcast_state_def enqueue_command_def on_push_def)

lemma broker_inv_steps:
  assumes "steps re b b'" "broker_inv re c b"
  shows "broker_inv re c b'"
  using assms by (induction rule: rtranclp_induct) (auto intro: broker_inv_step)

definition acts_ok :: "bool \<Rightarrow> ('d device \<times> activity) list \<Rightarrow> bool" where
  "acts_ok re acts \<longleftrightarrow> (\<forall>(dev, a) \<in> set acts. interleaving re dev \<and> (a = Mqtt_connected \<longrightarrow> re))"

lemma broker_inv_activities:
  assumes "acts_ok re acts"
    and "broker_inv re c b" "activities acts b = Some (r, b')"
  shows "broker_inv re c b'"
  using assms
proof (induction acts b rule: activities.induct)
  case (2 dev a rest b)
  have p: "broker_inv re c b1" if "perform dev a b = Some (r1, b1)" for r1 b1
    using that "2.prems" perform_steps [of re dev a b r1 b1] broker_inv_steps
    by (auto simp: acts_ok_def)
  show ?case
  proof (cases "task_of a \<in> set (run_tasks (bk_config b))")
    case False
    then show ?thesis using 2 by (simp add: acts_ok_def)
  next
    case True
    then obtain r1 b1 where e: "perform dev a b = Some (r1, b1)"
      using "2.prems"(3) by (auto split: option.splits)
    show ?thesis
    proof (cases r1)
      case (Inl x)
      then show ?thesis using "2.prems"(3) True p [OF e] by (simp add: e)
    next
      case (Inr u)
      then show ?thesis using 2 True p [OF e] by (simp add: e acts_ok_def)
    qed
  qed
qed simp

lemma start_base: "store_reached (subscribe PUBLISHER (new_store 4 12 1))" "intents_ok (Some [])"
proof -
  show "store_reached (subscribe PUBLISHER (new_store 4 12 1))"
    unfolding store_reached_def by (rule exI [of _ "[]"]) (simp add: store_run_def)
qed (simp add: intents_ok_def)

lemma discovery_connected:
  "mq_connected (publish_discovery dumps c version (new_mqtt\<lparr>mq_connected := True\<rparr>))"
  using same_announcement_discovery [of c "new_mqtt\<lparr>mq_connected := True\<rparr>" dumps version]
  by (simp add: same_announcement_def)

lemma start_broker_inv: "broker_inv True c (start_broker dumps version c now d)"
  using start_base discovery_connected
  by (simp add: broker_inv_def start_broker_def new_broker_def Let_def)

lemma connected_broker_inv:
  assumes "activities [(dev, Mqtt_connected)] (start_broker dumps version c now d) = Some (r, b)"
  shows "broker_inv False c b"
proof (cases "mqtt_enabled c")
  case False
  then have "b = new_broker c now d"
    using assms by (simp add: start_broker_def run_tasks_def new_broker_def Let_def)
  then show ?thesis using False start_base by (simp add: broker_inv_def new_broker_def)
next
  case True
  let ?q = "publish_discovery dumps c version (new_mqtt\<lparr>mq_connected := True\<rparr>)"
  have b: "b = (new_broker c now d)\<lparr>bk_mqtt := on_connect c ?q\<rparr>"
    using assms True
    by (simp add: start_broker_def run_tasks_def new_broker_def mqtt_callback_def Let_def)
  note q = discovery_connected [of dumps c version]
  have "bus_inv c (subscribe PUBLISHER (new_store 4 12 1), new_publisher, on_connect c ?q)"
    "last_availability c (on_connect c ?q) = Some ''online''" "mq_connected (on_connect c ?q)"
    using q by (simp_all add: bus_inv_new on_connect_def last_availability_publish_availability)
  then show ?thesis
    using start_base by (simp add: b broker_inv_def online_inv_def new_broker_def new_publisher_def)
qed

section \<open>Runs\<close>

lemma activities_append:
  "activities (xs @ ys) b =
     (case activities xs b of
        None \<Rightarrow> None
      | Some (Inl e, b) \<Rightarrow> Some (Inl e, b)
      | Some (Inr _, b) \<Rightarrow> activities ys b)"
  by (induction xs b rule: activities.induct)
    (auto split: option.split sum.split prod.split)

text \<open>Only an intent's wait for the end of a cooldown could go on for ever.\<close>

lemma activities_return:
  "\<forall>(dev, a) \<in> set acts. a \<noteq> Intent \<Longrightarrow> activities acts b \<noteq> None"
proof (induction acts b rule: activities.induct)
  case (2 dev a rest b)
  have "perform dev a b \<noteq> None" using "2.prems" by (cases a) auto
  then obtain r1 b1 where e: "perform dev a b = Some (r1, b1)" by auto
  show ?case using 2 e by (auto simp: e split: sum.split)
qed simp

lemma reached_inv:
  assumes "acts_ok True acts" "activities acts (start_broker dumps version c now d) = Some (r, b)"
  shows "broker_inv True c b"
  using broker_inv_activities [OF assms(1) start_broker_inv assms(2)] .

text \<open>A run in which the MQTT client connects, first of all, and never again.\<close>

definition connects_once :: "('d device \<times> activity) list \<Rightarrow> bool" where
  "connects_once acts \<longleftrightarrow> acts \<noteq> [] \<and> snd (hd acts) = Mqtt_connected \<and> acts_ok False (tl acts)"

lemma connected_inv:
  assumes "connects_once acts" "activities acts (start_broker dumps version c now d) = Some (r, b)"
  shows "broker_inv False c b"
proof -
  let ?s = "start_broker dumps version c now d"
  obtain dev rest where acts: "acts = [(dev, Mqtt_connected)] @ rest" "acts_ok False rest"
    using assms(1) by (cases acts) (auto simp: connects_once_def)
  obtain r0 b0 where e: "activities [(dev, Mqtt_connected)] ?s = Some (r0, b0)"
    using activities_return [of "[(dev, Mqtt_connected)]" ?s] by auto
  have inv: "broker_inv False c b0" by (rule connected_broker_inv [OF e])
  have "activities acts ?s = (case r0 of Inl x \<Rightarrow> Some (Inl x, b0) | Inr _ \<Rightarrow> activities rest b0)"
    unfolding acts(1) activities_append e by (simp split: sum.split)
  then have "(r, b) = (r0, b0) \<or> activities rest b0 = Some (r, b)"
    using assms(2) by (cases r0) auto
  then show ?thesis using inv broker_inv_activities [OF acts(2) inv, of r b] by auto
qed

lemma store_reached_overlay:
  assumes "store_reached st"
  shows "overlay_inv st"
proof -
  have "overlay_inv (subscribe PUBLISHER (new_store 4 12 1))"
    using overlay_inv_step [OF overlay_inv_new, of "Subscribe PUBLISHER" 4 12 1] by simp
  then show ?thesis using assms overlay_inv_run by (auto simp: store_reached_def)
qed

lemma broker_inv_shows:
  assumes "broker_inv re c b"
  shows "overlay_inv (bk_store b)" and "intents_ok (bk_intents b)"
    and "mqtt_enabled c \<Longrightarrow> mq_connected (bk_mqtt b)"
    and "mqtt_enabled c \<Longrightarrow> \<not> re \<Longrightarrow>
      last_availability c (bk_mqtt b) = Some (verdict_msg (available (bk_store b)))"
proof -
  show "overlay_inv (bk_store b)" "intents_ok (bk_intents b)"
    and "mqtt_enabled c \<Longrightarrow> mq_connected (bk_mqtt b)"
    using assms store_reached_overlay by (simp_all add: broker_inv_def)
  assume "mqtt_enabled c" "\<not> re"
  then have "online_inv c (bk_store b, bk_pub b, bk_mqtt b)" using assms by (simp add: broker_inv_def)
  then show "last_availability c (bk_mqtt b) = Some (verdict_msg (available (bk_store b)))"
    by (cases "pb_last (bk_pub b)") (auto simp: online_inv_def bus_inv_def mirrored_def verdict_msg_def)
qed

text \<open>A machine during whose reads a subscriber's command arrives.\<close>

definition busy_machine :: "unit device" where
  "busy_machine = good_machine\<lparr>dv_read := \<lambda>a n b.
     (Inr (replicate (nat n) 1),
      handle_inbound (Some (JObj [(''type'', JStr ''command''), (''address'', JInt 1),
        (''data'', JList [JInt 7])])) b)\<rparr>"

lemma interleaving_machines: "interleaving re good_machine" "interleaving re busy_machine"
proof -
  have "b\<lparr>bk_now := t\<rparr> = b\<lparr>bk_now := t, bk_dev := bk_dev b\<rparr>" for b :: "unit broker" and t
    by (cases b) simp
  then have "steps re b (b\<lparr>bk_now := t\<rparr>)" for b :: "unit broker" and t
    using steps_after [OF steps_refl other_step.environment [where b = b and t = t and d = "bk_dev b"]]
    by metis
  then show "interleaving re good_machine" "interleaving re busy_machine"
    by (auto simp: interleaving_def good_machine_def busy_machine_def intro: steps_then)
qed

lemma last_availability_disconnected [simp]:
  "last_availability c (q\<lparr>mq_connected := online\<rparr>) = last_availability c q"
  by (simp add: last_availability_def)

section \<open>Facts on the intervals and the tasks\<close>

lemma poll_params_range:
  assumes "poll_params c = Inr (interval, settings_every)"
  shows "1 \<le> settings_every" and "\<not> float_less interval (to_float (2 / 10))" and "interval \<noteq> NaN"
proof -
  have t: "to_float (2 / 10) = Fin (fl (2 / 10))" using to_float_tenth [of 2] by simp
  show "1 \<le> settings_every" "\<not> float_less interval (to_float (2 / 10))" "interval \<noteq> NaN"
    using assms
    by (auto simp: poll_params_def bind_res_eq_Inr Let_def py_max_def t
        elim!: float_less.elims split: if_splits)
qed

text \<open>A settings interval that \<open>float()\<close> reads as an infinity ends the poll loop, and the
  daemon, before its first round.\<close>

lemma infinite_interval_stops_bridge:
  assumes "cf_settings_interval c = Inf neg" "cf_live_interval c = Fin x" "bk_config b = c"
    and "Poll_loop \<in> set (run_tasks c)"
  shows "activities ((dev, Poll) # rest) b = Some (Inl OverflowError, b)"
proof -
  have t: "to_float (1 / 5) = Fin (fl (1 / 5))" using to_float_tenth [of 2] by simp
  have "poll_params c = Inl OverflowError"
    using assms(1,2) by (simp add: poll_params_def py_max_def t Let_def)
  then show ?thesis using assms(3,4) by (simp add: poll_round_def)
qed

text \<open>Without a consumer the daemon starts no poll loop: it touches the machine only for
  a client of the front-end.\<close>

lemma no_consumer_no_polling:
  "Poll_loop \<in> set (run_tasks c) \<longleftrightarrow> mqtt_enabled c \<or> cf_push_enabled c"
  "run_tasks c = [] \<longleftrightarrow> \<not> mqtt_enabled c \<and> \<not> cf_push_enabled c \<and> \<not> cf_frontend_enabled c"
  by (simp_all add: run_tasks_def)

lemma thermostat_message:
  assumes "key \<in> {''brew_boiler'', ''steam_boiler''}"
  shows "on_message c (climate_target_command_topic c key) payload = Some (key, payload)"
proof -
  have "\<exists>cl \<in> set CLIMATE_ENTITIES. cl_key cl = key"
    using assms by (auto simp: CLIMATE_ENTITIES_def)
  then show ?thesis using command_routing [of c payload] by (auto simp: list_all_iff)
qed

section \<open>Properties\<close>

text \<open>C13: The daemon's invariant. In every run of the bridge, whatever its machine answers,
  however its tasks' rounds follow each other, whatever steps of the others and reconnects
  of the MQTT client happen between and during them, and also when it ends with an
  exception: the cached settings show every pending byte of the overlay, and the queue of
  write intents is within its bound and holds only writes of bytes. And when the run begins
  with the connection of the MQTT client and sees no reconnect of it, the retained
  availability message is the store's verdict; a reconnect announces \<open>online\<close> whatever the
  verdict is (\<open>reconnect_announces_online_while_offline\<close> in \<open>Mqtt\<close>).\<close>

theorem daemon_invariant:
  assumes "\<forall>(dev, a) \<in> set acts. interleaving True dev"
    and "activities acts (start_broker dumps version c now d) = Some (r, b)"
  shows "(\<forall>j < length (settings (bk_store b)). \<forall>x.
        map_of (st_pending (bk_store b)) (int j) = Some x \<longrightarrow> settings (bk_store b) ! j = x)
    \<and> (\<exists>q. bk_intents b = Some q \<and> length q \<le> INTENT_QUEUE_MAX
        \<and> (\<forall>(address, data) \<in> set q. data \<noteq> [] \<and> list_all is_byte data))
    \<and> (mqtt_enabled c \<and> connects_once acts \<longrightarrow> last_availability c (bk_mqtt b)
        = Some (if available (bk_store b) then ''online'' else ''offline''))"
proof -
  have "acts_ok True acts" using assms(1) by (auto simp: acts_ok_def)
  note inv = broker_inv_shows(1,2) [OF reached_inv [OF this assms(2)]]
  have "last_availability c (bk_mqtt b) = Some (verdict_msg (available (bk_store b)))"
    if "mqtt_enabled c" "connects_once acts"
    using broker_inv_shows(4) [OF connected_inv [OF that(2) assms(2)] that(1)] by simp
  then show ?thesis
    using inv by (auto simp: overlay_inv_def intents_ok_def verdict_msg_def)
qed

text \<open>A poll of the busy machine with its command's intent queued, then a command over MQTT
  and a reconnect.\<close>

theorem daemon_invariant_witness:
  "\<exists>r b. activities [(good_machine, Mqtt_connected), (busy_machine, Poll),
       (good_machine, Mqtt_message ''r/power/set'' ''ON''), (busy_machine, Command),
       (good_machine, Mqtt_connected)]
       (start_broker (\<lambda>_. []) [] (mqtt_config\<lparr>cf_push_enabled := True\<rparr>) 0 ()) = Some (r, b)
     \<and> (\<exists>q. bk_intents b = Some q \<and> length q \<le> INTENT_QUEUE_MAX
          \<and> (\<forall>(address, data) \<in> set q. data \<noteq> [] \<and> list_all is_byte data))"
proof -
  let ?acts = "[(good_machine, Mqtt_connected), (busy_machine, Poll),
    (good_machine, Mqtt_message ''r/power/set'' ''ON''), (busy_machine, Command),
    (good_machine, Mqtt_connected)]"
  let ?s = "start_broker (\<lambda>_. []) [] (mqtt_config\<lparr>cf_push_enabled := True\<rparr>) 0 () :: unit broker"
  obtain r b where e: "activities ?acts ?s = Some (r, b)"
    using activities_return [of ?acts ?s] by (auto simp del: activities.simps)
  have "\<forall>(dev, a) \<in> set ?acts. interleaving True dev"
    by (simp add: interleaving_machines)
  from daemon_invariant [OF this e] e show ?thesis by blast
qed

text \<open>Whatever exception a task raises ends the daemon. What is announced when it hangs is what
  the crash found announced.\<close>

definition ends_by :: "exn \<Rightarrow> bool \<Rightarrow> config \<Rightarrow> string option \<Rightarrow> ending \<Rightarrow> 'd broker \<Rightarrow> bool" where
  "ends_by e hangs c shown ending b' \<longleftrightarrow>
     (\<forall>ps. bk_push b' = Some ps \<longrightarrow> client_count ps = 0)
     \<and> (if hangs
        then ending = Hangs \<and> mq_connected (bk_mqtt b') \<and> last_availability c (bk_mqtt b') = shown
        else ending = Ends (Inl e) \<and> exit_status (Inl e) = 1
          \<and> last_availability c (bk_mqtt b') = Some ''offline'' \<and> \<not> mq_connected (bk_mqtt b'))"

lemma crash_ends_run:
  assumes "acts_ok True acts" "activities acts (start_broker dumps version c now d) = Some (Inr (), b)"
    and "mqtt_enabled c" "activities tail b = Some (Inl e, b1)" "bk_mqtt b1 = bk_mqtt b" "bk_config b1 = bk_config b"
  shows "\<exists>ending b'. run_broker waits fe dumps version (acts @ tail) c now d = Some (ending, b')
    \<and> ends_by e (waits \<and> cf_frontend_enabled c \<and> fe_clients fe \<noteq> []) c
        (last_availability c (bk_mqtt b)) ending b'"
proof -
  let ?s = "start_broker dumps version c now d" and ?fe = "if cf_frontend_enabled c then Some fe else None"
  have inv: "broker_inv True c b" by (rule reached_inv [OF assms(1,2)])
  then have cfg: "bk_config b1 = c" by (simp add: broker_inv_def assms(6))
  note con = broker_inv_shows(3) [OF inv assms(3)]
  have "activities (acts @ tail) ?s = Some (Inl e, b1)"
    using activities_append [of acts tail ?s] assms(2,4) by simp
  moreover have "run_tasks c \<noteq> []" using assms(3) by (simp add: run_tasks_def)
  moreover define b' where "b' = snd (shutdown waits ?fe b1)"
  ultimately have run: "run_broker waits fe dumps version (acts @ tail) c now d
      = Some (if fst (shutdown waits ?fe b1) then Ends (Inl e) else Hangs, b')"
    by (simp add: run_broker_def Let_def split_def)
  have hang: "fst (shutdown waits ?fe b1) \<longleftrightarrow> \<not> (waits \<and> cf_frontend_enabled c \<and> fe_clients fe \<noteq> [])"
    by (simp add: shutdown_def fe_stop_returns Let_def)
  have "client_count ps = 0" if "bk_push b' = Some ps" for ps
    using that by (auto simp: b'_def shutdown_def on_push_def mqtt_callback_def client_count_def Let_def split: if_splits)
  moreover have "bk_mqtt b' = (if fst (shutdown waits ?fe b1) then mq_disconnect c (bk_mqtt b) else bk_mqtt b)"
    using assms(3,5) by (auto simp: b'_def shutdown_def on_push_def mqtt_callback_def cfg Let_def)
  moreover have "last_availability c (mq_disconnect c (bk_mqtt b)) = Some ''offline''"
    "\<not> mq_connected (mq_disconnect c (bk_mqtt b))"
    using con by (simp_all add: mq_disconnect_def last_availability_publish_availability)
  ultimately show ?thesis using con by (simp add: run hang ends_by_def exit_status_def)
qed

text \<open>A port of the push server or of the front-end that cannot be bound ends it so.\<close>

lemma taken_port_stops_bridge:
  assumes "acts_ok True acts" "activities acts (start_broker dumps version c now d) = Some (Inr (), b)"
    and "mqtt_enabled c" "a = Start_push (Inl e) \<and> cf_push_enabled c \<or> a = Start_frontend (Inl e) \<and> cf_frontend_enabled c"
  shows "\<exists>ending b'. run_broker waits fe dumps version (acts @ (dev1, a) # rest) c now d = Some (ending, b')
    \<and> ends_by e (waits \<and> cf_frontend_enabled c \<and> fe_clients fe \<noteq> []) c
        (last_availability c (bk_mqtt b)) ending b'"
proof (rule crash_ends_run [OF assms(1-3)])
  have "bk_config b = c" using reached_inv [OF assms(1,2)] by (simp add: broker_inv_def)
  then show "activities ((dev1, a) # rest) b = Some (Inl e, b)"
    using assms(3,4) by (auto simp: run_tasks_def ws_start_def fe_start_def start_server_def)
qed simp_all

text \<open>C14: One MQTT message can stop the bridge: whatever it has been through, reconnects of the
  MQTT client included, when MQTT is configured and no command is waiting, a message on the
  target topic of either thermostat whose payload \<open>float()\<close> reads as an infinity (\<open>inf\<close>,
  say) raises an \<open>OverflowError\<close> out of the command loop's next round, whatever else was
  about to happen, and the subscribers are dropped. Then the daemon announces \<open>offline\<close> and
  exits with status 1; but where \<open>wait_closed\<close> waits for connections, one LAN client that
  stays on the front-end keeps the process alive without its loops, the MQTT connection open
  and announcing what it last announced: the verdict, unless the client has reconnected.\<close>

theorem one_message_stops_bridge:
  assumes "\<forall>(dev, a) \<in> set acts. interleaving True dev"
    and "activities acts (start_broker dumps version c now d) = Some (Inr (), b)"
    and "mqtt_enabled c" "bk_commands b = Some []"
    and "key \<in> {''brew_boiler'', ''steam_boiler''}" "py_float payload = Inr (Inf neg)"
  shows "\<exists>ending b'. run_broker waits fe dumps version
        (acts @ (dev1, Mqtt_message (climate_target_command_topic c key) payload) # (dev2, Command) # rest)
        c now d = Some (ending, b')
    \<and> (\<forall>ps. bk_push b' = Some ps \<longrightarrow> client_count ps = 0)
    \<and> (if waits \<and> cf_frontend_enabled c \<and> fe_clients fe \<noteq> []
       then ending = Hangs \<and> mq_connected (bk_mqtt b')
         \<and> last_availability c (bk_mqtt b') = last_availability c (bk_mqtt b)
         \<and> (connects_once acts \<longrightarrow> last_availability c (bk_mqtt b')
             = Some (if available (bk_store b) then ''online'' else ''offline''))
       else ending = Ends (Inl OverflowError) \<and> exit_status (Inl OverflowError) = 1
         \<and> last_availability c (bk_mqtt b') = Some ''offline'' \<and> \<not> mq_connected (bk_mqtt b'))"
proof -
  let ?tail = "(dev1, Mqtt_message (climate_target_command_topic c key) payload) # (dev2, Command) # rest"
  have ok: "acts_ok True acts" using assms(1) by (auto simp: acts_ok_def)
  have cfg: "bk_config b = c" using reached_inv [OF ok assms(2)] by (simp add: broker_inv_def)
  have task: "Command_loop \<in> set (run_tasks c)" using assms(3) by (simp add: run_tasks_def)
  have msg: "receive_message (climate_target_command_topic c key) payload b
      = b\<lparr>bk_commands := Some [(key, payload)]\<rparr>"
    by (simp add: receive_message_def cfg thermostat_message [OF assms(5)] enqueue_command_def assms(4))
  let ?b = "b\<lparr>bk_commands := Some []\<rparr>"
  have "command_round dev2 (b\<lparr>bk_commands := Some [(key, payload)]\<rparr>) = (Inl OverflowError, ?b)"
    using assms(5,6)
    by (auto simp: command_round_def apply_command_def find_encoder_climate encode_ranged_def)
  then have "activities ?tail b = Some (Inl OverflowError, ?b)"
    using task by (simp add: cfg msg)
  from crash_ends_run [OF ok assms(2,3) this, of waits fe, simplified] obtain ending b' where crash:
    "run_broker waits fe dumps version (acts @ ?tail) c now d = Some (ending, b')"
    "ends_by OverflowError (waits \<and> cf_frontend_enabled c \<and> fe_clients fe \<noteq> []) c
       (last_availability c (bk_mqtt b)) ending b'"
    by auto
  have "last_availability c (bk_mqtt b) = Some (verdict_msg (available (bk_store b)))"
    if "connects_once acts"
    using broker_inv_shows(4) [OF connected_inv [OF that assms(2)] assms(3)] by simp
  then have v: "connects_once acts \<longrightarrow> last_availability c (bk_mqtt b)
      = Some (if available (bk_store b) then ''online'' else ''offline'')"
    by (simp add: verdict_msg_def)
  show ?thesis
    using crash(2) v unfolding ends_by_def
    by (intro exI [of _ ending] exI [of _ b'] conjI crash(1)) (simp_all split: if_split)
qed

lemma publish_round_frame: "bk_commands (publish_round good_machine b) = bk_commands b"
  by (simp add: publish_round_def loop_sleep_def good_machine_def publish_now_def
      split: pyfloat.split prod.split)

text \<open>With a LAN client that stays, on a Python that waits for it.\<close>

theorem one_message_stops_bridge_witness:
  "\<exists>b'. run_broker True (fold fe_event [Lan_join 7] (snd (fe_start (Inr [1774]) new_frontend))) (\<lambda>_. []) []
       ([(good_machine, Mqtt_connected), (good_machine, Publish)]
         @ (good_machine, Mqtt_message (climate_target_command_topic mqtt_config ''brew_boiler'') ''inf'')
         # (good_machine, Command) # [(dead_machine, Poll)])
       (mqtt_config\<lparr>cf_frontend_enabled := True\<rparr>) 0 () = Some (Hangs, b')
     \<and> mq_connected (bk_mqtt b')"
proof -
  let ?c = "mqtt_config\<lparr>cf_frontend_enabled := True\<rparr>"
  let ?fe = "fold fe_event [Lan_join 7] (snd (fe_start (Inr [1774]) new_frontend))"
  let ?s = "start_broker (\<lambda>_. []) [] ?c 0 () :: unit broker"
  let ?b = "publish_round good_machine (mqtt_callback on_connect ?s)"
  have m: "mqtt_enabled ?c" by (simp add: mqtt_enabled_def mqtt_config_def)
  have t: "climate_target_command_topic ?c key = climate_target_command_topic mqtt_config key" for key
    by (simp add: climate_target_command_topic_def)
  have "set (run_tasks ?c) = {Poll_loop, Command_loop, Publish_loop, Frontend_serve}"
    using m by (simp add: run_tasks_def) (simp add: mqtt_config_def)
  then have "activities [(good_machine, Mqtt_connected), (good_machine, Publish)] ?s = Some (Inr (), ?b)"
    using m by (simp add: start_broker_def new_broker_def mqtt_callback_def Let_def)
  moreover have "bk_commands ?b = Some []"
    by (simp add: publish_round_frame start_broker_def mqtt_callback_def new_broker_def Let_def)
  moreover have "py_float ''inf'' = Inr (Inf False)" by code_simp
  moreover have "\<forall>(dev, a) \<in> set [(good_machine, Mqtt_connected), (good_machine, Publish)]. interleaving True dev"
    by (simp add: interleaving_machines)
  moreover have "''brew_boiler'' \<in> {''brew_boiler'', ''steam_boiler''}" by (simp only: insert_iff simp_thms)
  moreover have "fe_clients ?fe \<noteq> []"
    by (simp add: fe_start_def start_server_def new_frontend_def conns_of_def ls_accept_def)
  ultimately show ?thesis
    using one_message_stops_bridge [OF _ _ m, of _ _ _ _ _ _ "''brew_boiler''" "''inf''" False True ?fe]
    by (fastforce simp: t)
qed

end
