(* ===== verification/Guard.thy ===== *)
theory Guard
  imports Prelude "HOL-Library.Product_Lexorder" "HOL-Library.List_Lexorder" "HOL-Library.Char_ord"
begin

text \<open>
  The static guard \<open>scripts/check_no_loop_io.py\<close>, which reports every access to an attribute
  of \<open>self.data\<close> inside an \<open>__init__\<close> or a property getter. The parsed module is a tree:
  attributes with their context (read, assigned or deleted) and line, names, function
  definitions with decorators, other parts and body, and every other node with its
  children. The guard never looks at the context, although its documentation speaks of
  reads. The lemmas compare the two visitors
  with what they look for, stated over the nodes of the tree.
\<close>

section \<open>Trees\<close>

datatype ctx = Ctx_load | Ctx_store | Ctx_del

datatype py =
    PyAttribute py string ctx nat
  | PyName string
  | PyFunction bool string "py list" "py list" "py list"
  | PyOther "py list"

text \<open>\<open>PyFunction\<close> has the async flag, the name, the decorators, arguments and annotations,
  and the body.\<close>

definition DEVICE_ATTR :: string where
  "DEVICE_ATTR = ''data''"

fun is_self_data :: "py \<Rightarrow> bool" where
  "is_self_data (PyAttribute (PyName n) attr ctx line) \<longleftrightarrow> attr = DEVICE_ATTR \<and> n = ''self''"
| "is_self_data _ \<longleftrightarrow> False"

fun is_self_data_read :: "py \<Rightarrow> bool" where
  "is_self_data_read (PyAttribute v attr ctx line) \<longleftrightarrow> is_self_data v"
| "is_self_data_read _ \<longleftrightarrow> False"

fun is_property :: "py \<Rightarrow> bool" where
  "is_property (PyName n) \<longleftrightarrow> n = ''property''"
| "is_property (PyAttribute v attr ctx line) \<longleftrightarrow> attr = ''property''"
| "is_property _ \<longleftrightarrow> False"

definition is_property_getter :: "py list \<Rightarrow> bool" where
  "is_property_getter decorators \<longleftrightarrow> list_ex is_property decorators"

section \<open>The visitors\<close>

fun scope_reads :: "py \<Rightarrow> (nat \<times> string) list" where
  "scope_reads (PyAttribute v attr ctx line) =
     (if is_self_data_read (PyAttribute v attr ctx line) then [(line, attr)] else []) @ scope_reads v"
| "scope_reads (PyName n) = []"
| "scope_reads (PyFunction a n ds os body) = concat (map scope_reads (os @ body @ ds))"
| "scope_reads (PyOther cs) = concat (map scope_reads cs)"

fun module_reads :: "py \<Rightarrow> (nat \<times> string) list" where
  "module_reads (PyFunction a n ds os body) =
     (if n = ''__init__'' \<or> is_property_getter ds then concat (map scope_reads body) else [])
     @ concat (map module_reads (os @ body @ ds))"
| "module_reads (PyAttribute v attr ctx line) = module_reads v"
| "module_reads (PyName n) = []"
| "module_reads (PyOther cs) = concat (map module_reads cs)"

definition check_source :: "py \<Rightarrow> (nat \<times> string) list" where
  "check_source tree = sort (module_reads tree)"

text \<open>The exit code of \<open>main\<close> on the parsed targets.\<close>

definition guard_main :: "py list \<Rightarrow> int" where
  "guard_main trees = (if concat (map check_source trees) \<noteq> [] then 1 else 0)"

section \<open>What they look for\<close>

fun nodes :: "py \<Rightarrow> py set" where
  "nodes (PyAttribute v attr ctx line) = insert (PyAttribute v attr ctx line) (nodes v)"
| "nodes (PyName n) = {PyName n}"
| "nodes (PyFunction a n ds os body) =
     insert (PyFunction a n ds os body) (\<Union>c \<in> set (os @ body @ ds). nodes c)"
| "nodes (PyOther cs) = insert (PyOther cs) (\<Union>c \<in> set cs. nodes c)"

definition reads_in :: "py \<Rightarrow> (nat \<times> string) set" where
  "reads_in t = {(line, attr) |line attr ctx v. PyAttribute v attr ctx line \<in> nodes t \<and> is_self_data v}"

fun forbids :: "py \<Rightarrow> (nat \<times> string) set" where
  "forbids (PyFunction a n ds os body) =
     (if n = ''__init__'' \<or> is_property_getter ds then \<Union>(reads_in ` set body) else {})"
| "forbids _ = {}"

definition guarded_reads :: "py \<Rightarrow> (nat \<times> string) set" where
  "guarded_reads t = (\<Union>f \<in> nodes t. forbids f)"

lemma scope_reads_exact: "set (scope_reads t) = reads_in t"
proof (induction t rule: scope_reads.induct)
  case (1 v attr ctx line)
  then show ?case by (auto simp: reads_in_def)
next
  case (3 a n ds os body)
  then show ?case by (fastforce simp: reads_in_def)
next
  case (4 cs)
  then show ?case by (fastforce simp: reads_in_def)
qed (simp add: reads_in_def)

lemma guarded_reads_simps:
  "guarded_reads (PyAttribute v attr ctx line) = guarded_reads v"
  "guarded_reads (PyName n) = {}"
  "guarded_reads (PyOther cs) = (\<Union>c \<in> set cs. guarded_reads c)"
  "guarded_reads (PyFunction a n ds os body) =
     forbids (PyFunction a n ds os body) \<union> (\<Union>c \<in> set (os @ body @ ds). guarded_reads c)"
  by (simp_all add: guarded_reads_def UN_UN_flatten del: set_append)

lemma forbids_iff:
  "(line, attr) \<in> forbids f \<longleftrightarrow>
     (\<exists>a n ds os body stmt v ctx. f = PyFunction a n ds os body
        \<and> (n = ''__init__'' \<or> is_property_getter ds) \<and> stmt \<in> set body
        \<and> PyAttribute v attr ctx line \<in> nodes stmt \<and> is_self_data v)"
  by (cases f) (auto simp: reads_in_def)

lemma module_reads_exact: "set (module_reads t) = guarded_reads t"
  by (induction t rule: module_reads.induct) (auto simp: guarded_reads_simps scope_reads_exact)

section \<open>Property\<close>

text \<open>An assignment and a deletion are reported like a read, although the module's
  docstring says that only reads are flagged.\<close>

definition storing_init :: py where
  "storing_init =
     PyFunction False ''__init__'' [] []
       [PyOther [PyAttribute (PyAttribute (PyName ''self'') ''data'' Ctx_load 2) ''mode'' Ctx_store 2,
          PyName ''mode''],
        PyOther [PyAttribute (PyAttribute (PyName ''self'') ''data'' Ctx_load 3) ''cache'' Ctx_del 3]]"

lemma writes_reported:
  "check_source storing_init = [(2, ''mode''), (3, ''cache'')]"
  "\<not> (\<exists>v attr line. PyAttribute v attr Ctx_load line \<in> nodes storing_init \<and> is_self_data v)"
  by (code_simp, auto simp: storing_init_def)

text \<open>C37: The guard finds exactly the accesses it looks for: its report of a module is
  sorted and holds a line and an attribute just when some function of the module, at any
  depth, that is an \<open>__init__\<close> or a property getter, has in its body an access to that
  attribute on \<open>self.data\<close> at that line, whether it is read, assigned or deleted; and it
  passes a list of modules only when none has one.\<close>

theorem guard_exact:
  "sorted (check_source t)
   \<and> ((line, attr) \<in> set (check_source t) \<longleftrightarrow>
      (\<exists>a n ds os body stmt v ctx. PyFunction a n ds os body \<in> nodes t
         \<and> (n = ''__init__'' \<or> is_property_getter ds) \<and> stmt \<in> set body
         \<and> PyAttribute v attr ctx line \<in> nodes stmt \<and> is_self_data v))
   \<and> (guard_main ts = 0 \<longleftrightarrow> (\<Union>t \<in> set ts. guarded_reads t) = {})"
proof -
  have "(line, attr) \<in> guarded_reads t \<longleftrightarrow>
      (\<exists>a n ds os body stmt v ctx. PyFunction a n ds os body \<in> nodes t
         \<and> (n = ''__init__'' \<or> is_property_getter ds) \<and> stmt \<in> set body
         \<and> PyAttribute v attr ctx line \<in> nodes stmt \<and> is_self_data v)"
    unfolding guarded_reads_def UN_iff forbids_iff by blast
  moreover have "guard_main ts = 0 \<longleftrightarrow> (\<Union>t \<in> set ts. guarded_reads t) = {}"
    by (auto simp: guard_main_def check_source_def simp flip: module_reads_exact set_empty)
  ultimately show ?thesis by (simp add: check_source_def module_reads_exact)
qed

end
