(* ===== verification/Spec2Isabelle.thy ===== *)
theory Spec2Isabelle
  imports Mirrored HaObjects HaClock HaRecovery HaDisplay HaClient
    PushServer Discovery Daemon Client Guard
begin

text \<open>
  A verification library for the Rocket R60V bridge and its Home Assistant integration.

  The program. An espresso machine with one fragile TCP socket is owned by a daemon, the bridge
  (\<open>bridge/r60v_broker/\<close>): a half-duplex client paces and retries requests on the one socket, a
  governor queues every caller by priority, a poll loop fills a store with the machine's memory
  and a verdict on its availability, a wedge controller keeps away from a machine that stopped
  answering, and the store is projected to MQTT, to WebSocket subscribers, and to LAN clients of
  the native protocol. The Home Assistant integration (\<open>custom_components/rocket_r60v/\<close>) either
  subscribes to the bridge's WebSocket stream and sends its commands back on it, or, without a
  bridge, polls the machine itself with its own copy of the protocol and client.

  Theories and code.
  \<^item> \<open>Prelude\<close>, \<open>PyStr\<close>, \<open>PyFloat\<close>, \<open>Json\<close>: exceptions as values, Python's strings, integers,
    binary64 floats and JSON values as far as the program uses them.
  \<^item> \<open>Protocol\<close> (\<open>protocol.py\<close>): frames, checksum, parser. \<open>HaProtocol\<close>: the integration's copy,
    proved equal but for one exception.
  \<^item> \<open>Client\<close> (\<open>client.py\<close>): pacing, exchange, retries, reconnection; \<open>HaClient\<close>: the
    integration's client, sharing the definitions of the common code.
  \<^item> \<open>Emulator\<close> (\<open>emulator.py\<close>): the machine as the repository emulates it, the reference of
    \<open>Frontend\<close>.
  \<^item> \<open>Governor\<close> (\<open>governor.py\<close>): the queue, the worker and its futures as a step relation.
  \<^item> \<open>State\<close> (\<open>state.py\<close>), \<open>Store\<close> (\<open>store.py\<close>), \<open>Wedge\<close> (\<open>wedge.py\<close>), \<open>Config\<close> (\<open>config.py\<close>),
    \<open>Mqtt\<close> (\<open>mqtt_bridge.py\<close>, \<open>publisher.py\<close>), \<open>Broker\<close> (poll loop and MQTT commands of
    \<open>broker.py\<close>, subscribers of \<open>push_server.py\<close>), \<open>Intents\<close> (the write intents of both),
    \<open>Discovery\<close> (the discovery documents of \<open>mqtt_bridge.py\<close>), \<open>Daemon\<close> (\<open>run\<close> and \<open>main\<close> of
    \<open>broker.py\<close>: the task set, the loops, the shutdown), \<open>Frontend\<close> (\<open>tcp_frontend.py\<close>).
  \<^item> \<open>PushServer\<close> (\<open>push_server.py\<close>): connections and broadcasts as concurrent events, which
    \<open>Broker\<close>'s undisturbed broadcasts implement. \<open>Listeners\<close> (\<open>tcp_frontend.py\<close>,
    \<open>push_server.py\<close>, \<open>emulator.py\<close>): start, connections and stop of the servers.
  \<^item> \<open>HaEntities\<close> (\<open>entities.py\<close>) with \<open>HaProfile\<close>, \<open>HaDisplay\<close> and \<open>HaSurfaces\<close> for the facts on
    its codecs, and \<open>HaIsolation\<close> for the bytes each entity reads and writes; \<open>HaHealth\<close>
    (\<open>bridge_health.py\<close>); \<open>HaCoordinator\<close> (\<open>coordinator.py\<close> and the sending half of
    \<open>push_client.py\<close>) with \<open>HaRecovery\<close> and, over whole histories, \<open>HaPolling\<close>; \<open>HaPush\<close> (the
    receiving half of \<open>push_client.py\<close>); \<open>HaPlatforms\<close> (\<open>entity.py\<close>, \<open>switch.py\<close>, \<open>select.py\<close>,
    \<open>time.py\<close>, \<open>text.py\<close>, \<open>climate.py\<close>, \<open>sensor.py\<close>, \<open>binary_sensor.py\<close>, \<open>button.py\<close>,
    \<open>clock.py\<close>) with \<open>HaObjects\<close>, what they tell Home Assistant of each entity; \<open>HaSetup\<close>
    (\<open>config_flow.py\<close>, \<open>const.py\<close>, \<open>__init__.py\<close>); \<open>HaClock\<close> (the schedule of \<open>clock.py\<close> beside
    the rest of an entry).
  \<^item> \<open>Guard\<close> (\<open>scripts/check_no_loop_io.py\<close>).
  \<^item> Compositions: \<open>Bridged\<close>, the broker on its governor and the emulated machine; \<open>EndToEnd\<close>,
    from the controls of Home Assistant to the machine's memory and back; \<open>Mirrored\<close>, from the
    machine's memory through a poll to what Home Assistant shows.

  State and operations. An object is a record whose fields are its attributes, a method a
  function on the record with the method's name (\<open>ha_\<close> or \<open>em_\<close> before it where two modules
  share a name); a method that may raise returns a result, and an await is one step of an
  explicit environment: a tape of happenings for the socket (\<open>Client\<close>), functions on the whole
  broker for its device and its sleeps (\<open>Broker\<close>), the outcome and the order of steps for the
  governor. Nothing is assumed of the environment unless a theorem says so. The daemon's tasks
  share an event loop, so a run is a sequence of their rounds, during whose awaits the broker
  may be changed by any sequence of the others' atomic steps, reconnects of the MQTT client
  included where a theorem says so (\<open>interleaving\<close>).

  Interfaces. The queue contract (\<open>priority_queue\<close>) is interpreted on the governor's heap,
  the memory contract (\<open>register_file\<close>) on the emulator, an invariant kept by every
  primitive step of a connection (\<open>conn_invariant\<close>) on the pacing of both clients, on the
  bound of retries and on what a request that succeeded has sent, and graded recovery with
  its back-off (\<open>graded_recovery\<close>, \<open>backoff_recovery\<close>) on the bridge's wedge controller and
  on the coordinator that mirrors it. A service around a TCP server (\<open>tcp_service\<close>) is
  interpreted on the front-end, the push server and the emulator.

  What the lemmas show. Codecs: what is built parses back, corrupt frames are refused, every
  value a user can set is shown as it was set, on both surfaces, floats included.
  Connection: pacing, bounded retries, which exceptions leave a request and in which state.
  Scheduling: order, each future settled once, every job served. Store: the overlay and the
  availability verdict over every history of operations. Daemon: what holds after any
  interleaving of its tasks, and that an exception of any task ends it, and how. Push
  stream: in which order subscribers are served. Discovery: what is announced is honoured.
  Recovery: when the machine is left alone, how long, and what ends it. End to end: a LAN
  client sees the machine through the bridge as it would directly; Home Assistant shows the
  store's values and verdict, and after a poll the machine's own; its commands arrive in the
  bridge's queue, and, nothing disturbing them, in the machine's memory in their order, from
  which each entity shows the last value it was given. Entities: their states are of their
  type, their commands do not disturb each other. Clock: what its pushes do beside the rest
  of an entry.

  Limits of the program. Where a property needs a hypothesis that the code can leave, a lemma
  beside it says what the code then does: the governor's \<open>close_link\<close> makes a request raise
  something else (\<open>closed_link_escapes_request\<close>), an MQTT command ends the unavailability of a
  cooldown (\<open>mqtt_command_ends_unavailable_in_cooldown\<close>), an intent's second try can fall into
  one (\<open>write_retried_inside_cooldown\<close>), an unexpected exception leaves its overlay
  (\<open>unexpected_write_error_leaks_overlay\<close>), a reconnect announces the wrong verdict
  (\<open>reconnect_announces_online_while_offline\<close>), late bytes that arrive during a pacing sleep are
  taken (\<open>late_reply_during_pace_taken\<close>), a garbled reply escapes the tolerance
  (\<open>garbled_poll_escapes_tolerance\<close>), the end of a cooldown makes an old snapshot new
  (\<open>end_cooldown_serves_stale\<close>), the push mode's seed drops a stored time
  (\<open>seed_drops_stored_time\<close>), a time without an offset is refused
  (\<open>naive_timestamp_refused\<close>), the guard reports writes (\<open>writes_reported\<close>).

  Bounds. Loops are structural or well-founded; two may run for ever in the code and are partial
  functions with the value \<open>None\<close> then: \<open>connect_loop\<close>, on a machine that never answers, and
  \<open>wait_cooldown\<close>, on a clock that does not move. Retry loops count down the number of tries of
  the source. \<open>drained\<close> and \<open>worker_rounds\<close> take the number of jobs, which is enough because
  each round removes one.

  Not modelled. Log messages and the text of exceptions; signal handlers, and cancellation
  except that a signal ends the run; the MQTT library's set-up; the JSON text of discovery
  documents and the parser of timestamps, which are arguments; the rounding of clock
  arithmetic; strings beyond ASCII and the replacement character; a peer that floods the
  integration's drain without a pause of 50 ms; labels, fixed icons and form schemas;
  registers and flows of Home Assistant itself. What the program calls in Home Assistant's
  base classes is recorded as events, and a theorem that needs their effect takes it as a
  hypothesis (\<open>documented_base\<close>, \<open>documented_outcome\<close>). Interleaving inside one handler of
  the coordinator is limited to what other tasks do to the connection.
\<close>

section \<open>Home Assistant's base class\<close>

text \<open>What the documentation of \<open>DataUpdateCoordinator\<close> says of the two calls the push
  client makes: new data is stored and counts as a success, an update error keeps the
  data and counts as a failure.\<close>

definition documented_base :: "(base_call \<Rightarrow> coordinator \<Rightarrow> coordinator) \<Rightarrow> bool" where
  "documented_base base \<longleftrightarrow>
     (\<forall>co s. co_data (base (Set_updated_data s) co) = Some s
        \<and> co_last_update_success (base (Set_updated_data s) co))
     \<and> (\<forall>co. co_data (base Set_update_error co) = co_data co
        \<and> \<not> co_last_update_success (base Set_update_error co))"

lemma handle_messages_calls:
  "handle_messages ms co = (r, co') \<Longrightarrow> \<exists>new. co' = co\<lparr>co_calls := co_calls co @ new\<rparr>"
proof (induction ms arbitrary: co)
  case Nil
  then have "co' = co\<lparr>co_calls := co_calls co @ []\<rparr>" by simp
  then show ?case by blast
next
  case (Cons m ms)
  show ?case
  proof (cases "handle_frame m")
    case (Updated s)
    then have "handle_messages ms (call_base (Set_updated_data s) co) = (r, co')" using Cons.prems by simp
    from Cons.IH [OF this] obtain new where
      "co' = (call_base (Set_updated_data s) co)
        \<lparr>co_calls := co_calls (call_base (Set_updated_data s) co) @ new\<rparr>" by blast
    then have "co' = co\<lparr>co_calls := co_calls co @ (Set_updated_data s # new)\<rparr>"
      by (simp add: call_base_def)
    then show ?thesis by blast
  next
    case (Raised e)
    then have "co' = co\<lparr>co_calls := co_calls co @ []\<rparr>" using Cons.prems by simp
    then show ?thesis by blast
  qed (use Cons in simp_all)
qed

section \<open>Properties that span components\<close>

text \<open>C18: The integration mirrors the bridge's store. After any history of a store that polled
  real addresses, once the push stream has delivered its frame, whatever came before it,
  every machine entity is available exactly when the store's verdict is, the Machine
  sensor shows that verdict, the Connection sensor does not say connected while the
  machine is unavailable, and each of the bridge's entities has one in Home Assistant of
  the same key that shows the same value; once the stream drops, none is available.\<close>

theorem integration_mirrors_store:
  assumes "documented_base base"
    and "list_all polls_real_address hist" "st = store_run hist (new_store g sa step)"
    and "length (settings st) = nat SETTINGS_LEN"
    and "handle_messages (ms @ [Some (state_frame ts (raw_snapshot st))]) co = (Inr (), co1)"
    and "co2 = fold base (drop (length (co_calls co)) (co_calls co1)) co"
  shows "(entity_available co2 \<longleftrightarrow> available st) \<and> machine_connectivity co2 = Some (available st)
    \<and> (co_push_enabled co2 \<and> connection_state co2 = STATE_CONNECTED \<longrightarrow> available st)
    \<and> (\<forall>e \<in> set ENTITIES. \<exists>h \<in> set HA_ENTITIES. he_key h = en_key e
          \<and> same_result (en_decode e (st_snapshot st)) (native_value h co2))
    \<and> \<not> entity_available (base Set_update_error co2)"
proof -
  define s where "s = \<lparr>hs_settings = settings st, hs_live = sn_live (st_snapshot st),
      hs_available = available st\<rparr>"
  have "live_keys_ok st" unfolding assms(3) by (rule live_keys_run [OF live_keys_new assms(2)])
  then have frame: "handle_frame (Some (state_frame ts (raw_snapshot st))) = Updated s"
    unfolding s_def live_keys_ok_def by (intro handle_state_frame) auto
  obtain co0 where c0: "handle_messages ms co = (Inr (), co0)"
    "co1 = call_base (Set_updated_data s) co0"
    using assms(5) by (auto simp: handle_messages_append frame split: prod.splits sum.splits)
  obtain new where new: "co0 = co\<lparr>co_calls := co_calls co @ new\<rparr>"
    using handle_messages_calls [OF c0(1)] by blast
  have co2: "co2 = base (Set_updated_data s) (fold base new co)"
    by (simp add: assms(6) c0(2) new call_base_def)
  have d: "co_data co2 = Some s" "co_last_update_success co2"
    using assms(1) by (simp_all add: co2 documented_base_def)
  have v: "bridge_view s = st_snapshot st" by (simp add: s_def bridge_view_def)
  have "\<exists>h \<in> set HA_ENTITIES. he_key h = en_key e
      \<and> same_result (en_decode e (st_snapshot st)) (native_value h co2)"
    if "e \<in> set ENTITIES" for e
    using bridge_counterpart [OF that, of s] assms(4) d(1) v
    by (auto simp: s_def counterpart_def native_value_def)
  moreover have "\<not> entity_available (base Set_update_error co2)"
    using assms(1) by (simp add: documented_base_def entity_available_def)
  ultimately show ?thesis
    using d by (simp add: entity_available_def machine_connectivity_def s_def connection_state_def
        STATE_CONNECTED_def STATE_BRIDGE_DOWN_def STATE_BRIDGE_RECOVERING_def STATE_COOLDOWN_def
        STATE_RECONNECTING_def STATE_MACHINE_UNAVAILABLE_def)
qed

text \<open>The base class in its simplest form, and a store that has polled once.\<close>

fun plain_base :: "base_call \<Rightarrow> coordinator \<Rightarrow> coordinator" where
  "plain_base (Set_updated_data s) co = co\<lparr>co_data := Some s, co_last_update_success := True\<rparr>"
| "plain_base Set_update_error co = co\<lparr>co_last_update_success := False\<rparr>"
| "plain_base _ co = co"

lemma plain_base_documented: "documented_base plain_base"
  by (simp add: documented_base_def)

definition demo_history :: "store_op list" where
  "demo_history = [Settings (replicate 115 0), Live 1 CURRENT_PRESSURE [90], Success]"

theorem integration_mirrors_store_witness:
  "let st = store_run demo_history (new_store 4 12 1);
       co = new_coordinator (ha_new_conn (demo_tape []) 10) (\<lambda>t. t) None None True;
       co1 = snd (handle_messages ([None] @ [Some (state_frame 0 (raw_snapshot st))]) co);
       co2 = fold plain_base (drop (length (co_calls co)) (co_calls co1)) co
   in (entity_available co2 \<longleftrightarrow> available st) \<and> machine_connectivity co2 = Some (available st)
    \<and> \<not> entity_available (plain_base Set_update_error co2)"
proof -
  let ?st = "store_run demo_history (new_store 4 12 1)"
  let ?co = "new_coordinator (ha_new_conn (demo_tape []) 10) (\<lambda>t. t) None None True"
  let ?ms = "[None] @ [Some (state_frame 0 (raw_snapshot ?st))]"
  have l: "list_all polls_real_address demo_history" by (simp add: demo_history_def CURRENT_PRESSURE_def)
  have n: "length (settings ?st) = nat SETTINGS_LEN" by code_simp
  have "fst (handle_messages ?ms ?co) = Inr ()" by code_simp
  then have "handle_messages ?ms ?co = (Inr (), snd (handle_messages ?ms ?co))" by (metis prod.collapse)
  from integration_mirrors_store [OF plain_base_documented l refl n this refl]
  show ?thesis unfolding Let_def by blast
qed

text \<open>From a control in Home Assistant to the bridge's queue: in push mode with the
  command channel open, a value that a writable entity accepts is sent as one frame,
  without touching the machine and without asking for a refresh, and the bridge, while
  its queue has room, queues from that frame exactly the entity's write.\<close>

theorem entity_command_reaches_bridge:
  assumes "e \<in> set HA_ENTITIES" "he_encode e = Some enc" "valid_haval v" "enc v = Inr (a, d)"
    and "co_push_enabled co" "co_channel co = Some ch" "ch_open ch"
    and "ch_outcome ch (length (ch_sent ch)) = Inr ()"
    and "bk_intents b = Some q" "length q < INTENT_QUEUE_MAX"
  shows "\<exists>frame ch'. set_value e v co = (Inr (), co\<lparr>co_channel := Some ch'\<rparr>)
    \<and> ch_sent ch' = ch_sent ch @ [frame]
    \<and> bk_intents (handle_inbound (Some frame) b) = Some (q @ [(a, d)])"
proof -
  let ?f = "command_frame a d (Some (he_key e))"
  have w: "list_all is_byte d" "d \<noteq> []"
    using ha_command_bytes [OF assms(1-4)] by auto
  obtain x xs where d: "d = x # xs" using w(2) by (cases d) auto
  have b: "as_bytes (JInt x # map JInt xs) = Some (x # xs)" using as_bytes_map [OF w(1)] by (simp add: d)
  have "parse_command ?f = Some (a, d)"
    unfolding command_frame_def by (simp add: d b del: as_bytes.simps)
  then have "bk_intents (handle_inbound (Some ?f) b) = Some (q @ [(a, d)])"
    using assms(9,10)
    by (simp add: handle_inbound_def on_ws_command_def command_frame_def broadcast_state_def
        split: option.split)
  moreover have "set_value e v co
      = (Inr (), co\<lparr>co_channel := Some (ch\<lparr>ch_sent := ch_sent ch @ [?f]\<rparr>)\<rparr>)"
    using assms(2,4-8) by (simp add: set_value_def async_write_def send_command_def)
  moreover have "ch_sent (ch\<lparr>ch_sent := ch_sent ch @ [?f]\<rparr>) = ch_sent ch @ [?f]" by simp
  ultimately show ?thesis by blast
qed

text \<open>A broker whose queue is empty, and an open channel that always sends.\<close>

theorem entity_command_reaches_bridge_witness:
  "\<exists>e \<in> set HA_ENTITIES. \<exists>frame ch'. set_value e (HBool True)
       ((new_coordinator (ha_new_conn (demo_tape []) 10) (\<lambda>t. t) None None True)
          \<lparr>co_channel := Some \<lparr>ch_open = True, ch_outcome = (\<lambda>_. Inr ()), ch_sent = []\<rparr>\<rparr>)
     = (Inr (), (new_coordinator (ha_new_conn (demo_tape []) 10) (\<lambda>t. t) None None True)
          \<lparr>co_channel := Some \<lparr>ch_open = True, ch_outcome = (\<lambda>_. Inr ()), ch_sent = []\<rparr>,
           co_channel := Some ch'\<rparr>)
     \<and> ch_sent ch' = [] @ [frame]
     \<and> bk_intents (handle_inbound (Some frame) (new_broker mqtt_config 0 ())) = Some ([] @ [(74, [0])])"
proof -
  let ?e = "HaEntity ''power'' ''Power'' ''switch'' (bool_on_zero STANDBY)
    (Some (ha_encode_bool STANDBY 0 1)) ''mdi:power''"
  let ?ch = "\<lparr>ch_open = True, ch_outcome = (\<lambda>_. Inr ()), ch_sent = []\<rparr>"
  let ?co = "(new_coordinator (ha_new_conn (demo_tape []) 10) (\<lambda>t. t) None None True)
    \<lparr>co_channel := Some ?ch\<rparr>"
  have e: "?e \<in> set HA_ENTITIES" by (simp add: HA_ENTITIES_def)
  have "he_encode ?e = Some (ha_encode_bool STANDBY 0 1)" by (simp add: HaEntity_def)
  moreover have "ha_encode_bool STANDBY 0 1 (HBool True) = Inr (74, [0])"
    by (simp add: ha_encode_bool_def STANDBY_def)
  moreover have "co_push_enabled ?co" "co_channel ?co = Some ?ch" by (simp_all add: new_coordinator_def)
  moreover have "bk_intents (new_broker mqtt_config 0 ()) = Some []" by (simp add: new_broker_def)
  ultimately have "\<exists>frame ch'. set_value ?e (HBool True) ?co = (Inr (), ?co\<lparr>co_channel := Some ch'\<rparr>)
     \<and> ch_sent ch' = ch_sent ?ch @ [frame]
     \<and> bk_intents (handle_inbound (Some frame) (new_broker mqtt_config 0 ())) = Some ([] @ [(74, [0])])"
    by (intro entity_command_reaches_bridge
          [OF e, where enc = "ha_encode_bool STANDBY 0 1" and ch = ?ch]) (simp_all add: INTENT_QUEUE_MAX_def)
  then show ?thesis using e by (simp only: channel.simps) blast
qed

end
